(* ===== verification/P2P_Prelude.thy ===== *)
theory P2P_Prelude
  imports Main "HOL-Library.Word" "HOL-Library.Monad_Syntax"
begin

text \<open>
  Shared vocabulary of the development: bytes and byte strings, the object representation of
  machine integers, list lemmas on prefixes and ring arithmetic, and the collections of
  rewrite rules that the component theories extend. Nothing here models a line of the program
  by itself.

  Results of operations that can abort (a failed \<^verbatim>\<open>assert\<close>, undefined behaviour of C or C++)
  have an \<open>option\<close> type throughout: \<open>None\<close> is the abort.
\<close>

unbundle bit_operations_syntax

type_synonym byte = "8 word"
type_synonym bytes = "byte list"

definition byte_of_nat :: "nat \<Rightarrow> byte" where
  "byte_of_nat n = word_of_nat n"

lemma unat_byte_of_nat: "n < 256 \<Longrightarrow> unat (byte_of_nat n) = n"
  by (simp add: byte_of_nat_def unat_of_nat)

named_theorems const_simps "numeric constants of the sources"
named_theorems ring_simps "contents of ring buffers"
named_theorems buf_simps "contents of the muduo buffer"
named_theorems srv_simps "unfolding of the server operations"

section \<open>The option monad as fault monad\<close>

text \<open>\<^verbatim>\<open>assert(b)\<close>: the programs are built without \<^verbatim>\<open>NDEBUG\<close>, so a false condition aborts.\<close>

definition assert_that :: "bool \<Rightarrow> unit option" where
  "assert_that b = (if b then Some () else None)"

lemma assert_that_simps [simp]:
  "assert_that True = Some ()"
  "assert_that False = None"
  by (simp_all add: assert_that_def)

lemma assert_that_eq_Some [simp]: "assert_that b = Some u \<longleftrightarrow> b"
  by (simp add: assert_that_def)

lemma assert_that_eq_None [simp]: "assert_that b = None \<longleftrightarrow> \<not> b"
  by (simp add: assert_that_def)

section \<open>Interference\<close>

text \<open>
  A call that polls and sleeps lets the other threads run; \<open>env i\<close> is what they do to the state
  during the \<open>i\<close>-th sleep, \<open>run_env env i s\<close> the state after \<open>i\<close> sleeps.
\<close>

fun run_env :: "(nat \<Rightarrow> 's \<Rightarrow> 's) \<Rightarrow> nat \<Rightarrow> 's \<Rightarrow> 's" where
  "run_env env 0 w = w"
| "run_env env (Suc i) w = env i (run_env env i w)"

lemma run_env_invariant:
  "P s \<Longrightarrow> (\<And>i s. P s \<Longrightarrow> P (env i s)) \<Longrightarrow> P (run_env env n s)"
  by (induction n) auto

section \<open>Object representation of integers\<close>

text \<open>
  \<open>le_bytes n w\<close> is the memory image of the integer \<open>w\<close> of \<open>n\<close> bytes on a little-endian host
  (the least significant byte at the lowest address), \<open>le_word\<close> reads it back.
\<close>

definition le_bytes :: "nat \<Rightarrow> 'a::len word \<Rightarrow> bytes" where
  "le_bytes n w = map (\<lambda>i. ucast (drop_bit (8 * i) w)) [0..<n]"

fun le_word :: "bytes \<Rightarrow> 'a::len word" where
  "le_word [] = 0"
| "le_word (b # bs) = ucast b OR push_bit 8 (le_word bs)"

lemma length_le_bytes [simp]: "length (le_bytes n w) = n"
  by (simp add: le_bytes_def)

lemma bit_le_word:
  "bit (le_word bs :: 'a::len word) k \<longleftrightarrow>
     k < LENGTH('a) \<and> k div 8 < length bs \<and> bit (bs ! (k div 8)) (k mod 8)"
proof (induction bs arbitrary: k)
  case Nil
  then show ?case by simp
next
  case (Cons b bs)
  show ?case
  proof (cases "k < 8")
    case True
    then show ?thesis by (auto simp: bit_simps dest: bit_imp_le_length)
  next
    case False
    then obtain j where k: "k = j + 8" by (metis add.commute le_Suc_ex not_less)
    have "\<not> bit b (j + 8)" using bit_imp_le_length [of b "j + 8"] by auto
    then show ?thesis by (auto simp: k bit_simps Cons.IH div_add_self2)
  qed
qed

lemma bit_le_bytes:
  "i < n \<Longrightarrow> bit (le_bytes n w ! i) k \<longleftrightarrow> k < 8 \<and> bit w (8 * i + k)"
  by (auto simp: le_bytes_def bit_simps add.commute)

lemma le_word_le_bytes:
  assumes "8 * n = LENGTH('a::len)"
  shows "le_word (le_bytes n (w :: 'a word)) = w"
proof (rule bit_word_eqI)
  fix k assume "k < LENGTH('a)"
  then have "k div 8 < n" using assms by simp
  then show "bit (le_word (le_bytes n w) :: 'a word) k = bit w k"
    using \<open>k < LENGTH('a)\<close> by (simp add: bit_le_word bit_le_bytes)
qed

lemma le_bytes_le_word:
  assumes "8 * n = LENGTH('a::len)" and "length bs = n"
  shows "le_bytes n (le_word bs :: 'a word) = bs"
proof (rule nth_equalityI)
  show "length (le_bytes n (le_word bs :: 'a word)) = length bs" by (simp add: assms)
next
  fix i assume "i < length (le_bytes n (le_word bs :: 'a word))"
  then have i: "i < n" by simp
  show "le_bytes n (le_word bs :: 'a word) ! i = bs ! i"
  proof (rule bit_word_eqI)
    fix k assume "k < LENGTH(8)"
    then have k: "k < 8" by simp
    then have "(8 * i + k) div 8 = i" "(8 * i + k) mod 8 = k" by simp_all
    moreover have "8 * i + k < LENGTH('a)" using i k assms(1) by simp
    ultimately show "bit (le_bytes n (le_word bs :: 'a word) ! i) k = bit (bs ! i) k"
      using i k assms(2) by (simp add: bit_le_bytes bit_le_word)
  qed
qed

text \<open>The network image: most significant byte first.\<close>

definition be_bytes :: "nat \<Rightarrow> 'a::len word \<Rightarrow> bytes" where
  "be_bytes n w = rev (le_bytes n w)"

definition be_word :: "bytes \<Rightarrow> 'a::len word" where
  "be_word bs = le_word (rev bs)"

lemma length_be_bytes [simp]: "length (be_bytes n w) = n"
  by (simp add: be_bytes_def)

lemma be_word_be_bytes:
  "8 * n = LENGTH('a::len) \<Longrightarrow> be_word (be_bytes n (w :: 'a word)) = w"
  by (simp add: be_word_def be_bytes_def le_word_le_bytes)

lemma be_bytes_be_word:
  "8 * n = LENGTH('a::len) \<Longrightarrow> length bs = n \<Longrightarrow> be_bytes n (be_word bs :: 'a word) = bs"
  by (simp add: be_word_def be_bytes_def le_bytes_le_word)

lemma be_word_be_bytes_32 [simp]: "be_word (be_bytes 4 (w :: 32 word)) = w"
  by (simp add: be_word_be_bytes)

lemma be_bytes_4:
  "be_bytes 4 (w :: 32 word) =
     [ucast (drop_bit 24 w), ucast (drop_bit 16 w), ucast (drop_bit 8 w), ucast w]"
  by (simp add: be_bytes_def le_bytes_def upt_rec)

text \<open>A non-negative \<^verbatim>\<open>int32_t\<close> reads back as itself.\<close>

lemma sint_word_of_nat_32:
  "n < 2 ^ 31 \<Longrightarrow> sint (word_of_nat n :: 32 word) = int n"
  by (simp add: signed_of_nat signed_take_bit_int_eq_self)

section \<open>Lists\<close>

lemma take_append_exact [simp]: "length xs = n \<Longrightarrow> take n (xs @ ys) = xs"
  by simp

lemma drop_append_exact [simp]: "length xs = n \<Longrightarrow> drop n (xs @ ys) = ys"
  by simp

text \<open>Overwriting the cells \<open>i, i + 1, \<dots>\<close> of an array, as \<^verbatim>\<open>std::copy\<close> and \<^verbatim>\<open>memcpy\<close> do.\<close>

definition blit :: "'a list \<Rightarrow> nat \<Rightarrow> 'a list \<Rightarrow> 'a list" where
  "blit xs i ys = take i xs @ ys @ drop (i + length ys) xs"

lemma length_blit [simp]: "i + length ys \<le> length xs \<Longrightarrow> length (blit xs i ys) = length xs"
  by (simp add: blit_def)

lemma take_blit_before [simp]:
  "j \<le> i \<Longrightarrow> i \<le> length xs \<Longrightarrow> take j (blit xs i ys) = take j xs"
  by (simp add: blit_def min_def)

lemma blit_segment [simp]:
  "i + length ys \<le> length xs \<Longrightarrow> n = length ys \<Longrightarrow> take n (drop i (blit xs i ys)) = ys"
  by (simp add: blit_def)

lemma drop_blit_after:
  "i + length ys \<le> j \<Longrightarrow> i \<le> length xs \<Longrightarrow> drop j (blit xs i ys) = drop j xs"
  by (simp add: blit_def)

section \<open>Ring buffers\<close>

text \<open>The \<open>n\<close> cells of the array \<open>a\<close> from index \<open>r\<close> on, wrapping around at the end.\<close>

definition ring :: "'a list \<Rightarrow> nat \<Rightarrow> nat \<Rightarrow> 'a list" where
  "ring a r n = map (\<lambda>i. a ! ((r + i) mod length a)) [0..<n]"

text \<open>Stepping a cell pointer, as the sources write it.\<close>

definition ring_next :: "nat \<Rightarrow> nat \<Rightarrow> nat" where
  "ring_next cap p = (if p = cap - 1 then 0 else p + 1)"

lemma ring_next_mod: "p < cap \<Longrightarrow> ring_next cap p = (p + 1) mod cap"
  by (auto simp: ring_next_def mod_Suc)

lemma ring_next_less: "p < cap \<Longrightarrow> ring_next cap p < cap"
  by (auto simp: ring_next_def)

lemma length_ring [simp]: "length (ring a r n) = n"
  by (simp add: ring_def)

lemma ring_0 [simp]: "ring a r 0 = []"
  by (simp add: ring_def)

lemma ring_Suc:
  assumes "r < length a"
  shows "ring a r (Suc n) = a ! r # ring a ((r + 1) mod length a) n"
proof -
  have "(r + Suc i) mod length a = ((r + 1) mod length a + i) mod length a" for i
    by (simp add: mod_simps)
  then show ?thesis
    using assms by (simp add: ring_def upt_conv_Cons map_Suc_upt [symmetric] del: upt_Suc)
qed

lemma ring_snoc: "ring a r (Suc n) = ring a r n @ [a ! ((r + n) mod length a)]"
  by (simp add: ring_def)

lemma ring_offset_inj:
  assumes "(r + i) mod m = (r + j) mod m" "i < m" "j < (m::nat)"
  shows "i = j"
proof -
  have "int m dvd (int r + int i) - (int r + int j)"
    using assms(1) by (metis mod_eq_dvd_iff of_nat_add of_nat_mod)
  then have d: "int m dvd int i - int j" by simp
  have "\<bar>int i - int j\<bar> < int m" using assms(2,3) by linarith
  with d have "int i - int j = 0" by (metis zdvd_imp_le dvd_abs_iff
        linorder_not_less zero_less_abs_iff)
  then show ?thesis by simp
qed

lemma ring_update_other:
  assumes "n \<le> m" "m < length a"
  shows "ring (a[(r + m) mod length a := x]) r n = ring a r n"
  unfolding ring_def
proof (rule map_cong [OF refl])
  fix i assume "i \<in> set [0..<n]"
  then have "i < length a" "i \<noteq> m" using assms by auto
  then have "(r + m) mod length a \<noteq> (r + i) mod length a"
    using ring_offset_inj assms(2) by metis
  then show "a[(r + m) mod length a := x] ! ((r + i) mod length (a[(r + m) mod length a := x]))
      = a ! ((r + i) mod length a)"
    by simp
qed

lemma ring_push:
  assumes "n < length a"
  shows "ring (a[(r + n) mod length a := x]) r (Suc n) = ring a r n @ [x]"
proof -
  have "(r + n) mod length a < length a" using assms by (intro mod_less_divisor) linarith
  then show ?thesis
    using ring_update_other [of n n a r x] assms by (simp add: ring_snoc)
qed

lemma ring_split:
  assumes "r < length a"
  shows "ring a r (m + n) = ring a r m @ ring a ((r + m) mod length a) n"
  using assms
proof (induction m arbitrary: r)
  case 0
  then show ?case by simp
next
  case (Suc m)
  then have l: "(r + 1) mod length a < length a" by (metis mod_less_divisor gr_implies_not0 neq0_conv)
  have "((r + 1) mod length a + m) mod length a = (r + Suc m) mod length a"
    by (simp add: mod_simps)
  then show ?case
    using Suc.IH [OF l] Suc.prems by (simp add: ring_Suc)
qed

lemma ring_drop:
  assumes "r < length a" "m \<le> n"
  shows "ring a ((r + m) mod length a) (n - m) = drop m (ring a r n)"
  using ring_split [OF assms(1), of m "n - m"] assms(2) by simp

lemma ring_take:
  assumes "r < length a" "m \<le> n"
  shows "take m (ring a r n) = ring a r m"
  using ring_split [OF assms(1), of m "n - m"] assms(2) by simp

lemmas ring_facts [ring_simps] = ring_next_mod ring_next_less ring_Suc ring_push ring_drop

end
