(* ===== verification/P2P_Framing.thy ===== *)
theory P2P_Framing
  imports P2P_Prelude
begin

text \<open>
  The wire format of the repository (the comment at the head of
  \<^verbatim>\<open>API/C/netWork.h\<close>): a package is a four byte length in network order followed by that many
  bytes. \<open>frame\<close> is the encoder as a specification, \<open>split_frames\<close> the decoder as a
  specification: the messages that are complete in a byte string, the bytes left over, and
  whether a header with a length outside the accepted range stopped the decoding. The
  server codec and the parsers of both clients are proved to implement \<open>split_frames\<close>.

  The locale \<open>byte_stream\<close> is the contract those loops have with the buffer they read from; it is
  interpreted on the muduo buffer, the ring buffer of the C client and the deque of the Python client. The locale
  \<open>invariant_system\<close> is the contract between a step relation and an invariant.
\<close>

section \<open>Frames\<close>

definition frame :: "bytes \<Rightarrow> bytes" where
  "frame m = be_bytes 4 (word_of_nat (length m) :: 32 word) @ m"

definition header :: "bytes \<Rightarrow> int" where
  "header bs = sint (be_word (take 4 bs) :: 32 word)"

function split_frames :: "(int \<Rightarrow> bool) \<Rightarrow> bytes \<Rightarrow> bytes list \<times> bytes \<times> bool" where
  "split_frames ok bs =
     (if length bs < 4 then ([], bs, False)
      else if header bs < 0 \<or> \<not> ok (header bs) then ([], bs, True)
      else if length bs < 4 + nat (header bs) then ([], bs, False)
      else (case split_frames ok (drop (4 + nat (header bs)) bs) of
              (ms, rest, bad) \<Rightarrow> (take (nat (header bs)) (drop 4 bs) # ms, rest, bad)))"
  by pat_completeness auto
termination
  by (relation "measure (\<lambda>(ok, bs). length bs)") auto

declare split_frames.simps [simp del]

lemma length_frame [simp]: "length (frame m) = 4 + length m"
  by (simp add: frame_def)

lemma header_append: "4 \<le> length xs \<Longrightarrow> header (xs @ ys) = header xs"
  by (simp add: header_def)

lemma header_frame: "length m < 2 ^ 31 \<Longrightarrow> header (frame m @ rest) = int (length m)"
  by (simp add: header_def frame_def sint_word_of_nat_32)

lemma frame_payload: "take (length m) (drop 4 (frame m @ rest)) = m"
  by (simp add: frame_def)

lemma drop_frame: "drop (4 + length m) (frame m @ rest) = rest"
  by simp

lemma split_frames_short: "length bs < 4 \<Longrightarrow> split_frames ok bs = ([], bs, False)"
  by (simp add: split_frames.simps [of ok bs])

lemma split_frames_bad:
  "4 \<le> length bs \<Longrightarrow> header bs < 0 \<or> \<not> ok (header bs) \<Longrightarrow> split_frames ok bs = ([], bs, True)"
  by (auto simp: split_frames.simps [of ok bs])

lemma split_frames_partial:
  "4 \<le> length bs \<Longrightarrow> 0 \<le> header bs \<Longrightarrow> ok (header bs) \<Longrightarrow> length bs < 4 + nat (header bs) \<Longrightarrow>
   split_frames ok bs = ([], bs, False)"
  by (simp add: split_frames.simps [of ok bs])

lemma split_frames_full:
  "4 \<le> length bs \<Longrightarrow> 0 \<le> header bs \<Longrightarrow> ok (header bs) \<Longrightarrow> 4 + nat (header bs) \<le> length bs \<Longrightarrow>
   split_frames ok bs =
     (case split_frames ok (drop (4 + nat (header bs)) bs) of
        (ms, rest, bad) \<Rightarrow> (take (nat (header bs)) (drop 4 bs) # ms, rest, bad))"
  by (simp add: split_frames.simps [of ok bs])

lemma split_frames_frame:
  assumes "length m < 2 ^ 31" "ok (int (length m))"
  shows "split_frames ok (frame m @ rest) =
           (case split_frames ok rest of (ms, r, bad) \<Rightarrow> (m # ms, r, bad))"
proof -
  have h: "header (frame m @ rest) = int (length m)" using assms(1) by (rule header_frame)
  have "split_frames ok (frame m @ rest) =
     (case split_frames ok (drop (4 + nat (header (frame m @ rest))) (frame m @ rest)) of
        (ms, r, bad) \<Rightarrow> (take (nat (header (frame m @ rest))) (drop 4 (frame m @ rest)) # ms, r, bad))"
    by (rule split_frames_full) (simp_all add: h assms)
  then show ?thesis using frame_payload [of m rest] drop_frame [of m rest] by (simp add: h)
qed

text \<open>Decoding a concatenation of frames gives the messages back, in order and with nothing left.\<close>

lemma split_frames_concat:
  assumes "\<forall>m\<in>set ms. length m < 2 ^ 31 \<and> ok (int (length m))"
  shows "split_frames ok (concat (map frame ms) @ rest) =
           (case split_frames ok rest of (ms', r, bad) \<Rightarrow> (ms @ ms', r, bad))"
  using assms
  by (induction ms) (auto simp: split_frames_frame split: prod.splits)

text \<open>
  The decoding does not depend on how the byte stream is cut into pieces: decoding a prefix
  and then the left-over together with the rest is decoding everything at once.
\<close>

lemma split_frames_append:
  "split_frames ok (xs @ ys) =
     (case split_frames ok xs of (ms, r, bad) \<Rightarrow>
        if bad then (ms, r @ ys, True)
        else (case split_frames ok (r @ ys) of (ms', r', bad') \<Rightarrow> (ms @ ms', r', bad')))"
proof (induction ok xs rule: split_frames.induct)
  case (1 ok xs)
  consider (short) "length xs < 4"
    | (bad) "4 \<le> length xs" "header xs < 0 \<or> \<not> ok (header xs)"
    | (partial) "4 \<le> length xs" "0 \<le> header xs" "ok (header xs)" "length xs < 4 + nat (header xs)"
    | (full) "4 \<le> length xs" "0 \<le> header xs" "ok (header xs)" "4 + nat (header xs) \<le> length xs"
    by linarith
  then show ?case
  proof cases
    case short
    then show ?thesis by (simp add: split_frames_short split: prod.split)
  next
    case bad
    then show ?thesis by (simp add: split_frames_bad header_append)
  next
    case partial
    then show ?thesis by (simp add: split_frames_partial split: prod.split)
  next
    case full
    let ?n = "nat (header xs)"
    have h: "header (xs @ ys) = header xs" using full by (simp add: header_append)
    have IH: "split_frames ok (drop (4 + ?n) xs @ ys) =
      (case split_frames ok (drop (4 + ?n) xs) of (ms, r, bad) \<Rightarrow>
        if bad then (ms, r @ ys, True)
        else (case split_frames ok (r @ ys) of (ms', r', bad') \<Rightarrow> (ms @ ms', r', bad')))"
      using "1.IH" full by simp
    have "split_frames ok (xs @ ys) =
       (case split_frames ok (drop (4 + ?n) xs @ ys) of
          (ms, rest, bad) \<Rightarrow> (take ?n (drop 4 xs) # ms, rest, bad))"
      using split_frames_full [of "xs @ ys" ok] full by (simp add: h)
    then show ?thesis
      using full by (simp add: IH split_frames_full [of xs ok] split: prod.splits)
  qed
qed

lemma split_frames_left_over:
  "split_frames ok bs = (ms, rest, bad) \<Longrightarrow>
     (\<exists>pre. bs = pre @ rest) \<and>
     (if bad then 4 \<le> length rest \<and> (header rest < 0 \<or> \<not> ok (header rest))
      else length rest < 4 \<or> (0 \<le> header rest \<and> ok (header rest) \<and> length rest < 4 + nat (header rest)))"
proof (induction ok bs arbitrary: ms rule: split_frames.induct)
  case (1 ok bs)
  consider (short) "length bs < 4"
    | (bad) "4 \<le> length bs" "header bs < 0 \<or> \<not> ok (header bs)"
    | (partial) "4 \<le> length bs" "0 \<le> header bs" "ok (header bs)" "length bs < 4 + nat (header bs)"
    | (full) "4 \<le> length bs" "0 \<le> header bs" "ok (header bs)" "4 + nat (header bs) \<le> length bs"
    by linarith
  then show ?case
  proof cases
    case short
    then show ?thesis using "1.prems" by (auto simp: split_frames_short)
  next
    case bad
    then show ?thesis using "1.prems" by (auto simp: split_frames_bad)
  next
    case partial
    then show ?thesis using "1.prems" by (auto simp: split_frames_partial)
  next
    case full
    then obtain ms' where s: "split_frames ok (drop (4 + nat (header bs)) bs) = (ms', rest, bad)"
      using "1.prems" by (auto simp: split_frames_full split: prod.splits)
    have "(\<exists>pre. drop (4 + nat (header bs)) bs = pre @ rest) \<and>
     (if bad then 4 \<le> length rest \<and> (header rest < 0 \<or> \<not> ok (header rest))
      else length rest < 4 \<or> (0 \<le> header rest \<and> ok (header rest) \<and> length rest < 4 + nat (header rest)))"
      using "1.IH" full s by simp
    then show ?thesis by (metis append_assoc append_take_drop_id)
  qed
qed

text \<open>What is left over is incomplete: decoding it again gives nothing.\<close>

lemma split_frames_rest:
  "split_frames ok bs = (ms, rest, False) \<Longrightarrow> split_frames ok rest = ([], rest, False)"
  using split_frames_left_over [of ok bs ms rest False] split_frames_short split_frames_partial
  by (metis linorder_not_less)

lemma split_frames_Nil:
  "split_frames ok bs = ([], rest, False) \<Longrightarrow>
     rest = bs \<and> (length bs < 4 \<or> 4 \<le> length bs \<and> 0 \<le> header bs \<and> ok (header bs) \<and> length bs < 4 + nat (header bs))"
  by (auto simp: split_frames.simps [of ok bs] not_less split: if_splits prod.splits)

lemma split_frames_Cons:
  "split_frames ok bs = (m # ms, rest, bad) \<Longrightarrow>
     4 \<le> length bs \<and> 0 \<le> header bs \<and> ok (header bs) \<and> 4 + nat (header bs) \<le> length bs \<and>
     m = take (nat (header bs)) (drop 4 bs) \<and>
     split_frames ok (drop (4 + nat (header bs)) bs) = (ms, rest, bad)"
  by (auto simp: split_frames.simps [of ok bs] not_less split: if_splits prod.splits)

section \<open>The byte stream a decoder reads from\<close>

locale byte_stream =
  fixes invar :: "'q \<Rightarrow> bool"
    and contents :: "'q \<Rightarrow> bytes"
    and avail :: "'q \<Rightarrow> nat"
    and room :: "nat \<Rightarrow> 'q \<Rightarrow> bool"
    and put :: "bytes \<Rightarrow> 'q \<Rightarrow> 'q option"
    and discard :: "nat \<Rightarrow> 'q \<Rightarrow> 'q option"
    and peek32 :: "'q \<Rightarrow> 32 word"
  assumes avail: "invar q \<Longrightarrow> avail q = length (contents q)"
    and put: "invar q \<Longrightarrow> room (length bs) q \<Longrightarrow>
      \<exists>q'. put bs q = Some q' \<and> invar q' \<and> contents q' = contents q @ bs"
    and discard: "invar q \<Longrightarrow> n \<le> length (contents q) \<Longrightarrow>
      \<exists>q'. discard n q = Some q' \<and> invar q' \<and> contents q' = drop n (contents q)"
    and peek32: "invar q \<Longrightarrow> 4 \<le> length (contents q) \<Longrightarrow> peek32 q = be_word (take 4 (contents q))"
begin

lemma peek_header: "invar q \<Longrightarrow> 4 \<le> avail q \<Longrightarrow> sint (peek32 q) = header (contents q)"
  by (simp add: avail peek32 header_def)

text \<open>Taking one complete frame off the stream: header, payload, remainder.\<close>

lemma take_frame:
  assumes "invar q" "4 \<le> length (contents q)" "4 + n \<le> length (contents q)"
  obtains q1 q2 where "discard 4 q = Some q1" "invar q1" "contents q1 = drop 4 (contents q)"
    "discard n q1 = Some q2" "invar q2" "contents q2 = drop (4 + n) (contents q)"
proof -
  obtain q1 where q1: "discard 4 q = Some q1" "invar q1" "contents q1 = drop 4 (contents q)"
    using discard [OF assms(1,2)] by blast
  have "n \<le> length (contents q1)" using assms(3) q1(3) by simp
  from discard [OF q1(2) this] obtain q2
    where q2: "discard n q1 = Some q2" "invar q2" "contents q2 = drop n (contents q1)" by blast
  show thesis
    by (rule that [OF q1 q2(1,2)]) (simp add: q2(3) q1(3) add.commute)
qed

text \<open>What was put last comes out last: reading past the old contents gives the new bytes.\<close>

lemma put_then_discard:
  assumes "invar q" "room (length bs) q"
  obtains q1 q2 where "put bs q = Some q1" "discard (length (contents q)) q1 = Some q2"
    "invar q2" "contents q2 = bs"
proof -
  obtain q1 where q1: "put bs q = Some q1" "invar q1" "contents q1 = contents q @ bs"
    using put [OF assms] by blast
  then have "length (contents q) \<le> length (contents q1)" by simp
  from discard [OF q1(2) this] obtain q2 where
    q2: "discard (length (contents q)) q1 = Some q2" "invar q2"
      "contents q2 = drop (length (contents q)) (contents q1)" by blast
  show thesis by (rule that [OF q1(1) q2(1,2)]) (simp add: q2(3) q1(3))
qed

end

section \<open>Invariants of a step relation\<close>

locale invariant_system =
  fixes start :: "'s \<Rightarrow> bool"
    and step :: "'s \<Rightarrow> 's \<Rightarrow> bool"
    and good :: "'s \<Rightarrow> bool"
  assumes start_good: "start s \<Longrightarrow> good s"
    and step_good: "good s \<Longrightarrow> step s t \<Longrightarrow> good t"
begin

lemma run_good: "step\<^sup>*\<^sup>* s t \<Longrightarrow> good s \<Longrightarrow> good t"
  by (induction rule: rtranclp_induct) (auto intro: step_good)

lemma reachable_good: "start s \<Longrightarrow> step\<^sup>*\<^sup>* s t \<Longrightarrow> good t"
  by (auto intro: run_good start_good)

end

end
