(* ===== verification/Muduo_Endian.thy ===== *)
theory Muduo_Endian
  imports P2P_Prelude
begin

text \<open>
  \<^verbatim>\<open>p2pServer/muduo/include/muduo/net/Endian.h\<close>: conversions between host and network order.
  The \<^verbatim>\<open>htobe\<close>/\<^verbatim>\<open>betoh\<close> macros of \<^verbatim>\<open><endian.h>\<close> are modelled for a little-endian host, where both
  directions reverse the bytes of the object representation.
\<close>

definition bswap :: "nat \<Rightarrow> 'a::len word \<Rightarrow> 'a word" where
  "bswap n w = le_word (rev (le_bytes n w))"

definition hostToNetwork64 :: "64 word \<Rightarrow> 64 word" where
  "hostToNetwork64 host64 = bswap 8 host64"

definition hostToNetwork32 :: "32 word \<Rightarrow> 32 word" where
  "hostToNetwork32 host32 = bswap 4 host32"

definition hostToNetwork16 :: "16 word \<Rightarrow> 16 word" where
  "hostToNetwork16 host16 = bswap 2 host16"

definition networkToHost64 :: "64 word \<Rightarrow> 64 word" where
  "networkToHost64 net64 = bswap 8 net64"

definition networkToHost32 :: "32 word \<Rightarrow> 32 word" where
  "networkToHost32 net32 = bswap 4 net32"

definition networkToHost16 :: "16 word \<Rightarrow> 16 word" where
  "networkToHost16 net16 = bswap 2 net16"

lemma bswap_bytes:
  "8 * n = LENGTH('a::len) \<Longrightarrow> le_bytes n (bswap n (w :: 'a word)) = be_bytes n w"
  by (simp add: bswap_def be_bytes_def le_bytes_le_word)

lemma bswap_word:
  "8 * n = LENGTH('a::len) \<Longrightarrow> length bs = n \<Longrightarrow> bswap n (le_word bs :: 'a word) = be_word bs"
  by (simp add: bswap_def be_word_def le_bytes_le_word)

lemma bswap_bswap: "8 * n = LENGTH('a::len) \<Longrightarrow> bswap n (bswap n (w :: 'a word)) = w"
  by (simp add: bswap_def le_bytes_le_word le_word_le_bytes)

lemmas endian_defs = hostToNetwork64_def hostToNetwork32_def hostToNetwork16_def
  networkToHost64_def networkToHost32_def networkToHost16_def

text \<open>The memory image of a converted integer is its network image, for every width.\<close>

lemma network_image [buf_simps]:
  "le_bytes 8 (hostToNetwork64 x) = be_bytes 8 x"
  "le_bytes 4 (hostToNetwork32 y) = be_bytes 4 y"
  "le_bytes 2 (hostToNetwork16 z) = be_bytes 2 z"
  by (simp_all add: endian_defs bswap_bytes)

lemma host_value [buf_simps]:
  "length bs = 8 \<Longrightarrow> networkToHost64 (le_word bs) = be_word bs"
  "length bs = 4 \<Longrightarrow> networkToHost32 (le_word bs) = be_word bs"
  "length bs = 2 \<Longrightarrow> networkToHost16 (le_word bs) = be_word bs"
  by (simp_all add: endian_defs bswap_word)

end
