(* ===== verification/Muduo_StringPiece.thy ===== *)
theory Muduo_StringPiece
  imports P2P_Prelude "HOL-Library.List_Lexorder"
begin

text \<open>
  \<^verbatim>\<open>p2pServer/muduo/include/muduo/base/StringPiece.h\<close>: a pointer and a length into memory owned
  by someone else. The pointer is modelled by the bytes readable from it on (\<open>[]\<close> for
  \<^verbatim>\<open>NULL\<close>), the \<^verbatim>\<open>int\<close> length is kept signed; a read past those bytes, or a negative length
  used as a byte count, is a fault. The lemmas show that on valid pieces the operations are
  those of the byte string the piece denotes: equality, the lexicographic order, prefixes.
\<close>

record StringPiece =
  sp_ptr :: bytes
  sp_length :: int

text \<open>\<^verbatim>\<open>static_cast<int>\<close> of a \<^verbatim>\<open>size_t\<close>.\<close>

definition int_of_size :: "nat \<Rightarrow> int" where
  "int_of_size n = sint (word_of_nat n :: 32 word)"

lemma int_of_size_small [simp]: "n < 2 ^ 31 \<Longrightarrow> int_of_size n = int n"
  by (simp add: int_of_size_def sint_word_of_nat_32)

text \<open>\<^verbatim>\<open>strlen\<close>: the index of the first zero byte; a string without one is read past its end.\<close>

fun strlen :: "bytes \<Rightarrow> nat option" where
  "strlen [] = None"
| "strlen (b # bs) = (if b = 0 then Some 0 else map_option Suc (strlen bs))"

text \<open>\<^verbatim>\<open>memcmp\<close>: the sign of the first difference between unsigned bytes.\<close>

fun cmp3 :: "bytes \<Rightarrow> bytes \<Rightarrow> int" where
  "cmp3 (x # xs) (y # ys) = (if x < y then -1 else if y < x then 1 else cmp3 xs ys)"
| "cmp3 _ _ = 0"

definition memcmp :: "bytes \<Rightarrow> bytes \<Rightarrow> int \<Rightarrow> int option" where
  "memcmp a b n =
     (if 0 \<le> n \<and> nat n \<le> length a \<and> nat n \<le> length b
      then Some (cmp3 (take (nat n) a) (take (nat n) b)) else None)"

definition StringPiece_null :: StringPiece where
  "StringPiece_null = \<lparr>sp_ptr = [], sp_length = 0\<rparr>"

definition StringPiece_cstr :: "bytes \<Rightarrow> StringPiece option" where
  "StringPiece_cstr str = do { n \<leftarrow> strlen str; Some \<lparr>sp_ptr = str, sp_length = int_of_size n\<rparr> }"

definition StringPiece_str :: "bytes \<Rightarrow> StringPiece" where
  "StringPiece_str str = \<lparr>sp_ptr = str, sp_length = int_of_size (length str)\<rparr>"

definition StringPiece_new :: "bytes \<Rightarrow> int \<Rightarrow> StringPiece" where
  "StringPiece_new offset len = \<lparr>sp_ptr = offset, sp_length = len\<rparr>"

definition sp_data :: "StringPiece \<Rightarrow> bytes" where
  "sp_data s = sp_ptr s"

definition sp_size :: "StringPiece \<Rightarrow> int" where
  "sp_size s = sp_length s"

definition sp_empty :: "StringPiece \<Rightarrow> bool" where
  "sp_empty s \<longleftrightarrow> sp_length s = 0"

definition sp_clear :: "StringPiece \<Rightarrow> StringPiece" where
  "sp_clear s = s\<lparr>sp_ptr := [], sp_length := 0\<rparr>"

definition sp_set :: "bytes \<Rightarrow> int \<Rightarrow> StringPiece \<Rightarrow> StringPiece" where
  "sp_set buffer len s = s\<lparr>sp_ptr := buffer, sp_length := len\<rparr>"

definition sp_set_cstr :: "bytes \<Rightarrow> StringPiece \<Rightarrow> StringPiece option" where
  "sp_set_cstr str s = do { n \<leftarrow> strlen str; Some (s\<lparr>sp_ptr := str, sp_length := int_of_size n\<rparr>) }"

definition sp_index :: "StringPiece \<Rightarrow> int \<Rightarrow> byte option" where
  "sp_index s i = (if 0 \<le> i \<and> nat i < length (sp_ptr s) then Some (sp_ptr s ! nat i) else None)"

definition remove_prefix :: "int \<Rightarrow> StringPiece \<Rightarrow> StringPiece option" where
  "remove_prefix n s =
     (if 0 \<le> n \<and> nat n \<le> length (sp_ptr s)
      then Some (s\<lparr>sp_ptr := drop (nat n) (sp_ptr s), sp_length := sp_length s - n\<rparr>) else None)"

definition remove_suffix :: "int \<Rightarrow> StringPiece \<Rightarrow> StringPiece" where
  "remove_suffix n s = s\<lparr>sp_length := sp_length s - n\<rparr>"

definition sp_eq :: "StringPiece \<Rightarrow> StringPiece \<Rightarrow> bool option" where
  "sp_eq s x =
     (if sp_length s = sp_length x
      then do { r \<leftarrow> memcmp (sp_ptr s) (sp_ptr x) (sp_length s); Some (r = 0) }
      else Some False)"

definition sp_neq :: "StringPiece \<Rightarrow> StringPiece \<Rightarrow> bool option" where
  "sp_neq s x = map_option Not (sp_eq s x)"

text \<open>The four operators generated by \<^verbatim>\<open>STRINGPIECE_BINARY_PREDICATE(cmp, auxcmp)\<close>.\<close>

definition sp_binary_predicate ::
  "(int \<Rightarrow> int \<Rightarrow> bool) \<Rightarrow> (int \<Rightarrow> int \<Rightarrow> bool) \<Rightarrow> StringPiece \<Rightarrow> StringPiece \<Rightarrow> bool option" where
  "sp_binary_predicate cmp auxcmp s x = do {
     r \<leftarrow> memcmp (sp_ptr s) (sp_ptr x) (if sp_length s < sp_length x then sp_length s else sp_length x);
     Some (auxcmp r 0 \<or> (r = 0 \<and> cmp (sp_length s) (sp_length x))) }"

definition sp_less :: "StringPiece \<Rightarrow> StringPiece \<Rightarrow> bool option" where
  "sp_less = sp_binary_predicate (<) (<)"

definition sp_less_eq :: "StringPiece \<Rightarrow> StringPiece \<Rightarrow> bool option" where
  "sp_less_eq = sp_binary_predicate (\<le>) (<)"

definition sp_greater_eq :: "StringPiece \<Rightarrow> StringPiece \<Rightarrow> bool option" where
  "sp_greater_eq = sp_binary_predicate (\<ge>) (>)"

definition sp_greater :: "StringPiece \<Rightarrow> StringPiece \<Rightarrow> bool option" where
  "sp_greater = sp_binary_predicate (>) (>)"

definition sp_compare :: "StringPiece \<Rightarrow> StringPiece \<Rightarrow> int option" where
  "sp_compare s x = do {
     r \<leftarrow> memcmp (sp_ptr s) (sp_ptr x) (if sp_length s < sp_length x then sp_length s else sp_length x);
     Some (if r = 0
           then (if sp_length s < sp_length x then -1 else if sp_length s > sp_length x then 1 else r)
           else r) }"

definition as_string :: "StringPiece \<Rightarrow> bytes option" where
  "as_string s =
     (if 0 \<le> sp_length s \<and> nat (sp_length s) \<le> length (sp_ptr s)
      then Some (take (nat (sp_length s)) (sp_ptr s)) else None)"

definition starts_with :: "StringPiece \<Rightarrow> StringPiece \<Rightarrow> bool option" where
  "starts_with s x =
     (if sp_length s \<ge> sp_length x
      then do { r \<leftarrow> memcmp (sp_ptr s) (sp_ptr x) (sp_length x); Some (r = 0) }
      else Some False)"

section \<open>Pieces denote byte strings\<close>

definition sp_ok :: "StringPiece \<Rightarrow> bool" where
  "sp_ok s \<longleftrightarrow> 0 \<le> sp_length s \<and> nat (sp_length s) \<le> length (sp_ptr s)"

definition sp_view :: "StringPiece \<Rightarrow> bytes" where
  "sp_view s = take (nat (sp_length s)) (sp_ptr s)"

lemma length_sp_view: "sp_ok s \<Longrightarrow> int (length (sp_view s)) = sp_length s"
  by (simp add: sp_ok_def sp_view_def)

lemma sp_ok_str: "length str < 2 ^ 31 \<Longrightarrow> sp_ok (StringPiece_str str) \<and> sp_view (StringPiece_str str) = str"
  by (simp add: sp_ok_def sp_view_def StringPiece_str_def)

lemma cmp3_eq_0: "length a = length b \<Longrightarrow> cmp3 a b = 0 \<longleftrightarrow> a = b"
  by (induction a b rule: cmp3.induct) (auto simp: not_less_iff_gr_or_eq)

lemma cmp3_take:
  "m = min (length a) (length b) \<Longrightarrow> cmp3 (take m a) (take m b) = cmp3 a b"
  by (induction a b arbitrary: m rule: cmp3.induct) auto

lemma Nil_less_list: "[] < (xs :: bytes) \<longleftrightarrow> xs \<noteq> []"
  by (cases xs) simp_all

lemma cmp3_less: "a < b \<longleftrightarrow> cmp3 a b < 0 \<or> (cmp3 a b = 0 \<and> length a < length b)"
  by (induction a b rule: cmp3.induct) (auto simp: not_less_iff_gr_or_eq Nil_less_list)

lemma cmp3_swap: "cmp3 b a = - cmp3 a b"
  by (induction a b rule: cmp3.induct) auto

lemma cmp3_greater: "b < a \<longleftrightarrow> cmp3 a b > 0 \<or> (cmp3 a b = 0 \<and> length b < length a)"
  using cmp3_less [of b a] by (auto simp: cmp3_swap [of a b])

lemma cmp3_equal: "cmp3 a b = 0 \<and> length a = length b \<longleftrightarrow> a = b"
  using cmp3_eq_0 by auto

lemma memcmp_views:
  assumes "sp_ok s" "sp_ok x"
  shows "memcmp (sp_ptr s) (sp_ptr x) (if sp_length s < sp_length x then sp_length s else sp_length x)
           = Some (cmp3 (sp_view s) (sp_view x))"
proof -
  let ?n = "if sp_length s < sp_length x then sp_length s else sp_length x"
  have n: "nat ?n = min (length (sp_view s)) (length (sp_view x))" "0 \<le> ?n"
      "nat ?n \<le> length (sp_ptr s)" "nat ?n \<le> length (sp_ptr x)"
    using assms by (auto simp: sp_ok_def sp_view_def min_def)
  have "take (nat ?n) (sp_ptr s) = take (nat ?n) (sp_view s)"
       "take (nat ?n) (sp_ptr x) = take (nat ?n) (sp_view x)"
    using assms by (auto simp: sp_view_def sp_ok_def min_def)
  then have "cmp3 (take (nat ?n) (sp_ptr s)) (take (nat ?n) (sp_ptr x)) = cmp3 (sp_view s) (sp_view x)"
    using cmp3_take [OF n(1)] by simp
  then show ?thesis using n(2-4) unfolding memcmp_def by (simp only: if_True conj_absorb simp_thms)
qed

lemma sp_lengths:
  assumes "sp_ok s" "sp_ok x"
  shows "sp_length s < sp_length x \<longleftrightarrow> length (sp_view s) < length (sp_view x)"
    and "sp_length s = sp_length x \<longleftrightarrow> length (sp_view s) = length (sp_view x)"
  using length_sp_view [OF assms(1)] length_sp_view [OF assms(2)] by linarith+

lemma sp_binary_predicate_view:
  assumes "sp_ok s" "sp_ok x"
  shows "sp_binary_predicate cmp auxcmp s x =
    Some (auxcmp (cmp3 (sp_view s) (sp_view x)) 0 \<or>
          (cmp3 (sp_view s) (sp_view x) = 0 \<and> cmp (int (length (sp_view s))) (int (length (sp_view x)))))"
  unfolding sp_binary_predicate_def memcmp_views [OF assms] by (simp add: length_sp_view assms)

lemma sp_less_view: "sp_ok s \<Longrightarrow> sp_ok x \<Longrightarrow> sp_less s x = Some (sp_view s < sp_view x)"
  by (simp add: sp_less_def sp_binary_predicate_view cmp3_less)

lemma sp_greater_view: "sp_ok s \<Longrightarrow> sp_ok x \<Longrightarrow> sp_greater s x = Some (sp_view x < sp_view s)"
  by (simp add: sp_greater_def sp_binary_predicate_view cmp3_greater)

lemma sp_less_eq_view: "sp_ok s \<Longrightarrow> sp_ok x \<Longrightarrow> sp_less_eq s x = Some (sp_view s \<le> sp_view x)"
  by (auto simp: sp_less_eq_def sp_binary_predicate_view cmp3_greater not_less [symmetric])

lemma sp_greater_eq_view: "sp_ok s \<Longrightarrow> sp_ok x \<Longrightarrow> sp_greater_eq s x = Some (sp_view x \<le> sp_view s)"
  by (auto simp: sp_greater_eq_def sp_binary_predicate_view cmp3_less not_less [symmetric])

lemma memcmp_same_length:
  assumes "sp_ok s" "sp_ok x" "sp_length s = sp_length x"
  shows "memcmp (sp_ptr s) (sp_ptr x) (sp_length s) = Some (cmp3 (sp_view s) (sp_view x))"
  using memcmp_views [OF assms(1,2)] assms(3) by simp

lemma sp_eq_view: "sp_ok s \<Longrightarrow> sp_ok x \<Longrightarrow> sp_eq s x = Some (sp_view s = sp_view x)"
  by (auto simp: sp_eq_def memcmp_same_length sp_lengths cmp3_eq_0)

lemma sp_compare_view:
  assumes "sp_ok s" "sp_ok x"
  obtains r where "sp_compare s x = Some r" "r < 0 \<longleftrightarrow> sp_view s < sp_view x"
    "r = 0 \<longleftrightarrow> sp_view s = sp_view x" "r > 0 \<longleftrightarrow> sp_view x < sp_view s"
proof -
  let ?c = "cmp3 (sp_view s) (sp_view x)"
  let ?r = "if ?c = 0 then (if sp_length s < sp_length x then -1 else if sp_length s > sp_length x then 1 else ?c) else ?c"
  have "sp_compare s x = Some ?r" by (simp add: sp_compare_def memcmp_views assms)
  moreover have "?r < 0 \<longleftrightarrow> sp_view s < sp_view x" "?r > 0 \<longleftrightarrow> sp_view x < sp_view s"
    using assms by (auto simp: cmp3_less [of "sp_view s"] cmp3_greater [of "sp_view x"] sp_lengths)
  moreover have "?r = 0 \<longleftrightarrow> sp_view s = sp_view x"
    using assms cmp3_equal [of "sp_view s" "sp_view x"] sp_lengths [OF assms] by auto
  ultimately show thesis using that by blast
qed

lemma starts_with_view:
  assumes "sp_ok s" "sp_ok x"
  shows "starts_with s x = Some (take (length (sp_view x)) (sp_view s) = sp_view x)"
proof (cases "sp_length s \<ge> sp_length x")
  case True
  have n: "nat (sp_length x) = length (sp_view x)" using assms(2) by (simp add: sp_ok_def sp_view_def)
  have t: "take (nat (sp_length x)) (sp_ptr s) = take (length (sp_view x)) (sp_view s)"
    using True assms unfolding n [symmetric] by (simp add: sp_ok_def sp_view_def min_def)
  have "length (take (length (sp_view x)) (sp_view s)) = length (sp_view x)"
    using True assms by (auto simp: sp_ok_def sp_view_def min_def)
  then have "memcmp (sp_ptr s) (sp_ptr x) (sp_length x) =
      Some (cmp3 (take (length (sp_view x)) (sp_view s)) (sp_view x))"
    using True assms t by (simp add: memcmp_def sp_ok_def sp_view_def [of x])
  then show ?thesis
    using True cmp3_eq_0 \<open>length (take _ _) = _\<close> by (simp add: starts_with_def)
next
  case False
  then have "length (sp_view s) < length (sp_view x)" using sp_lengths(1) [OF assms] by simp
  then have "take (length (sp_view x)) (sp_view s) \<noteq> sp_view x" by (metis length_take min.strict_order_iff min.commute nat_neq_iff take_all_iff less_imp_le)
  with False show ?thesis by (simp add: starts_with_def)
qed

end
