(* ===== verification/Muduo_Buffer.thy ===== *)
theory Muduo_Buffer
  imports P2P_Framing Muduo_Endian Muduo_StringPiece
begin

text \<open>
  \<^verbatim>\<open>p2pServer/muduo/include/muduo/net/Buffer.h\<close>: the byte buffer of a connection. The vector
  \<^verbatim>\<open>buffer_\<close> is a list of bytes, the two \<^verbatim>\<open>size_t\<close> indices are natural numbers, a
  \<^verbatim>\<open>const char*\<close> into the buffer is its offset from \<^verbatim>\<open>begin()\<close>, and every \<^verbatim>\<open>assert\<close> is a
  fault. \<open>buf_ok\<close> is the picture in the class comment,
  \<^verbatim>\<open>0 <= readerIndex <= writerIndex <= size\<close>, together with the prepend area. The lemmas show
  that no operation aborts under its stated requirement, that all of them keep \<open>buf_ok\<close>, and
  what each does to the readable bytes \<open>buf_contents\<close>. \<^verbatim>\<open>kCRLF\<close> is defined in a file that is not
  part of the repository and is a parameter; \<^verbatim>\<open>readFd\<close> and \<^verbatim>\<open>internalCapacity\<close> are left out.
\<close>

record Buffer =
  buffer :: bytes
  readerIndex :: nat
  writerIndex :: nat

definition kCheapPrepend :: nat where
  [const_simps]: "kCheapPrepend = 8"

definition kInitialSize :: nat where
  [const_simps]: "kInitialSize = 1024"

definition readableBytes :: "Buffer \<Rightarrow> nat" where
  "readableBytes b = writerIndex b - readerIndex b"

definition writableBytes :: "Buffer \<Rightarrow> nat" where
  "writableBytes b = length (buffer b) - writerIndex b"

definition prependableBytes :: "Buffer \<Rightarrow> nat" where
  "prependableBytes b = readerIndex b"

definition Buffer_new :: "nat \<Rightarrow> Buffer option" where
  "Buffer_new initialSize = do {
     let b = \<lparr>buffer = replicate (kCheapPrepend + initialSize) 0,
              readerIndex = kCheapPrepend, writerIndex = kCheapPrepend\<rparr>;
     assert_that (readableBytes b = 0);
     assert_that (writableBytes b = initialSize);
     assert_that (prependableBytes b = kCheapPrepend);
     Some b }"

definition Buffer_swap :: "Buffer \<Rightarrow> Buffer \<Rightarrow> Buffer \<times> Buffer" where
  "Buffer_swap lhs rhs =
     (lhs\<lparr>buffer := buffer rhs, readerIndex := readerIndex rhs, writerIndex := writerIndex rhs\<rparr>,
      rhs\<lparr>buffer := buffer lhs, readerIndex := readerIndex lhs, writerIndex := writerIndex lhs\<rparr>)"

definition peek :: "Buffer \<Rightarrow> nat" where
  "peek b = readerIndex b"

definition beginWrite :: "Buffer \<Rightarrow> nat" where
  "beginWrite b = writerIndex b"

text \<open>\<^verbatim>\<open>std::search\<close> on the range from \<open>first\<close> up to \<open>lst\<close>: the first match of \<open>pat\<close>, or \<open>lst\<close>.\<close>

definition std_search :: "bytes \<Rightarrow> nat \<Rightarrow> nat \<Rightarrow> bytes \<Rightarrow> nat" where
  "std_search mem first lst pat =
     (case find (\<lambda>i. i + length pat \<le> lst \<and> take (length pat) (drop i mem) = pat) [first..<lst] of
        None \<Rightarrow> lst | Some i \<Rightarrow> i)"

definition memchr :: "bytes \<Rightarrow> nat \<Rightarrow> byte \<Rightarrow> nat \<Rightarrow> nat option" where
  "memchr mem first c n = find (\<lambda>i. mem ! i = c) [first..<first + n]"

definition findCRLF :: "bytes \<Rightarrow> Buffer \<Rightarrow> nat option" where
  "findCRLF kCRLF b =
     (let crlf = std_search (buffer b) (peek b) (beginWrite b) kCRLF
      in if crlf = beginWrite b then None else Some crlf)"

definition findCRLF_from :: "bytes \<Rightarrow> nat \<Rightarrow> Buffer \<Rightarrow> nat option option" where
  "findCRLF_from kCRLF start b = do {
     assert_that (peek b \<le> start);
     assert_that (start \<le> beginWrite b);
     let crlf = std_search (buffer b) start (beginWrite b) kCRLF;
     Some (if crlf = beginWrite b then None else Some crlf) }"

definition findEOL :: "Buffer \<Rightarrow> nat option" where
  "findEOL b = memchr (buffer b) (peek b) 10 (readableBytes b)"

definition findEOL_from :: "nat \<Rightarrow> Buffer \<Rightarrow> nat option option" where
  "findEOL_from start b = do {
     assert_that (peek b \<le> start);
     assert_that (start \<le> beginWrite b);
     Some (memchr (buffer b) start 10 (beginWrite b - start)) }"

definition retrieveAll :: "Buffer \<Rightarrow> Buffer" where
  "retrieveAll b = b\<lparr>readerIndex := kCheapPrepend, writerIndex := kCheapPrepend\<rparr>"

definition retrieve :: "nat \<Rightarrow> Buffer \<Rightarrow> Buffer option" where
  "retrieve len b = do {
     assert_that (len \<le> readableBytes b);
     Some (if len < readableBytes b then b\<lparr>readerIndex := readerIndex b + len\<rparr> else retrieveAll b) }"

definition retrieveUntil :: "nat \<Rightarrow> Buffer \<Rightarrow> Buffer option" where
  "retrieveUntil end_ptr b = do {
     assert_that (peek b \<le> end_ptr);
     assert_that (end_ptr \<le> beginWrite b);
     retrieve (end_ptr - peek b) b }"

definition retrieveInt64 :: "Buffer \<Rightarrow> Buffer option" where
  "retrieveInt64 = retrieve 8"

definition retrieveInt32 :: "Buffer \<Rightarrow> Buffer option" where
  "retrieveInt32 = retrieve 4"

definition retrieveInt16 :: "Buffer \<Rightarrow> Buffer option" where
  "retrieveInt16 = retrieve 2"

definition retrieveInt8 :: "Buffer \<Rightarrow> Buffer option" where
  "retrieveInt8 = retrieve 1"

definition retrieveAsString :: "nat \<Rightarrow> Buffer \<Rightarrow> (bytes \<times> Buffer) option" where
  "retrieveAsString len b = do {
     assert_that (len \<le> readableBytes b);
     let result = take len (drop (peek b) (buffer b));
     b' \<leftarrow> retrieve len b;
     Some (result, b') }"

definition retrieveAllAsString :: "Buffer \<Rightarrow> (bytes \<times> Buffer) option" where
  "retrieveAllAsString b = retrieveAsString (readableBytes b) b"

definition toStringPiece :: "Buffer \<Rightarrow> StringPiece" where
  "toStringPiece b = StringPiece_new (drop (peek b) (buffer b)) (int_of_size (readableBytes b))"

text \<open>\<^verbatim>\<open>std::vector::resize\<close>.\<close>

definition vector_resize :: "nat \<Rightarrow> bytes \<Rightarrow> bytes" where
  "vector_resize n v = take n v @ replicate (n - length v) 0"

definition makeSpace :: "nat \<Rightarrow> Buffer \<Rightarrow> Buffer option" where
  "makeSpace len b =
     (if writableBytes b + prependableBytes b < len + kCheapPrepend
      then Some (b\<lparr>buffer := vector_resize (writerIndex b + len) (buffer b)\<rparr>)
      else do {
        assert_that (kCheapPrepend < readerIndex b);
        let readable = readableBytes b;
        let b' = b\<lparr>buffer := blit (buffer b) kCheapPrepend
                               (take (writerIndex b - readerIndex b) (drop (readerIndex b) (buffer b))),
                   readerIndex := kCheapPrepend,
                   writerIndex := kCheapPrepend + readable\<rparr>;
        assert_that (readable = readableBytes b');
        Some b' })"

definition ensureWritableBytes :: "nat \<Rightarrow> Buffer \<Rightarrow> Buffer option" where
  "ensureWritableBytes len b = do {
     b' \<leftarrow> (if writableBytes b < len then makeSpace len b else Some b);
     assert_that (writableBytes b' \<ge> len);
     Some b' }"

definition hasWritten :: "nat \<Rightarrow> Buffer \<Rightarrow> Buffer option" where
  "hasWritten len b = do {
     assert_that (len \<le> writableBytes b);
     Some (b\<lparr>writerIndex := writerIndex b + len\<rparr>) }"

definition unwrite :: "nat \<Rightarrow> Buffer \<Rightarrow> Buffer option" where
  "unwrite len b = do {
     assert_that (len \<le> readableBytes b);
     Some (b\<lparr>writerIndex := writerIndex b - len\<rparr>) }"

text \<open>\<^verbatim>\<open>append(const char* data, size_t len)\<close>; reading past \<open>data\<close> is a fault.\<close>

definition Buffer_append :: "bytes \<Rightarrow> nat \<Rightarrow> Buffer \<Rightarrow> Buffer option" where
  "Buffer_append data len b = do {
     b' \<leftarrow> ensureWritableBytes len b;
     assert_that (len \<le> length data);
     hasWritten len (b'\<lparr>buffer := blit (buffer b') (beginWrite b') (take len data)\<rparr>) }"

definition Buffer_append_piece :: "StringPiece \<Rightarrow> Buffer \<Rightarrow> Buffer option" where
  "Buffer_append_piece str b = do {
     assert_that (0 \<le> sp_size str);
     Buffer_append (sp_data str) (nat (sp_size str)) b }"

definition appendInt64 :: "64 word \<Rightarrow> Buffer \<Rightarrow> Buffer option" where
  "appendInt64 x = (let be64 = hostToNetwork64 x in Buffer_append (le_bytes 8 be64) 8)"

definition appendInt32 :: "32 word \<Rightarrow> Buffer \<Rightarrow> Buffer option" where
  "appendInt32 x = (let be32 = hostToNetwork32 x in Buffer_append (le_bytes 4 be32) 4)"

definition appendInt16 :: "16 word \<Rightarrow> Buffer \<Rightarrow> Buffer option" where
  "appendInt16 x = (let be16 = hostToNetwork16 x in Buffer_append (le_bytes 2 be16) 2)"

definition appendInt8 :: "8 word \<Rightarrow> Buffer \<Rightarrow> Buffer option" where
  "appendInt8 x = Buffer_append (le_bytes 1 x) 1"

definition peekInt64 :: "Buffer \<Rightarrow> 64 word option" where
  "peekInt64 b = do {
     assert_that (readableBytes b \<ge> 8);
     let be64 = le_word (take 8 (drop (peek b) (buffer b)));
     Some (networkToHost64 be64) }"

definition peekInt32 :: "Buffer \<Rightarrow> 32 word option" where
  "peekInt32 b = do {
     assert_that (readableBytes b \<ge> 4);
     let be32 = le_word (take 4 (drop (peek b) (buffer b)));
     Some (networkToHost32 be32) }"

definition peekInt16 :: "Buffer \<Rightarrow> 16 word option" where
  "peekInt16 b = do {
     assert_that (readableBytes b \<ge> 2);
     let be16 = le_word (take 2 (drop (peek b) (buffer b)));
     Some (networkToHost16 be16) }"

definition peekInt8 :: "Buffer \<Rightarrow> 8 word option" where
  "peekInt8 b = do {
     assert_that (readableBytes b \<ge> 1);
     Some (buffer b ! peek b) }"

definition readInt64 :: "Buffer \<Rightarrow> (64 word \<times> Buffer) option" where
  "readInt64 b = do { result \<leftarrow> peekInt64 b; b' \<leftarrow> retrieveInt64 b; Some (result, b') }"

definition readInt32 :: "Buffer \<Rightarrow> (32 word \<times> Buffer) option" where
  "readInt32 b = do { result \<leftarrow> peekInt32 b; b' \<leftarrow> retrieveInt32 b; Some (result, b') }"

definition readInt16 :: "Buffer \<Rightarrow> (16 word \<times> Buffer) option" where
  "readInt16 b = do { result \<leftarrow> peekInt16 b; b' \<leftarrow> retrieveInt16 b; Some (result, b') }"

definition readInt8 :: "Buffer \<Rightarrow> (8 word \<times> Buffer) option" where
  "readInt8 b = do { result \<leftarrow> peekInt8 b; b' \<leftarrow> retrieveInt8 b; Some (result, b') }"

definition prepend :: "bytes \<Rightarrow> nat \<Rightarrow> Buffer \<Rightarrow> Buffer option" where
  "prepend data len b = do {
     assert_that (len \<le> prependableBytes b);
     assert_that (len \<le> length data);
     Some (b\<lparr>readerIndex := readerIndex b - len,
             buffer := blit (buffer b) (readerIndex b - len) (take len data)\<rparr>) }"

definition prependInt64 :: "64 word \<Rightarrow> Buffer \<Rightarrow> Buffer option" where
  "prependInt64 x = (let be64 = hostToNetwork64 x in prepend (le_bytes 8 be64) 8)"

definition prependInt32 :: "32 word \<Rightarrow> Buffer \<Rightarrow> Buffer option" where
  "prependInt32 x = (let be32 = hostToNetwork32 x in prepend (le_bytes 4 be32) 4)"

definition prependInt16 :: "16 word \<Rightarrow> Buffer \<Rightarrow> Buffer option" where
  "prependInt16 x = (let be16 = hostToNetwork16 x in prepend (le_bytes 2 be16) 2)"

definition prependInt8 :: "8 word \<Rightarrow> Buffer \<Rightarrow> Buffer option" where
  "prependInt8 x = prepend (le_bytes 1 x) 1"

definition shrink :: "nat \<Rightarrow> Buffer \<Rightarrow> Buffer option" where
  "shrink reserve b = do {
     other \<leftarrow> Buffer_new kInitialSize;
     other \<leftarrow> ensureWritableBytes (readableBytes b + reserve) other;
     other \<leftarrow> Buffer_append_piece (toStringPiece b) other;
     Some (fst (Buffer_swap b other)) }"

section \<open>Invariant and contents\<close>

definition buf_ok :: "Buffer \<Rightarrow> bool" where
  "buf_ok b \<longleftrightarrow> readerIndex b \<le> writerIndex b \<and> writerIndex b \<le> length (buffer b) \<and>
     kCheapPrepend \<le> length (buffer b)"

definition buf_contents :: "Buffer \<Rightarrow> bytes" where
  "buf_contents b = take (writerIndex b - readerIndex b) (drop (readerIndex b) (buffer b))"

lemmas buf_view = buf_ok_def buf_contents_def readableBytes_def writableBytes_def
  prependableBytes_def peek_def beginWrite_def

lemma readableBytes_contents: "buf_ok b \<Longrightarrow> readableBytes b = length (buf_contents b)"
  by (auto simp: buf_view min_def)

lemma take_buffer_contents:
  "buf_ok b \<Longrightarrow> n \<le> length (buf_contents b) \<Longrightarrow>
     take n (drop (readerIndex b) (buffer b)) = take n (buf_contents b)"
  by (simp add: buf_view)

lemma Buffer_new_ok:
  "\<exists>b. Buffer_new n = Some b \<and> buf_ok b \<and> buf_contents b = [] \<and> readerIndex b = kCheapPrepend"
  by (simp add: Buffer_new_def buf_view const_simps)

lemma retrieve_readable: "retrieve n b = Some b' \<Longrightarrow> readableBytes b' = readableBytes b - n"
  by (auto simp: retrieve_def retrieveAll_def readableBytes_def bind_eq_Some_conv)

lemma retrieve_ok:
  assumes "buf_ok b" "n \<le> length (buf_contents b)"
  shows "\<exists>b'. retrieve n b = Some b' \<and> buf_ok b' \<and> buf_contents b' = drop n (buf_contents b)"
proof (cases "n < readableBytes b")
  case True
  have "take (writerIndex b - (readerIndex b + n)) (drop (readerIndex b + n) (buffer b))
      = drop n (take (writerIndex b - readerIndex b) (drop (readerIndex b) (buffer b)))"
    by (simp add: drop_take add.commute)
  then show ?thesis using True assms by (auto simp: retrieve_def buf_view)
next
  case False
  then show ?thesis using assms by (auto simp: retrieve_def retrieveAll_def buf_view)
qed

lemma makeSpace_ok:
  assumes "buf_ok b" "writableBytes b < len"
  obtains b' where "makeSpace len b = Some b'" "buf_ok b'" "buf_contents b' = buf_contents b"
    "len \<le> writableBytes b'" "readerIndex b' = readerIndex b \<or> readerIndex b' = kCheapPrepend"
proof (cases "writableBytes b + prependableBytes b < len + kCheapPrepend")
  case True
  let ?b = "b\<lparr>buffer := vector_resize (writerIndex b + len) (buffer b)\<rparr>"
  have "length (buffer b) < writerIndex b + len" using assms by (auto simp: buf_view)
  then have "buf_ok ?b" "buf_contents ?b = buf_contents b" "len \<le> writableBytes ?b"
    using assms(1) by (auto simp: buf_view vector_resize_def)
  then show thesis using that [of ?b] True by (simp add: makeSpace_def)
next
  case False
  let ?r = "take (writerIndex b - readerIndex b) (drop (readerIndex b) (buffer b))"
  let ?b = "b\<lparr>buffer := blit (buffer b) kCheapPrepend ?r, readerIndex := kCheapPrepend,
              writerIndex := kCheapPrepend + readableBytes b\<rparr>"
  have r: "kCheapPrepend < readerIndex b" using False assms by (auto simp: buf_view)
  have fit: "kCheapPrepend + length ?r + len \<le> length (buffer b)"
    using False assms by (auto simp: buf_view)
  have "buf_ok ?b" "len \<le> writableBytes ?b" using fit assms(1) by (auto simp: buf_view)
  moreover have "readableBytes b = length ?r" using assms(1) by (auto simp: buf_view)
  then have "take (readableBytes b) (drop kCheapPrepend (blit (buffer b) kCheapPrepend ?r)) = ?r"
    using fit by (intro blit_segment) auto
  then have "buf_contents ?b = buf_contents b" by (simp add: buf_contents_def)
  moreover have "makeSpace len b = Some ?b"
    using False r by (simp add: makeSpace_def readableBytes_def)
  ultimately show thesis using that by simp
qed

lemma ensureWritableBytes_ok:
  assumes "buf_ok b"
  obtains b' where "ensureWritableBytes len b = Some b'" "buf_ok b'"
    "buf_contents b' = buf_contents b" "len \<le> writableBytes b'"
    "readerIndex b' = readerIndex b \<or> readerIndex b' = kCheapPrepend"
proof (cases "writableBytes b < len")
  case True
  obtain b' where b': "makeSpace len b = Some b'" "buf_ok b'" "buf_contents b' = buf_contents b"
      "len \<le> writableBytes b'" "readerIndex b' = readerIndex b \<or> readerIndex b' = kCheapPrepend"
    by (rule makeSpace_ok [OF assms True])
  have "ensureWritableBytes len b = Some b'" using True b'(1,4) by (simp add: ensureWritableBytes_def)
  then show thesis using b'(2-5) by (rule that)
next
  case False
  then show thesis using that [of b] assms by (simp add: ensureWritableBytes_def)
qed

lemma write_ok:
  assumes "buf_ok b" "length d \<le> writableBytes b"
  shows "buf_ok (b\<lparr>buffer := blit (buffer b) (writerIndex b) d, writerIndex := writerIndex b + length d\<rparr>)"
    and "buf_contents (b\<lparr>buffer := blit (buffer b) (writerIndex b) d, writerIndex := writerIndex b + length d\<rparr>)
           = buf_contents b @ d"
proof -
  let ?r = "readerIndex b" and ?w = "writerIndex b" and ?m = "buffer b"
  have w: "?r \<le> ?w" "?w + length d \<le> length ?m" using assms by (auto simp: buf_view)
  have m: "?w - ?r + length d = ?w + length d - ?r" using w by simp
  have "drop ?r (blit ?m ?w d) = drop ?r (take ?w ?m) @ d @ drop (?w + length d) ?m"
    using w by (simp add: blit_def)
  then have "take (?w + length d - ?r) (drop ?r (blit ?m ?w d)) = drop ?r (take ?w ?m) @ d"
    unfolding m [symmetric] using w by simp
  also have "drop ?r (take ?w ?m) = take (?w - ?r) (drop ?r ?m)" by (simp add: drop_take)
  finally show "buf_contents (b\<lparr>buffer := blit ?m ?w d, writerIndex := ?w + length d\<rparr>) = buf_contents b @ d"
    by (simp add: buf_contents_def)
  show "buf_ok (b\<lparr>buffer := blit ?m ?w d, writerIndex := ?w + length d\<rparr>)"
    using w assms(1) by (simp add: buf_ok_def)
qed

lemma Buffer_append_ok:
  assumes "buf_ok b" "len \<le> length data"
  obtains b' where "Buffer_append data len b = Some b'" "buf_ok b'"
    "buf_contents b' = buf_contents b @ take len data"
    "readerIndex b' = readerIndex b \<or> readerIndex b' = kCheapPrepend"
proof -
  obtain b1 where b1: "ensureWritableBytes len b = Some b1" "buf_ok b1"
      "buf_contents b1 = buf_contents b" "len \<le> writableBytes b1"
      "readerIndex b1 = readerIndex b \<or> readerIndex b1 = kCheapPrepend"
    by (rule ensureWritableBytes_ok [OF assms(1)])
  let ?b = "b1\<lparr>buffer := blit (buffer b1) (writerIndex b1) (take len data), writerIndex := writerIndex b1 + len\<rparr>"
  have len: "length (take len data) = len" using assms(2) by simp
  have "writerIndex b1 + len \<le> length (buffer b1)" using b1(2,4) by (auto simp: buf_view)
  then have "Buffer_append data len b = Some ?b"
    using b1(1,4) assms(2) by (simp add: Buffer_append_def hasWritten_def buf_view)
  moreover have "buf_ok ?b" "buf_contents ?b = buf_contents b @ take len data"
    using write_ok [OF b1(2), of "take len data", unfolded len, OF b1(4)] b1(3) by auto
  moreover have "readerIndex ?b = readerIndex b \<or> readerIndex ?b = kCheapPrepend"
    using b1(5) by simp
  ultimately show thesis by (rule that)
qed

lemma prepend_ok:
  assumes "buf_ok b" "len \<le> length data" "len \<le> readerIndex b"
  obtains b' where "prepend data len b = Some b'" "buf_ok b'"
    "buf_contents b' = take len data @ buf_contents b"
proof -
  let ?r = "readerIndex b" and ?w = "writerIndex b" and ?m = "buffer b" and ?d = "take len data"
  let ?b = "b\<lparr>readerIndex := ?r - len, buffer := blit ?m (?r - len) ?d\<rparr>"
  have w: "?r \<le> ?w" "?w \<le> length ?m" "length ?d = len" using assms by (auto simp: buf_view)
  have "drop (?r - len) (blit ?m (?r - len) ?d) = ?d @ drop ?r ?m"
    using w assms(3) by (simp add: blit_def)
  moreover have "?w - (?r - len) = len + (?w - ?r)" using w(1) assms(3) by simp
  ultimately have "take (?w - (?r - len)) (drop (?r - len) (blit ?m (?r - len) ?d)) = ?d @ take (?w - ?r) (drop ?r ?m)"
    using w(3) by simp
  then have "buf_contents ?b = ?d @ buf_contents b" by (simp add: buf_contents_def)
  moreover have "buf_ok ?b" using w assms by (simp add: buf_ok_def)
  moreover have "prepend data len b = Some ?b" using assms by (simp add: prepend_def buf_view)
  ultimately show thesis using that by blast
qed

lemma unwrite_ok:
  assumes "buf_ok b" "n \<le> length (buf_contents b)"
  shows "\<exists>b'. unwrite n b = Some b' \<and> buf_ok b' \<and>
           buf_contents b' = take (length (buf_contents b) - n) (buf_contents b)"
proof -
  have n: "n \<le> writerIndex b - readerIndex b" "readerIndex b \<le> writerIndex b"
      "length (buf_contents b) = writerIndex b - readerIndex b"
    using assms by (auto simp: buf_view)
  have "unwrite n b = Some (b\<lparr>writerIndex := writerIndex b - n\<rparr>)"
    using n by (simp add: unwrite_def readableBytes_def)
  moreover have "buf_ok (b\<lparr>writerIndex := writerIndex b - n\<rparr>)"
    using n assms(1) by (auto simp: buf_ok_def)
  moreover have "buf_contents (b\<lparr>writerIndex := writerIndex b - n\<rparr>) =
      take (length (buf_contents b) - n) (buf_contents b)"
    unfolding n(3) by (simp add: buf_contents_def min_def diff_right_commute add.commute)
  ultimately show ?thesis by blast
qed

lemma retrieveAsString_ok:
  assumes "buf_ok b" "n \<le> length (buf_contents b)"
  shows "\<exists>b'. retrieveAsString n b = Some (take n (buf_contents b), b') \<and> buf_ok b' \<and>
           buf_contents b' = drop n (buf_contents b)"
  using retrieve_ok [OF assms] readableBytes_contents [OF assms(1)] take_buffer_contents [OF assms]
    assms(2) by (auto simp: retrieveAsString_def peek_def)

lemma shrink_ok:
  assumes "buf_ok b" "length (buf_contents b) < 2 ^ 31"
  obtains b' where "shrink reserve b = Some b'" "buf_ok b'" "buf_contents b' = buf_contents b"
proof -
  obtain b0 where b0: "Buffer_new kInitialSize = Some b0" "buf_ok b0" "buf_contents b0 = []"
    using Buffer_new_ok by blast
  obtain b1 where b1: "ensureWritableBytes (readableBytes b + reserve) b0 = Some b1" "buf_ok b1"
      "buf_contents b1 = buf_contents b0"
    by (rule ensureWritableBytes_ok [OF b0(2)])
  let ?d = "drop (readerIndex b) (buffer b)"
  have n: "readableBytes b \<le> length ?d" "readableBytes b < 2 ^ 31" "take (readableBytes b) ?d = buf_contents b"
    using assms by (auto simp: buf_view)
  obtain b2 where b2: "Buffer_append ?d (readableBytes b) b1 = Some b2" "buf_ok b2"
      "buf_contents b2 = buf_contents b1 @ take (readableBytes b) ?d"
    by (rule Buffer_append_ok [OF b1(2) n(1)])
  have "shrink reserve b = Some (fst (Buffer_swap b b2))"
    using b0(1) b1(1) b2(1) n(2)
    by (simp add: shrink_def Buffer_append_piece_def toStringPiece_def StringPiece_new_def
        sp_size_def sp_data_def peek_def)
  moreover have "buf_ok (fst (Buffer_swap b b2))" "buf_contents (fst (Buffer_swap b b2)) = buf_contents b"
    using b0(3) b1(3) b2(2,3) n(3) by (simp_all add: Buffer_swap_def buf_ok_def buf_contents_def)
  ultimately show thesis by (rule that)
qed

lemma findEOL_spec:
  assumes "buf_ok b"
  shows "findEOL b = Some i \<longleftrightarrow> readerIndex b \<le> i \<and> i < writerIndex b \<and> buffer b ! i = 10 \<and>
           (\<forall>j. readerIndex b \<le> j \<and> j < i \<longrightarrow> buffer b ! j \<noteq> 10)"
proof -
  let ?l = "[readerIndex b..<writerIndex b]"
  have "findEOL b = find (\<lambda>i. buffer b ! i = 10) ?l"
    using assms by (simp add: findEOL_def memchr_def buf_view)
  also have "\<dots> = Some i \<longleftrightarrow> (\<exists>k<length ?l. buffer b ! (?l ! k) = 10 \<and> i = ?l ! k \<and> (\<forall>j<k. buffer b ! (?l ! j) \<noteq> 10))"
    by (auto simp: find_Some_iff)
  also have "\<dots> \<longleftrightarrow> readerIndex b \<le> i \<and> i < writerIndex b \<and> buffer b ! i = 10 \<and>
           (\<forall>j. readerIndex b \<le> j \<and> j < i \<longrightarrow> buffer b ! j \<noteq> 10)" (is "?L \<longleftrightarrow> ?R")
  proof
    assume ?L
    then obtain k where k: "k < writerIndex b - readerIndex b" "i = readerIndex b + k"
        "buffer b ! i = 10" and before: "\<forall>j<k. buffer b ! (readerIndex b + j) \<noteq> 10" by auto
    have "buffer b ! j \<noteq> 10" if "readerIndex b \<le> j" "j < i" for j
      using before [rule_format, of "j - readerIndex b"] that k(2) by simp
    with k show ?R by auto
  next
    assume R: ?R
    then show ?L by (intro exI [of _ "i - readerIndex b"]) auto
  qed
  finally show ?thesis .
qed

section \<open>Integers in network order\<close>

lemma peekInt_contents:
  assumes "buf_ok b"
  shows "8 \<le> length (buf_contents b) \<Longrightarrow> peekInt64 b = Some (be_word (take 8 (buf_contents b)))"
    and "4 \<le> length (buf_contents b) \<Longrightarrow> peekInt32 b = Some (be_word (take 4 (buf_contents b)))"
    and "2 \<le> length (buf_contents b) \<Longrightarrow> peekInt16 b = Some (be_word (take 2 (buf_contents b)))"
    and "1 \<le> length (buf_contents b) \<Longrightarrow> peekInt8 b = Some (hd (buf_contents b))"
proof -
  have t: "take n (drop (peek b) (buffer b)) = take n (buf_contents b)" if "n \<le> length (buf_contents b)" for n
    using take_buffer_contents [OF assms that] by (simp add: peek_def)
  note r = readableBytes_contents [OF assms]
  show "8 \<le> length (buf_contents b) \<Longrightarrow> peekInt64 b = Some (be_word (take 8 (buf_contents b)))"
    by (simp add: peekInt64_def r t buf_simps)
  show "4 \<le> length (buf_contents b) \<Longrightarrow> peekInt32 b = Some (be_word (take 4 (buf_contents b)))"
    by (simp add: peekInt32_def r t buf_simps)
  show "2 \<le> length (buf_contents b) \<Longrightarrow> peekInt16 b = Some (be_word (take 2 (buf_contents b)))"
    by (simp add: peekInt16_def r t buf_simps)
  assume "1 \<le> length (buf_contents b)"
  then show "peekInt8 b = Some (hd (buf_contents b))"
    using assms take_buffer_contents [OF assms, of 1]
    by (simp add: peekInt8_def r peek_def) (metis hd_drop_conv_nth hd_take less_numeral_extra(1)
        drop_eq_Nil length_0_conv not_less take_eq_Nil zero_neq_one le_zero_eq Suc_le_eq take_all_iff linorder_not_less One_nat_def)
qed

lemma le_bytes_1: "le_bytes 1 (x :: 8 word) = [x]"
  by (simp add: le_bytes_def)

lemma appendInt_contents:
  assumes "buf_ok b"
  shows "\<exists>b'. appendInt64 x b = Some b' \<and> buf_ok b' \<and> buf_contents b' = buf_contents b @ be_bytes 8 x"
    and "\<exists>b'. appendInt32 y b = Some b' \<and> buf_ok b' \<and> buf_contents b' = buf_contents b @ be_bytes 4 y"
    and "\<exists>b'. appendInt16 z b = Some b' \<and> buf_ok b' \<and> buf_contents b' = buf_contents b @ be_bytes 2 z"
    and "\<exists>b'. appendInt8 w b = Some b' \<and> buf_ok b' \<and> buf_contents b' = buf_contents b @ [w]"
proof -
  have a: "\<exists>b'. Buffer_append d n b = Some b' \<and> buf_ok b' \<and> buf_contents b' = buf_contents b @ d"
    if "length d = n" for d n
    using Buffer_append_ok [OF assms, of n d] that by (metis order_refl take_all_iff)
  show "\<exists>b'. appendInt64 x b = Some b' \<and> buf_ok b' \<and> buf_contents b' = buf_contents b @ be_bytes 8 x"
    using a [of "be_bytes 8 x" 8] by (simp add: appendInt64_def buf_simps)
  show "\<exists>b'. appendInt32 y b = Some b' \<and> buf_ok b' \<and> buf_contents b' = buf_contents b @ be_bytes 4 y"
    using a [of "be_bytes 4 y" 4] by (simp add: appendInt32_def buf_simps)
  show "\<exists>b'. appendInt16 z b = Some b' \<and> buf_ok b' \<and> buf_contents b' = buf_contents b @ be_bytes 2 z"
    using a [of "be_bytes 2 z" 2] by (simp add: appendInt16_def buf_simps)
  show "\<exists>b'. appendInt8 w b = Some b' \<and> buf_ok b' \<and> buf_contents b' = buf_contents b @ [w]"
    using a [of "[w]" 1] by (simp add: appendInt8_def le_bytes_1 [simplified])
qed

lemma prependInt_contents:
  assumes "buf_ok b"
  shows "8 \<le> readerIndex b \<Longrightarrow>
      \<exists>b'. prependInt64 x b = Some b' \<and> buf_ok b' \<and> buf_contents b' = be_bytes 8 x @ buf_contents b"
    and "4 \<le> readerIndex b \<Longrightarrow>
      \<exists>b'. prependInt32 y b = Some b' \<and> buf_ok b' \<and> buf_contents b' = be_bytes 4 y @ buf_contents b"
    and "2 \<le> readerIndex b \<Longrightarrow>
      \<exists>b'. prependInt16 z b = Some b' \<and> buf_ok b' \<and> buf_contents b' = be_bytes 2 z @ buf_contents b"
    and "1 \<le> readerIndex b \<Longrightarrow>
      \<exists>b'. prependInt8 w b = Some b' \<and> buf_ok b' \<and> buf_contents b' = w # buf_contents b"
proof -
  have a: "\<exists>b'. prepend d n b = Some b' \<and> buf_ok b' \<and> buf_contents b' = d @ buf_contents b"
    if "n \<le> readerIndex b" "length d = n" for d n
    using prepend_ok [OF assms, of n d] that by (metis order_refl take_all_iff)
  show "8 \<le> readerIndex b \<Longrightarrow>
      \<exists>b'. prependInt64 x b = Some b' \<and> buf_ok b' \<and> buf_contents b' = be_bytes 8 x @ buf_contents b"
    using a [of 8 "be_bytes 8 x"] by (simp add: prependInt64_def buf_simps)
  show "4 \<le> readerIndex b \<Longrightarrow>
      \<exists>b'. prependInt32 y b = Some b' \<and> buf_ok b' \<and> buf_contents b' = be_bytes 4 y @ buf_contents b"
    using a [of 4 "be_bytes 4 y"] by (simp add: prependInt32_def buf_simps)
  show "2 \<le> readerIndex b \<Longrightarrow>
      \<exists>b'. prependInt16 z b = Some b' \<and> buf_ok b' \<and> buf_contents b' = be_bytes 2 z @ buf_contents b"
    using a [of 2 "be_bytes 2 z"] by (simp add: prependInt16_def buf_simps)
  show "1 \<le> readerIndex b \<Longrightarrow>
      \<exists>b'. prependInt8 w b = Some b' \<and> buf_ok b' \<and> buf_contents b' = w # buf_contents b"
    using a [of 1 "[w]"] by (simp add: prependInt8_def le_bytes_1 [simplified])
qed

section \<open>The buffer as a byte stream\<close>

interpretation muduo_buf: byte_stream buf_ok buf_contents readableBytes "\<lambda>_ _. True"
  "\<lambda>bs. Buffer_append bs (length bs)" retrieve
  "\<lambda>b. networkToHost32 (le_word (take 4 (drop (peek b) (buffer b))))"
proof unfold_locales
  fix b bs assume "buf_ok b" and "True"
  then show "\<exists>b'. Buffer_append bs (length bs) b = Some b' \<and> buf_ok b' \<and>
      buf_contents b' = buf_contents b @ bs"
    using Buffer_append_ok [of b "length bs" bs] by (metis order_refl take_all_iff)
next
  fix b assume "buf_ok b" "4 \<le> length (buf_contents b)"
  then show "networkToHost32 (le_word (take 4 (drop (peek b) (buffer b)))) = be_word (take 4 (buf_contents b))"
    using take_buffer_contents by (simp add: peek_def buf_simps)
qed (simp_all add: readableBytes_contents retrieve_ok)

end
