(* ===== verification/Muduo_Timestamp.thy ===== *)
theory Muduo_Timestamp
  imports Complex_Main "HOL-Library.Signed_Division" P2P_Prelude
begin

text \<open>
  \<^verbatim>\<open>p2pServer/muduo/include/muduo/base/Timestamp.h\<close>: microseconds since the epoch. The
  \<^verbatim>\<open>int64_t\<close> is an unbounded integer (a difference of two times stays far below its range) and
  \<^verbatim>\<open>double\<close> seconds are exact rationals: below \<open>2^53\<close> microseconds the conversion to
  \<^verbatim>\<open>double\<close> is exact, and the rounding of the quotient does not cross an integral number of
  seconds, which is all the server compares against. \<^verbatim>\<open>now\<close>, \<^verbatim>\<open>toString\<close> and
  \<^verbatim>\<open>toFormattedString\<close> are defined outside the repository.
\<close>

datatype Timestamp = Timestamp (microSecondsSinceEpoch: int)

definition kMicroSecondsPerSecond :: int where
  [const_simps]: "kMicroSecondsPerSecond = 1000 * 1000"

definition Timestamp_default :: Timestamp where
  "Timestamp_default = Timestamp 0"

definition Timestamp_swap :: "Timestamp \<Rightarrow> Timestamp \<Rightarrow> Timestamp \<times> Timestamp" where
  "Timestamp_swap this that = (that, this)"

definition Timestamp_valid :: "Timestamp \<Rightarrow> bool" where
  "Timestamp_valid t \<longleftrightarrow> microSecondsSinceEpoch t > 0"

definition secondsSinceEpoch :: "Timestamp \<Rightarrow> int" where
  "secondsSinceEpoch t = microSecondsSinceEpoch t sdiv kMicroSecondsPerSecond"

definition Timestamp_invalid :: Timestamp where
  "Timestamp_invalid = Timestamp_default"

definition fromUnixTime :: "int \<Rightarrow> int \<Rightarrow> Timestamp" where
  "fromUnixTime t microseconds = Timestamp (t * kMicroSecondsPerSecond + microseconds)"

definition fromUnixTime0 :: "int \<Rightarrow> Timestamp" where
  "fromUnixTime0 t = fromUnixTime t 0"

text \<open>\<^verbatim>\<open>operator<\<close> and \<^verbatim>\<open>operator==\<close>; the order of the type is that of these two.\<close>

definition Timestamp_less :: "Timestamp \<Rightarrow> Timestamp \<Rightarrow> bool" where
  "Timestamp_less lhs rhs \<longleftrightarrow> microSecondsSinceEpoch lhs < microSecondsSinceEpoch rhs"

definition Timestamp_eq :: "Timestamp \<Rightarrow> Timestamp \<Rightarrow> bool" where
  "Timestamp_eq lhs rhs \<longleftrightarrow> microSecondsSinceEpoch lhs = microSecondsSinceEpoch rhs"

lemma Timestamp_eq_iff: "Timestamp_eq lhs rhs \<longleftrightarrow> lhs = rhs"
  by (auto simp: Timestamp_eq_def intro: Timestamp.expand)

instantiation Timestamp :: linorder
begin

definition less_Timestamp :: "Timestamp \<Rightarrow> Timestamp \<Rightarrow> bool" where
  "less_Timestamp = Timestamp_less"

definition less_eq_Timestamp :: "Timestamp \<Rightarrow> Timestamp \<Rightarrow> bool" where
  "less_eq_Timestamp lhs rhs \<longleftrightarrow> Timestamp_less lhs rhs \<or> Timestamp_eq lhs rhs"

instance
proof
  fix x y z :: Timestamp
  show "x < y \<longleftrightarrow> x \<le> y \<and> \<not> y \<le> x" "x \<le> x" "x \<le> y \<or> y \<le> x"
    "x \<le> y \<Longrightarrow> y \<le> z \<Longrightarrow> x \<le> z" "x \<le> y \<Longrightarrow> y \<le> x \<Longrightarrow> x = y"
    by (auto simp: less_Timestamp_def less_eq_Timestamp_def Timestamp_less_def Timestamp_eq_def intro: Timestamp.expand)
qed

end

definition timeDifference :: "Timestamp \<Rightarrow> Timestamp \<Rightarrow> rat" where
  "timeDifference high low =
     (let diff = microSecondsSinceEpoch high - microSecondsSinceEpoch low
      in of_int diff / of_int kMicroSecondsPerSecond)"

text \<open>\<^verbatim>\<open>static_cast<int64_t>\<close> of a \<^verbatim>\<open>double\<close> truncates towards zero.\<close>

definition trunc_int :: "rat \<Rightarrow> int" where
  "trunc_int q = (if q < 0 then \<lceil>q\<rceil> else \<lfloor>q\<rfloor>)"

definition addTime :: "Timestamp \<Rightarrow> rat \<Rightarrow> Timestamp" where
  "addTime timestamp seconds =
     (let delta = trunc_int (seconds * of_int kMicroSecondsPerSecond)
      in Timestamp (microSecondsSinceEpoch timestamp + delta))"

lemma less_eq_Timestamp_iff:
  "s \<le> t \<longleftrightarrow> microSecondsSinceEpoch s \<le> microSecondsSinceEpoch t"
  by (cases s; cases t) (auto simp: less_eq_Timestamp_def Timestamp_less_def Timestamp_eq_def)

lemma timeDifference_gt:
  "timeDifference high low > of_int k \<longleftrightarrow>
     microSecondsSinceEpoch high - microSecondsSinceEpoch low > k * 1000000"
proof -
  have "timeDifference high low > of_int k \<longleftrightarrow>
     (of_int (microSecondsSinceEpoch high - microSecondsSinceEpoch low) :: rat) > of_int (k * 1000000)"
    by (simp add: timeDifference_def const_simps field_simps)
  then show ?thesis by (simp only: of_int_less_iff)
qed

lemma timeDifference_neg: "timeDifference high low < 0 \<longleftrightarrow> high < low"
  by (simp add: timeDifference_def const_simps less_Timestamp_def Timestamp_less_def divide_less_0_iff)

lemma timeDifference_self [simp]: "timeDifference t t = 0"
  by (simp add: timeDifference_def)

end
