(* ===== verification/Muduo_Tcp.thy ===== *)
theory Muduo_Tcp
  imports Muduo_Buffer Muduo_Timestamp
begin

text \<open>
  The part of \<^verbatim>\<open>p2pServer/muduo/include/muduo/net/TcpConnection.h\<close> the server uses. The class is
  implemented in a library whose sources are not in the repository, so everything a method
  body would do is a parameter: a record \<open>tcp_api\<close> of functions on an abstract network state
  \<open>'n\<close>. A \<^verbatim>\<open>TcpConnectionPtr\<close> is compared by identity only and is a number. What is inline in
  the header (\<^verbatim>\<open>connected\<close>, \<^verbatim>\<open>disconnected\<close>, the state enumeration) is defined.
\<close>

type_synonym conn = nat

datatype StateE = kDisconnected | kConnecting | kConnected | kDisconnecting

text \<open>
  \<open>tcp_send\<close> is \<^verbatim>\<open>send(Buffer*)\<close> on the readable bytes of the buffer, \<open>tcp_lock\<close> tells whether a
  \<^verbatim>\<open>weak_ptr\<close> to the connection still locks.
\<close>

record 'n tcp_api =
  tcp_state :: "'n \<Rightarrow> conn \<Rightarrow> StateE"
  tcp_send :: "conn \<Rightarrow> bytes \<Rightarrow> 'n \<Rightarrow> 'n"
  tcp_shutdown :: "conn \<Rightarrow> 'n \<Rightarrow> 'n"
  tcp_forceCloseWithDelay :: "conn \<Rightarrow> rat \<Rightarrow> 'n \<Rightarrow> 'n"
  tcp_lock :: "'n \<Rightarrow> conn \<Rightarrow> bool"

definition connected :: "'n tcp_api \<Rightarrow> 'n \<Rightarrow> conn \<Rightarrow> bool" where
  "connected api n c \<longleftrightarrow> tcp_state api n c = kConnected"

definition disconnected :: "'n tcp_api \<Rightarrow> 'n \<Rightarrow> conn \<Rightarrow> bool" where
  "disconnected api n c \<longleftrightarrow> tcp_state api n c = kDisconnected"

text \<open>
  What the callers rely on when they send: the bytes are appended to what was written on that
  connection and nothing else is written (\<open>wire\<close> observes the bytes handed to a connection),
  and sending does not change the state of a connection within the call.
\<close>

definition send_law :: "'n tcp_api \<Rightarrow> ('n \<Rightarrow> conn \<Rightarrow> bytes) \<Rightarrow> bool" where
  "send_law api wire \<longleftrightarrow>
     (\<forall>c bs n. wire (tcp_send api c bs n) = (wire n)(c := wire n c @ bs) \<and>
               tcp_state api (tcp_send api c bs n) = tcp_state api n)"

text \<open>\<^verbatim>\<open>shutdown\<close> and \<^verbatim>\<open>forceCloseWithDelay\<close> write nothing and leave other connections alone.\<close>

definition shutdown_law :: "'n tcp_api \<Rightarrow> ('n \<Rightarrow> conn \<Rightarrow> bytes) \<Rightarrow> bool" where
  "shutdown_law api wire \<longleftrightarrow>
     (\<forall>c d n. wire (tcp_shutdown api c n) = wire n \<and> wire (tcp_forceCloseWithDelay api c d n) = wire n \<and>
        (\<forall>c'. c' \<noteq> c \<longrightarrow> tcp_state api (tcp_shutdown api c n) c' = tcp_state api n c' \<and>
                        tcp_state api (tcp_forceCloseWithDelay api c d n) c' = tcp_state api n c'))"

text \<open>
  Closing a connection does not release the server's reference to it: the connection map of
  \<^verbatim>\<open>TcpServer\<close> holds it until its second callback.
\<close>

definition lock_law :: "'n tcp_api \<Rightarrow> bool" where
  "lock_law api \<longleftrightarrow> (\<forall>c d n. tcp_lock api (tcp_shutdown api c n) = tcp_lock api n \<and>
     tcp_lock api (tcp_forceCloseWithDelay api c d n) = tcp_lock api n)"

lemma send_law_wire:
  "send_law api wire \<Longrightarrow> wire (tcp_send api c bs n) = (wire n)(c := wire n c @ bs)"
  by (simp add: send_law_def)

lemma send_law_connected:
  "send_law api wire \<Longrightarrow> connected api (tcp_send api c bs n) = connected api n"
  by (simp add: send_law_def connected_def fun_eq_iff)

section \<open>A simulated network\<close>

text \<open>A concrete network state on which the laws hold, for the closed examples.\<close>

record sim_net =
  sim_state :: "conn \<Rightarrow> StateE"
  sim_wire :: "conn \<Rightarrow> bytes"

definition sim_api :: "sim_net tcp_api" where
  "sim_api = \<lparr>tcp_state = sim_state,
     tcp_send = (\<lambda>c bs n. n\<lparr>sim_wire := (sim_wire n)(c := sim_wire n c @ bs)\<rparr>),
     tcp_shutdown = (\<lambda>c n. n\<lparr>sim_state := (sim_state n)(c := kDisconnecting)\<rparr>),
     tcp_forceCloseWithDelay = (\<lambda>c d n. n),
     tcp_lock = (\<lambda>n c. True)\<rparr>"

lemma sim_laws: "send_law sim_api sim_wire" "shutdown_law sim_api sim_wire" "lock_law sim_api"
  by (auto simp: send_law_def shutdown_law_def lock_law_def sim_api_def)

lemma sim_connected: "connected sim_api n c \<longleftrightarrow> sim_state n c = kConnected"
  by (simp add: connected_def sim_api_def)

end
