(* ===== verification/Length_Codec.thy ===== *)
theory Length_Codec
  imports Muduo_Tcp
begin

text \<open>
  \<^verbatim>\<open>p2pServer/codec.h\<close>: the class \<^verbatim>\<open>LengthHeaderCodec\<close>. \<^verbatim>\<open>onMessage\<close> cuts the input buffer of a
  connection into messages and passes each to the callback; \<^verbatim>\<open>send\<close> prefixes a message with its
  length. The callback is a function on the state \<open>'s\<close> of its owner that may abort, and
  \<^verbatim>\<open>conn->shutdown()\<close> a function on the same state. The lemmas show that \<^verbatim>\<open>send\<close> writes exactly one
  \<open>frame\<close>, that \<^verbatim>\<open>onMessage\<close> implements \<open>split_frames\<close> and never aborts by itself, and that what
  is delivered does not depend on how TCP cuts the stream.
\<close>

definition kHeaderLen :: nat where
  [const_simps]: "kHeaderLen = 4"

definition LengthHeaderCodec_send :: "'n tcp_api \<Rightarrow> conn \<Rightarrow> StringPiece \<Rightarrow> 'n \<Rightarrow> 'n option" where
  "LengthHeaderCodec_send api conn message n = do {
     buf \<leftarrow> Buffer_new kInitialSize;
     assert_that (0 \<le> sp_size message);
     buf \<leftarrow> Buffer_append (sp_data message) (nat (sp_size message)) buf;
     let len = (word_of_int (sp_size message) :: 32 word);
     let be32 = hostToNetwork32 len;
     buf \<leftarrow> prepend (le_bytes 4 be32) 4 buf;
     Some (tcp_send api conn (buf_contents buf) n) }"

text \<open>The length field at the reading position, as the loop reads it (a 32 bit load, then swapped).\<close>

definition codec_len :: "Buffer \<Rightarrow> int" where
  "codec_len buf = sint (networkToHost32 (le_word (take 4 (drop (peek buf) (buffer buf)))))"

function LengthHeaderCodec_onMessage ::
  "('s \<Rightarrow> conn \<Rightarrow> bytes \<Rightarrow> Timestamp \<Rightarrow> 's option) \<Rightarrow> (conn \<Rightarrow> 's \<Rightarrow> 's) \<Rightarrow>
   conn \<Rightarrow> Timestamp \<Rightarrow> Buffer \<Rightarrow> 's \<Rightarrow> (Buffer \<times> 's) option" where
  "LengthHeaderCodec_onMessage messageCallback shutdown conn receiveTime buf s =
     (if readableBytes buf \<ge> kHeaderLen then
        let len = codec_len buf in
        if len > 65536 \<or> len < 0 then Some (buf, shutdown conn s)
        else if readableBytes buf \<ge> nat len + kHeaderLen then
          (case retrieve kHeaderLen buf of
             None \<Rightarrow> None
           | Some buf1 \<Rightarrow>
               let message = take (nat len) (drop (peek buf1) (buffer buf1)) in
               (case messageCallback s conn message receiveTime of
                  None \<Rightarrow> None
                | Some s' \<Rightarrow>
                    (case retrieve (nat len) buf1 of
                       None \<Rightarrow> None
                     | Some buf2 \<Rightarrow>
                         LengthHeaderCodec_onMessage messageCallback shutdown conn receiveTime buf2 s')))
        else Some (buf, s)
      else Some (buf, s))"
  by pat_completeness auto
termination
  by (relation "measure (\<lambda>(cb, sh, c, t, buf, s). readableBytes buf)")
    (auto dest!: retrieve_readable simp: const_simps)

declare LengthHeaderCodec_onMessage.simps [simp del]

section \<open>Sending\<close>

lemma LengthHeaderCodec_send_frame:
  assumes "sp_ok message"
  shows "LengthHeaderCodec_send api conn message n = Some (tcp_send api conn (frame (sp_view message)) n)"
proof -
  let ?d = "sp_ptr message" and ?n = "nat (sp_length message)"
  obtain b0 where b0: "Buffer_new kInitialSize = Some b0" "buf_ok b0" "buf_contents b0 = []"
      "readerIndex b0 = kCheapPrepend"
    using Buffer_new_ok by blast
  have "?n \<le> length ?d" using assms by (simp add: sp_ok_def)
  from Buffer_append_ok [OF b0(2) this] obtain b1 where
    b1: "Buffer_append ?d ?n b0 = Some b1" "buf_ok b1" "buf_contents b1 = buf_contents b0 @ take ?n ?d"
      "readerIndex b1 = readerIndex b0 \<or> readerIndex b1 = kCheapPrepend" by blast
  have r: "4 \<le> readerIndex b1" using b1(4) b0(4) by (auto simp: const_simps)
  let ?h = "be_bytes 4 (word_of_nat ?n :: 32 word)"
  have h: "4 \<le> length ?h" by simp
  obtain b2 where b2: "prepend ?h 4 b1 = Some b2" "buf_contents b2 = take 4 ?h @ buf_contents b1"
    by (rule prepend_ok [OF b1(2) h r])
  have "(word_of_int (sp_length message) :: 32 word) = word_of_nat ?n"
    using assms by (simp add: sp_ok_def)
  then have "LengthHeaderCodec_send api conn message n = Some (tcp_send api conn (buf_contents b2) n)"
    using b0(1) b1(1) b2(1) assms
    by (simp add: LengthHeaderCodec_send_def sp_size_def sp_data_def sp_ok_def buf_simps)
  moreover have "length (sp_view message) = ?n" using assms by (simp add: sp_ok_def sp_view_def)
  then have "buf_contents b2 = frame (sp_view message)"
    using b2(2) b1(3) b0(3) by (simp add: frame_def) (simp add: sp_view_def)
  ultimately show ?thesis by simp
qed

section \<open>Receiving\<close>

definition codec_ok :: "int \<Rightarrow> bool" where
  "codec_ok len \<longleftrightarrow> len \<le> 65536"

text \<open>Running the callback over a list of messages.\<close>

fun deliver :: "('s \<Rightarrow> conn \<Rightarrow> bytes \<Rightarrow> Timestamp \<Rightarrow> 's option) \<Rightarrow> conn \<Rightarrow> Timestamp \<Rightarrow> bytes list \<Rightarrow> 's \<Rightarrow> 's option" where
  "deliver cb conn t [] s = Some s"
| "deliver cb conn t (m # ms) s = (case cb s conn m t of None \<Rightarrow> None | Some s' \<Rightarrow> deliver cb conn t ms s')"

lemma deliver_append:
  "deliver cb conn t (ms @ ms') s = Option.bind (deliver cb conn t ms s) (deliver cb conn t ms')"
  by (induction ms arbitrary: s) (auto split: option.splits)

lemma codec_len_header:
  "buf_ok buf \<Longrightarrow> 4 \<le> length (buf_contents buf) \<Longrightarrow> codec_len buf = header (buf_contents buf)"
  using muduo_buf.peek_header [of buf] by (simp add: codec_len_def readableBytes_contents)

text \<open>
  The loop is \<open>split_frames\<close>: it passes the complete messages to the callback in order, keeps the
  incomplete rest in the buffer, and shuts the connection down at an invalid header.
\<close>

lemma onMessage_refines:
  assumes "buf_ok buf" "split_frames codec_ok (buf_contents buf) = (ms, rest, bad)"
  shows "\<exists>buf'. buf_ok buf' \<and> buf_contents buf' = rest \<and>
     LengthHeaderCodec_onMessage cb sh conn t buf s =
       map_option (\<lambda>s'. (buf', if bad then sh conn s' else s')) (deliver cb conn t ms s)"
  using assms
proof (induction cb sh conn t buf s arbitrary: ms rule: LengthHeaderCodec_onMessage.induct)
  case (1 cb sh conn t buf s)
  note ok = "1.prems"(1) and sf = "1.prems"(2)
  note unf = LengthHeaderCodec_onMessage.simps [of cb sh conn t buf s]
  let ?c = "buf_contents buf"
  have rb: "readableBytes buf = length ?c" using ok by (rule readableBytes_contents)
  have len: "codec_len buf = header ?c" if "4 \<le> length ?c" using codec_len_header ok that by blast
  consider (short) "length ?c < 4"
    | (bad) "4 \<le> length ?c" "header ?c < 0 \<or> \<not> codec_ok (header ?c)"
    | (partial) "4 \<le> length ?c" "0 \<le> header ?c" "codec_ok (header ?c)" "length ?c < 4 + nat (header ?c)"
    | (full) "4 \<le> length ?c" "0 \<le> header ?c" "codec_ok (header ?c)" "4 + nat (header ?c) \<le> length ?c"
    by linarith
  then show ?case
  proof cases
    case short
    then show ?thesis using sf ok by (simp add: unf rb split_frames_short const_simps)
  next
    case bad
    then show ?thesis
      using sf ok by (auto simp: unf rb len split_frames_bad const_simps codec_ok_def)
  next
    case partial
    then show ?thesis
      using sf ok by (simp add: unf rb len split_frames_partial const_simps codec_ok_def)
  next
    case full
    let ?n = "nat (header ?c)"
    have le: "header ?c \<le> 65536" using full(3) by (simp add: codec_ok_def)
    obtain ms' where ms: "ms = take ?n (drop 4 ?c) # ms'"
      and sf': "split_frames codec_ok (drop (4 + ?n) ?c) = (ms', rest, bad)"
      using sf full by (auto simp: split_frames_full split: prod.splits)
    obtain b1 b2 where b1: "retrieve 4 buf = Some b1" "buf_ok b1" "buf_contents b1 = drop 4 ?c"
      and b2: "retrieve ?n b1 = Some b2" "buf_ok b2" "buf_contents b2 = drop (4 + ?n) ?c"
      by (rule muduo_buf.take_frame [OF ok full(1,4)])
    have msg: "take ?n (drop (peek b1) (buffer b1)) = take ?n (drop 4 ?c)"
      using take_buffer_contents [OF b1(2), of ?n] b1(3) full(4) by (simp add: peek_def)
    have step: "LengthHeaderCodec_onMessage cb sh conn t buf s =
      (case cb s conn (take ?n (drop 4 ?c)) t of None \<Rightarrow> None
       | Some s' \<Rightarrow> LengthHeaderCodec_onMessage cb sh conn t b2 s')"
      using full b1(1) b2(1) by (simp add: unf rb len const_simps codec_ok_def msg Let_def split: option.split)
    show ?thesis
    proof (cases "cb s conn (take ?n (drop 4 ?c)) t")
      case None
      obtain pre where "buf_contents b2 = pre @ rest"
        using split_frames_left_over [OF sf'] b2(3) by auto
      then obtain b3 where "buf_ok b3" "buf_contents b3 = rest"
        using retrieve_ok [OF b2(2), of "length pre"] by auto
      then show ?thesis using None by (auto simp: step ms)
    next
      case (Some s')
      have "\<exists>buf'. buf_ok buf' \<and> buf_contents buf' = rest \<and>
         LengthHeaderCodec_onMessage cb sh conn t b2 s' =
           map_option (\<lambda>s'. (buf', if bad then sh conn s' else s')) (deliver cb conn t ms' s')"
        using full b1(1) b2 Some sf' le
        by (intro "1.IH" [OF _ refl _ _ _ refl]) (auto simp: rb len const_simps msg)
      then show ?thesis by (simp add: step Some ms)
    qed
  qed
qed

section \<open>Segments of the stream\<close>

text \<open>
  One read event: the connection appends the received segment to its input buffer and calls
  \<^verbatim>\<open>onMessage\<close>.
\<close>

definition on_segment ::
  "('s \<Rightarrow> conn \<Rightarrow> bytes \<Rightarrow> Timestamp \<Rightarrow> 's option) \<Rightarrow> (conn \<Rightarrow> 's \<Rightarrow> 's) \<Rightarrow>
   conn \<Rightarrow> Timestamp \<Rightarrow> bytes \<Rightarrow> Buffer \<times> 's \<Rightarrow> (Buffer \<times> 's) option" where
  "on_segment cb sh conn t seg = (\<lambda>(buf, s). do {
     buf' \<leftarrow> Buffer_append seg (length seg) buf;
     LengthHeaderCodec_onMessage cb sh conn t buf' s })"

fun on_segments ::
  "('s \<Rightarrow> conn \<Rightarrow> bytes \<Rightarrow> Timestamp \<Rightarrow> 's option) \<Rightarrow> (conn \<Rightarrow> 's \<Rightarrow> 's) \<Rightarrow>
   conn \<Rightarrow> Timestamp \<Rightarrow> bytes list \<Rightarrow> Buffer \<times> 's \<Rightarrow> (Buffer \<times> 's) option" where
  "on_segments cb sh conn t [] bs = Some bs"
| "on_segments cb sh conn t (seg # segs) bs =
     Option.bind (on_segment cb sh conn t seg bs) (on_segments cb sh conn t segs)"

lemma on_segment_refines:
  assumes "buf_ok buf" "split_frames codec_ok (buf_contents buf @ seg) = (ms, rest, bad)"
  obtains buf' where "buf_ok buf'" "buf_contents buf' = rest"
    "on_segment cb sh conn t seg (buf, s) =
       map_option (\<lambda>s'. (buf', if bad then sh conn s' else s')) (deliver cb conn t ms s)"
proof -
  obtain b1 where b1: "Buffer_append seg (length seg) buf = Some b1" "buf_ok b1"
      "buf_contents b1 = buf_contents buf @ seg"
    using muduo_buf.put [OF assms(1)] by blast
  have "split_frames codec_ok (buf_contents b1) = (ms, rest, bad)" using b1(3) assms(2) by simp
  from onMessage_refines [OF b1(2) this, of cb sh conn t s] obtain b2 where b2: "buf_ok b2" "buf_contents b2 = rest"
      "LengthHeaderCodec_onMessage cb sh conn t b1 s =
         map_option (\<lambda>s'. (b2, if bad then sh conn s' else s')) (deliver cb conn t ms s)" by blast
  show thesis by (rule that [OF b2(1,2)]) (simp add: on_segment_def b1(1) b2(3))
qed

lemma on_segments_refines:
  assumes "buf_ok buf" "split_frames codec_ok (buf_contents buf) = ([], buf_contents buf, False)"
    and "split_frames codec_ok (buf_contents buf @ concat segs) = (ms, rest, False)"
  shows "\<exists>buf'. buf_ok buf' \<and> buf_contents buf' = rest \<and>
     on_segments cb sh conn t segs (buf, s) = map_option (\<lambda>s'. (buf', s')) (deliver cb conn t ms s)"
  using assms
proof (induction segs arbitrary: buf ms s)
  case Nil
  then show ?case by auto
next
  case (Cons seg segs)
  obtain ms1 r1 bad1 where s1: "split_frames codec_ok (buf_contents buf @ seg) = (ms1, r1, bad1)"
    by (cases "split_frames codec_ok (buf_contents buf @ seg)")
  have all: "split_frames codec_ok ((buf_contents buf @ seg) @ concat segs) = (ms, rest, False)"
    using Cons.prems(3) by simp
  note all' = all [unfolded split_frames_append [of codec_ok "buf_contents buf @ seg" "concat segs"] s1]
  have good: "\<not> bad1" using all' by (auto split: if_splits)
  then obtain ms2 where s2: "split_frames codec_ok (r1 @ concat segs) = (ms2, rest, False)"
    and ms: "ms = ms1 @ ms2"
    using all' by (auto split: prod.splits)
  have again: "split_frames codec_ok r1 = ([], r1, False)"
    using split_frames_rest s1 good by simp
  obtain b1 where b1: "buf_ok b1" "buf_contents b1 = r1"
      "on_segment cb sh conn t seg (buf, s) = map_option (\<lambda>s'. (b1, if bad1 then sh conn s' else s')) (deliver cb conn t ms1 s)"
    by (rule on_segment_refines [OF Cons.prems(1) s1])
  have IH: "\<exists>buf'. buf_ok buf' \<and> buf_contents buf' = rest \<and>
     on_segments cb sh conn t segs (b1, s') = map_option (\<lambda>s'. (buf', s')) (deliver cb conn t ms2 s')" for s'
    using Cons.IH [OF b1(1)] b1(2) again s2 by simp
  show ?case
  proof (cases "deliver cb conn t ms1 s")
    case None
    then show ?thesis using IH [of s] b1(3) by (auto simp: ms deliver_append)
  next
    case (Some s')
    then show ?thesis using IH [of s'] b1(3) good by (simp add: ms deliver_append)
  qed
qed

end
