(* ===== verification/P2p_Server.thy ===== *)
theory P2p_Server
  imports Length_Codec
begin

text \<open>
  \<^verbatim>\<open>p2pServer/p2pServer.h\<close> and \<^verbatim>\<open>p2pServer/p2pServer.cc\<close>: the relay server. Its state is the record
  \<open>p2pServer\<close>: the list \<^verbatim>\<open>_connectionList\<close> (a list of nodes, each with the identity that an
  iterator to it holds), the registry \<^verbatim>\<open>_connections\<close>, the \<^verbatim>\<open>ConnInfo\<close> that every connection
  carries in its \<^verbatim>\<open>boost::any\<close> context, and the state of the network library. A \<^verbatim>\<open>ConnInfo*\<close> is an
  alias into \<open>connContext\<close>: it is read again after every update that may go through another
  alias. Each handler is one function; \<open>None\<close> is an abort (a failed \<^verbatim>\<open>assert\<close>) or undefined
  behaviour (an invalidated iterator used again). Handlers run one at a time: the source keeps
  all connection callbacks on one I/O thread (\<^verbatim>\<open>setThreadNum(1)\<close>).
\<close>

datatype ProtocolCode =
  REGISTER_DEVICE | SUBSCRIBE_DEVICE | SEND_DATA | UNREGISTER_DEVICE | UNSUBSCRIBE_DEVICE
| CHECK_DEVICE_ALIVE | HEART_BEAT

fun code :: "ProtocolCode \<Rightarrow> byte" where
  "code REGISTER_DEVICE = 0x01"
| "code SUBSCRIBE_DEVICE = 0x02"
| "code SEND_DATA = 0x03"
| "code UNREGISTER_DEVICE = 0x04"
| "code UNSUBSCRIBE_DEVICE = 0x05"
| "code CHECK_DEVICE_ALIVE = 0x06"
| "code HEART_BEAT = 0x07"

definition CALL_BACK_MASK :: byte where
  [const_simps]: "CALL_BACK_MASK = 0x80"

datatype CallBackStatus = EXEC_FAIL | EXEC_SUCCESS

fun status :: "CallBackStatus \<Rightarrow> byte" where
  "status EXEC_FAIL = 0x0"
| "status EXEC_SUCCESS = 0x01"

section \<open>Connection information\<close>

record ConnInfo =
  deviceId :: bytes
  lastReceiveTime :: Timestamp
  position :: nat
  subscribeIdList :: "bytes list"
  sendToList :: "conn list"

definition subscribeIdListAdd :: "bytes \<Rightarrow> ConnInfo \<Rightarrow> ConnInfo" where
  "subscribeIdListAdd devId info =
     (if devId \<notin> set (subscribeIdList info)
      then info\<lparr>subscribeIdList := subscribeIdList info @ [devId]\<rparr> else info)"

definition subscribeIdListClear :: "ConnInfo \<Rightarrow> ConnInfo" where
  "subscribeIdListClear info = info\<lparr>subscribeIdList := []\<rparr>"

definition sendToListAdd :: "conn \<Rightarrow> ConnInfo \<Rightarrow> ConnInfo" where
  "sendToListAdd conn info =
     (if conn \<notin> set (sendToList info)
      then info\<lparr>sendToList := sendToList info @ [conn]\<rparr> else info)"

definition sendToListRemove :: "conn \<Rightarrow> ConnInfo \<Rightarrow> ConnInfo" where
  "sendToListRemove conn info = info\<lparr>sendToList := removeAll conn (sendToList info)\<rparr>"

definition sendToListClear :: "ConnInfo \<Rightarrow> ConnInfo" where
  "sendToListClear info = info\<lparr>sendToList := []\<rparr>"

text \<open>The string \<^verbatim>\<open>"delete"\<close> that marks a connection without a registered device.\<close>

definition delete_id :: bytes where
  "delete_id = map of_char ''delete''"

section \<open>The server\<close>

record 'n p2pServer =
  idleSeconds :: int
  connectionList :: "(nat \<times> conn) list"
  nextNode :: nat
  connections :: "bytes \<rightharpoonup> conn"
  connContext :: "conn \<rightharpoonup> ConnInfo"
  net :: 'n

definition p2pServer_new :: "int \<Rightarrow> 'n \<Rightarrow> 'n p2pServer" where
  "p2pServer_new idle n =
     \<lparr>idleSeconds = idle, connectionList = [], nextNode = 0, connections = Map.empty,
      connContext = Map.empty, net = n\<rparr>"

definition getConnInfo :: "conn \<Rightarrow> 'n p2pServer \<Rightarrow> ConnInfo option" where
  "getConnInfo conn s = connContext s conn"

definition setConnInfo :: "conn \<Rightarrow> ConnInfo \<Rightarrow> 'n p2pServer \<Rightarrow> 'n p2pServer" where
  "setConnInfo conn info s = s\<lparr>connContext := (connContext s)(conn \<mapsto> info)\<rparr>"

lemma setConnInfo_simps [simp]:
  "connContext (setConnInfo c info s) = (connContext s)(c \<mapsto> info)"
  "connections (setConnInfo c info s) = connections s"
  "connectionList (setConnInfo c info s) = connectionList s"
  "nextNode (setConnInfo c info s) = nextNode s"
  "idleSeconds (setConnInfo c info s) = idleSeconds s"
  "net (setConnInfo c info s) = net s"
  "setConnInfo c info (s\<lparr>net := n\<rparr>) = (setConnInfo c info s)\<lparr>net := n\<rparr>"
  "setConnInfo c info (s\<lparr>connections := m\<rparr>) = (setConnInfo c info s)\<lparr>connections := m\<rparr>"
  "setConnInfo c info (s\<lparr>connectionList := xs\<rparr>) = (setConnInfo c info s)\<lparr>connectionList := xs\<rparr>"
  "setConnInfo c info (setConnInfo c info' s) = setConnInfo c info s"
  by (simp_all add: setConnInfo_def)

lemma p2pServer_update_simps [simp]:
  "s\<lparr>net := n, connections := m\<rparr> = (s\<lparr>connections := m, net := n\<rparr> :: 'n p2pServer)"
  "s\<lparr>net := n, connectionList := xs\<rparr> = (s\<lparr>connectionList := xs, net := n\<rparr> :: 'n p2pServer)"
  "s\<lparr>net := net s\<rparr> = (s :: 'n p2pServer)"
  by simp_all

lemma setConnInfo_twist:
  "c \<noteq> c' \<Longrightarrow> setConnInfo c info (setConnInfo c' info' s) = setConnInfo c' info' (setConnInfo c info s)"
  by (simp add: setConnInfo_def fun_upd_twist)

text \<open>\<^verbatim>\<open>std::list::erase\<close> and \<^verbatim>\<open>std::list::splice\<close> (to the end) of the node an iterator points to.\<close>

definition list_erase :: "nat \<Rightarrow> (nat \<times> conn) list \<Rightarrow> (nat \<times> conn) list option" where
  "list_erase pos xs = (if pos \<in> fst ` set xs then Some (filter (\<lambda>e. fst e \<noteq> pos) xs) else None)"

definition list_splice_end :: "nat \<Rightarrow> (nat \<times> conn) list \<Rightarrow> (nat \<times> conn) list option" where
  "list_splice_end pos xs =
     (case find (\<lambda>e. fst e = pos) xs of
        None \<Rightarrow> None
      | Some e \<Rightarrow> Some (filter (\<lambda>e. fst e \<noteq> pos) xs @ [e]))"

definition registerDeviceFunc :: "'n tcp_api \<Rightarrow> conn \<Rightarrow> bytes \<Rightarrow> 'n p2pServer \<Rightarrow> 'n p2pServer option" where
  "registerDeviceFunc api conn devId s = do {
     info \<leftarrow> getConnInfo conn s;
     let s = setConnInfo conn (info\<lparr>deviceId := devId\<rparr>) s;
     (case connections s devId of
        Some oldConn \<Rightarrow>
          if oldConn = conn then Some s
          else do {
            oldInfo \<leftarrow> getConnInfo oldConn s;
            let s = setConnInfo oldConn (oldInfo\<lparr>deviceId := delete_id\<rparr>) s;
            let s = s\<lparr>net := tcp_shutdown api oldConn (net s)\<rparr>;
            Some (s\<lparr>connections := (connections s)(devId \<mapsto> conn)\<rparr>) }
      | None \<Rightarrow> Some (s\<lparr>connections := (connections s)(devId \<mapsto> conn)\<rparr>)) }"

definition subscribeDeviceFunc ::
  "conn \<Rightarrow> bytes \<Rightarrow> 'n p2pServer \<Rightarrow> (CallBackStatus \<times> 'n p2pServer) option" where
  "subscribeDeviceFunc conn devId s =
     (case connections s devId of
        None \<Rightarrow> Some (EXEC_FAIL, s)
      | Some subscribeConn \<Rightarrow> do {
          info \<leftarrow> getConnInfo conn s;
          if devId = deviceId info then Some (EXEC_FAIL, s)
          else do {
            getConnInfo subscribeConn s;
            let s = setConnInfo conn (subscribeIdListAdd devId info) s;
            subscribeInfo \<leftarrow> getConnInfo subscribeConn s;
            Some (EXEC_SUCCESS, setConnInfo subscribeConn (sendToListAdd conn subscribeInfo) s) } })"

definition unsubscribeDeviceFunc :: "conn \<Rightarrow> bytes \<Rightarrow> 'n p2pServer \<Rightarrow> 'n p2pServer option" where
  "unsubscribeDeviceFunc conn devId s = do {
     info \<leftarrow> getConnInfo conn s;
     if devId \<in> set (subscribeIdList info) then do {
       s \<leftarrow> (case connections s devId of
               Some unsubscribeConn \<Rightarrow> do {
                 unsubscribeInfo \<leftarrow> getConnInfo unsubscribeConn s;
                 Some (setConnInfo unsubscribeConn (sendToListRemove conn unsubscribeInfo) s) }
             | None \<Rightarrow> Some s);
       info \<leftarrow> getConnInfo conn s;
       Some (setConnInfo conn (info\<lparr>subscribeIdList := remove1 devId (subscribeIdList info)\<rparr>) s) }
     else Some s }"

lemma unsubscribe_shrinks:
  assumes "connContext s conn = Some info" "devId \<in> set (subscribeIdList info)"
    "unsubscribeDeviceFunc conn devId s = Some s'"
  shows "\<exists>info'. connContext s' conn = Some info' \<and>
           subscribeIdList info' = remove1 devId (subscribeIdList info)"
proof (cases "connections s devId")
  case None
  then show ?thesis using assms
    by (auto simp: unsubscribeDeviceFunc_def getConnInfo_def)
next
  case (Some c)
  then obtain ui where ui: "connContext s c = Some ui"
    using assms by (cases "connContext s c") (auto simp: unsubscribeDeviceFunc_def getConnInfo_def)
  show ?thesis
  proof (cases "c = conn")
    case True
    then show ?thesis using assms Some ui
      by (auto simp: unsubscribeDeviceFunc_def getConnInfo_def sendToListRemove_def)
  next
    case False
    then show ?thesis using assms Some ui
      by (auto simp: unsubscribeDeviceFunc_def getConnInfo_def sendToListRemove_def)
  qed
qed

text \<open>The \<^verbatim>\<open>while\<close> loop of \<^verbatim>\<open>unregisterDeviceFunc\<close>: unsubscribe the front until the list is empty.\<close>

function unsubscribeAll :: "conn \<Rightarrow> 'n p2pServer \<Rightarrow> 'n p2pServer option" where
  "unsubscribeAll conn s =
     (case connContext s conn of
        None \<Rightarrow> None
      | Some info \<Rightarrow>
          (case subscribeIdList info of
             [] \<Rightarrow> Some s
           | front # _ \<Rightarrow>
               (case unsubscribeDeviceFunc conn front s of
                  None \<Rightarrow> None
                | Some s' \<Rightarrow> unsubscribeAll conn s')))"
  by pat_completeness auto
termination
proof (relation "measure (\<lambda>(conn, s). case connContext s conn of
    None \<Rightarrow> 0 | Some info \<Rightarrow> length (subscribeIdList info))")
  fix conn info front ids s' and s :: "'n p2pServer"
  assume a: "connContext s conn = Some info" "subscribeIdList info = front # ids"
    "unsubscribeDeviceFunc conn front s = Some s'"
  then obtain info' where "connContext s' conn = Some info'" "subscribeIdList info' = ids"
    using unsubscribe_shrinks [of s conn info front s'] by auto
  with a show "((conn, s'), conn, s) \<in> measure (\<lambda>(conn, s). case connContext s conn of
    None \<Rightarrow> 0 | Some info \<Rightarrow> length (subscribeIdList info))" by simp
qed simp

declare unsubscribeAll.simps [simp del]

definition unregisterDeviceFunc :: "conn \<Rightarrow> 'n p2pServer \<Rightarrow> 'n p2pServer option" where
  "unregisterDeviceFunc conn s = do {
     s \<leftarrow> unsubscribeAll conn s;
     info \<leftarrow> getConnInfo conn s;
     let info = sendToListClear info;
     let s = setConnInfo conn info s;
     if deviceId info = delete_id then Some s
     else Some (setConnInfo conn (info\<lparr>deviceId := delete_id\<rparr>)
                  (s\<lparr>connections := (connections s)(deviceId info := None)\<rparr>)) }"

definition checkDeviceAliveFunc :: "'n tcp_api \<Rightarrow> bytes \<Rightarrow> 'n p2pServer \<Rightarrow> CallBackStatus" where
  "checkDeviceAliveFunc api devId s =
     (case connections s devId of
        Some conn \<Rightarrow> (if connected api (net s) conn then EXEC_SUCCESS else EXEC_FAIL)
      | None \<Rightarrow> EXEC_FAIL)"

definition heartBeatFunc :: "conn \<Rightarrow> Timestamp \<Rightarrow> 'n p2pServer \<Rightarrow> 'n p2pServer option" where
  "heartBeatFunc conn time s = do {
     info \<leftarrow> getConnInfo conn s;
     let s = setConnInfo conn (info\<lparr>lastReceiveTime := time\<rparr>) s;
     xs \<leftarrow> list_splice_end (position info) (connectionList s);
     let s = s\<lparr>connectionList := xs\<rparr>;
     assert_that (position info = fst (last xs));
     Some s }"

text \<open>
  The loop of \<^verbatim>\<open>sendDataFunc\<close>. For a recipient that is not connected the source calls
  \<^verbatim>\<open>sendToList.erase(it)\<close> and goes on with the same \<open>it\<close>, an iterator the call has invalidated:
  the rest of the run is undefined.
\<close>

fun sendData_loop :: "'n tcp_api \<Rightarrow> bytes \<Rightarrow> conn list \<Rightarrow> 'n p2pServer \<Rightarrow> 'n p2pServer option" where
  "sendData_loop api message [] s = Some s"
| "sendData_loop api message (c # cs) s =
     (if connected api (net s) c
      then (case LengthHeaderCodec_send api c (StringPiece_str message) (net s) of
              None \<Rightarrow> None
            | Some n \<Rightarrow> sendData_loop api message cs (s\<lparr>net := n\<rparr>))
      else None)"

definition sendDataFunc :: "'n tcp_api \<Rightarrow> conn \<Rightarrow> bytes \<Rightarrow> 'n p2pServer \<Rightarrow> 'n p2pServer option" where
  "sendDataFunc api conn message s = do {
     info \<leftarrow> getConnInfo conn s;
     sendData_loop api message (sendToList info) s }"

definition callbackFunc ::
  "'n tcp_api \<Rightarrow> conn \<Rightarrow> ProtocolCode \<Rightarrow> CallBackStatus \<Rightarrow> 'n p2pServer \<Rightarrow> 'n p2pServer option" where
  "callbackFunc api conn command result s = do {
     let callback = [code command OR CALL_BACK_MASK, status result];
     n \<leftarrow> LengthHeaderCodec_send api conn (StringPiece_new callback 2) (net s);
     Some (s\<lparr>net := n\<rparr>) }"

text \<open>\<^verbatim>\<open>message[0]\<close>: for an empty string the terminating zero. \<^verbatim>\<open>string(message, 1, length - 1)\<close>: \<open>tl\<close>.\<close>

definition message0 :: "bytes \<Rightarrow> byte" where
  "message0 message = (case message of [] \<Rightarrow> 0 | b # _ \<Rightarrow> b)"

definition onMessage :: "'n tcp_api \<Rightarrow> 'n p2pServer \<Rightarrow> conn \<Rightarrow> bytes \<Rightarrow> Timestamp \<Rightarrow> 'n p2pServer option" where
  "onMessage api s conn message time =
     (if message0 message = code REGISTER_DEVICE then do {
        s \<leftarrow> registerDeviceFunc api conn (tl message) s;
        callbackFunc api conn REGISTER_DEVICE EXEC_SUCCESS s }
      else if message0 message = code SUBSCRIBE_DEVICE then do {
        (r, s) \<leftarrow> subscribeDeviceFunc conn (tl message) s;
        callbackFunc api conn SUBSCRIBE_DEVICE r s }
      else if message0 message = code SEND_DATA then do {
        s \<leftarrow> sendDataFunc api conn message s;
        callbackFunc api conn SEND_DATA EXEC_SUCCESS s }
      else if message0 message = code UNREGISTER_DEVICE then do {
        s \<leftarrow> unregisterDeviceFunc conn s;
        callbackFunc api conn UNREGISTER_DEVICE EXEC_SUCCESS s }
      else if message0 message = code UNSUBSCRIBE_DEVICE then do {
        s \<leftarrow> unsubscribeDeviceFunc conn (tl message) s;
        callbackFunc api conn UNSUBSCRIBE_DEVICE EXEC_SUCCESS s }
      else if message0 message = code CHECK_DEVICE_ALIVE then
        callbackFunc api conn CHECK_DEVICE_ALIVE (checkDeviceAliveFunc api (tl message) s) s
      else if message0 message = code HEART_BEAT then do {
        s \<leftarrow> heartBeatFunc conn time s;
        callbackFunc api conn HEART_BEAT EXEC_SUCCESS s }
      else Some s)"

text \<open>
  The loop of \<^verbatim>\<open>onTimer\<close> over the nodes from the iterator on. After
  \<^verbatim>\<open>it = _connectionList.erase(it)\<close> the \<^verbatim>\<open>for\<close> header advances \<open>it\<close> once more: the node after an
  expired one is skipped, and behind the last node the increment is undefined.
\<close>

fun onTimer_loop ::
  "'n tcp_api \<Rightarrow> Timestamp \<Rightarrow> (nat \<times> conn) list \<Rightarrow> 'n p2pServer \<Rightarrow> 'n p2pServer option" where
  "onTimer_loop api now [] s = Some s"
| "onTimer_loop api now ((pos, c) # rest) s =
     (if tcp_lock api (net s) c then
        (case connContext s c of
           None \<Rightarrow> None
         | Some info \<Rightarrow>
             let age = timeDifference now (lastReceiveTime info) in
             if age > of_int (idleSeconds s) then
               (if connected api (net s) c
                then onTimer_loop api now rest
                       (s\<lparr>net := tcp_forceCloseWithDelay api c (7 / 2) (tcp_shutdown api c (net s))\<rparr>)
                else onTimer_loop api now rest s)
             else if age < 0 then
               onTimer_loop api now rest (setConnInfo c (info\<lparr>lastReceiveTime := now\<rparr>) s)
             else Some s)
      else (case rest of
              [] \<Rightarrow> None
            | _ # rest' \<Rightarrow>
                onTimer_loop api now rest'
                  (s\<lparr>connectionList := filter (\<lambda>e. fst e \<noteq> pos) (connectionList s)\<rparr>)))"

definition onTimer :: "'n tcp_api \<Rightarrow> Timestamp \<Rightarrow> 'n p2pServer \<Rightarrow> 'n p2pServer option" where
  "onTimer api now s = onTimer_loop api now (connectionList s) s"

definition onConnection :: "'n tcp_api \<Rightarrow> Timestamp \<Rightarrow> conn \<Rightarrow> 'n p2pServer \<Rightarrow> 'n p2pServer option" where
  "onConnection api now conn s =
     (if connected api (net s) conn then
        let pos = nextNode s;
            info = \<lparr>deviceId = delete_id, lastReceiveTime = now, position = pos,
                    subscribeIdList = [], sendToList = []\<rparr>
        in Some (s\<lparr>connectionList := connectionList s @ [(pos, conn)], nextNode := Suc pos,
                   connContext := (connContext s)(conn \<mapsto> info)\<rparr>)
      else do {
        info \<leftarrow> getConnInfo conn s;
        xs \<leftarrow> list_erase (position info) (connectionList s);
        unregisterDeviceFunc conn (s\<lparr>connectionList := xs\<rparr>) })"

text \<open>One read event on a connection: the codec runs \<^verbatim>\<open>onMessage\<close> on every complete message.\<close>

definition onSegment ::
  "'n tcp_api \<Rightarrow> conn \<Rightarrow> Timestamp \<Rightarrow> bytes \<Rightarrow> Buffer \<times> 'n p2pServer \<Rightarrow> (Buffer \<times> 'n p2pServer) option" where
  "onSegment api = on_segment (onMessage api) (\<lambda>c s. s\<lparr>net := tcp_shutdown api c (net s)\<rparr>)"

end
