(* ===== verification/P2p_Server_Inv.thy ===== *)
theory P2p_Server_Inv
  imports P2p_Server
begin

text \<open>
  The invariant of the relay server and its preservation by every handler. \<open>srv_ok up s\<close> relates
  the state to the set \<open>up\<close> of connections that are between their two connection callbacks: the
  nodes of \<^verbatim>\<open>_connectionList\<close> are exactly the connections in \<open>up\<close> and every stored iterator points to
  its own node (so \<^verbatim>\<open>erase\<close> and \<^verbatim>\<open>splice\<close> are defined), every connection the server can reach has
  a context (so \<^verbatim>\<open>getConnInfo\<close> never fails), the two lists of a connection have no duplicates, and a
  connection with a device id is the one the registry holds for that id. The lemmas
  \<open>\<dots>_total\<close> say that a handler returns and keeps the invariant.
\<close>

definition nodes_ok :: "conn set \<Rightarrow> 'n p2pServer \<Rightarrow> bool" where
  "nodes_ok up s \<longleftrightarrow>
     distinct (map fst (connectionList s)) \<and>
     (\<forall>e\<in>set (connectionList s). fst e < nextNode s) \<and>
     snd ` set (connectionList s) = up \<and>
     (\<forall>e\<in>set (connectionList s). \<exists>info. connContext s (snd e) = Some info \<and> position info = fst e)"

definition info_ok :: "'n p2pServer \<Rightarrow> conn \<Rightarrow> ConnInfo \<Rightarrow> bool" where
  "info_ok s c info \<longleftrightarrow>
     set (sendToList info) \<subseteq> dom (connContext s) \<and> distinct (sendToList info) \<and>
     distinct (subscribeIdList info) \<and>
     (deviceId info \<noteq> delete_id \<longrightarrow> connections s (deviceId info) = Some c)"

definition infos_ok :: "'n p2pServer \<Rightarrow> bool" where
  "infos_ok s \<longleftrightarrow> ran (connections s) \<subseteq> dom (connContext s) \<and>
     (\<forall>c info. connContext s c = Some info \<longrightarrow> info_ok s c info)"

definition down_ok :: "conn set \<Rightarrow> 'n p2pServer \<Rightarrow> bool" where
  "down_ok up s \<longleftrightarrow> (\<forall>c info. connContext s c = Some info \<and> c \<notin> up \<longrightarrow>
     deviceId info = delete_id \<and> subscribeIdList info = [])"

definition srv_ok :: "conn set \<Rightarrow> 'n p2pServer \<Rightarrow> bool" where
  "srv_ok up s \<longleftrightarrow> nodes_ok up s \<and> infos_ok s \<and> down_ok up s"

section \<open>Elementary updates\<close>

lemma srv_ok_net [simp]: "srv_ok up (s\<lparr>net := n\<rparr>) = srv_ok up s"
  by (simp add: srv_ok_def nodes_ok_def infos_ok_def info_ok_def down_ok_def)

lemma srv_ok_context: "srv_ok up s \<Longrightarrow> c \<in> up \<Longrightarrow> \<exists>info. connContext s c = Some info"
  by (fastforce simp: srv_ok_def nodes_ok_def)

lemma srv_ok_node:
  assumes "srv_ok up s" "c \<in> up" "connContext s c = Some info"
  shows "(position info, c) \<in> set (connectionList s)"
proof -
  from assms(1,2) obtain e where e: "e \<in> set (connectionList s)" "snd e = c"
    by (auto simp: srv_ok_def nodes_ok_def)
  with assms have "position info = fst e"
    by (fastforce simp: srv_ok_def nodes_ok_def)
  with e show ?thesis by (metis prod.collapse)
qed

lemma srv_ok_info: "srv_ok up s \<Longrightarrow> connContext s c = Some info \<Longrightarrow> info_ok s c info"
  by (simp add: srv_ok_def infos_ok_def)

lemma srv_ok_connections:
  "srv_ok up s \<Longrightarrow> connections s d = Some c \<Longrightarrow> \<exists>info. connContext s c = Some info"
  by (auto simp: srv_ok_def infos_ok_def ran_def)

lemma srv_ok_down:
  "srv_ok up s \<Longrightarrow> connContext s c = Some info \<Longrightarrow> c \<notin> up \<Longrightarrow>
     deviceId info = delete_id \<and> subscribeIdList info = []"
  by (simp add: srv_ok_def down_ok_def)

lemma srv_ok_registered:
  "srv_ok up s \<Longrightarrow> connContext s c = Some info \<Longrightarrow> deviceId info \<noteq> delete_id \<Longrightarrow>
     connections s (deviceId info) = Some c"
  using srv_ok_info by (fastforce simp: info_ok_def)

lemma srv_ok_nodes:
  "srv_ok up s \<Longrightarrow> e \<in> set (connectionList s) \<Longrightarrow>
     \<exists>info. connContext s (snd e) = Some info \<and> position info = fst e"
  by (simp add: srv_ok_def nodes_ok_def)

lemma srv_ok_up: "srv_ok up s \<Longrightarrow> (pos, c) \<in> set (connectionList s) \<Longrightarrow> c \<in> up"
  unfolding srv_ok_def nodes_ok_def by (metis image_eqI snd_conv)

lemma srv_ok_setConnInfo:
  assumes ok: "srv_ok up s" and c: "connContext s c = Some info"
    and pos: "position info' = position info"
    and lists: "set (sendToList info') \<subseteq> dom (connContext s)" "distinct (sendToList info')"
      "distinct (subscribeIdList info')"
    and reg: "deviceId info' \<noteq> delete_id \<longrightarrow> connections s (deviceId info') = Some c"
    and down: "c \<notin> up \<longrightarrow> deviceId info' = delete_id \<and> subscribeIdList info' = []"
  shows "srv_ok up (setConnInfo c info' s)"
proof -
  have d: "dom (connContext (setConnInfo c info' s)) = dom (connContext s)"
    using c by (auto simp: setConnInfo_def)
  have "\<exists>i. connContext (setConnInfo c info' s) (snd e) = Some i \<and> position i = fst e"
    if "e \<in> set (connectionList s)" for e
    using srv_ok_nodes [OF ok that] c pos by (cases "snd e = c") simp_all
  then have "nodes_ok up (setConnInfo c info' s)"
    using ok by (simp add: srv_ok_def nodes_ok_def setConnInfo_def)
  moreover have "infos_ok (setConnInfo c info' s)"
    unfolding infos_ok_def d
  proof (intro conjI allI impI)
    show "ran (connections (setConnInfo c info' s)) \<subseteq> dom (connContext s)"
      using ok by (simp add: srv_ok_def infos_ok_def setConnInfo_def)
    fix x i assume "connContext (setConnInfo c info' s) x = Some i"
    then show "info_ok (setConnInfo c info' s) x i"
      using lists reg srv_ok_info [OF ok] d
      by (cases "x = c") (auto simp: info_ok_def setConnInfo_def)
  qed
  moreover have "down_ok up (setConnInfo c info' s)"
    using ok down by (auto simp: srv_ok_def down_ok_def setConnInfo_def)
  ultimately show ?thesis by (simp add: srv_ok_def)
qed

lemma srv_ok_register:
  assumes ok: "srv_ok up s" and c: "connContext s c = Some info"
    and free: "\<And>x i. connContext s x = Some i \<Longrightarrow> deviceId i = d \<Longrightarrow> d \<noteq> delete_id \<Longrightarrow> x = c"
  shows "srv_ok up (s\<lparr>connections := (connections s)(d \<mapsto> c)\<rparr>)"
proof -
  have "ran ((connections s)(d \<mapsto> c)) \<subseteq> dom (connContext s)"
    using ok c by (auto simp: srv_ok_def infos_ok_def ran_def)
  moreover have "info_ok (s\<lparr>connections := (connections s)(d \<mapsto> c)\<rparr>) x i"
    if "connContext s x = Some i" for x i
    using srv_ok_info [OF ok that] free [OF that] by (auto simp: info_ok_def)
  ultimately show ?thesis
    using ok by (simp add: srv_ok_def nodes_ok_def infos_ok_def down_ok_def)
qed

lemma srv_ok_unregister:
  assumes ok: "srv_ok up s"
    and free: "\<And>x i. connContext s x = Some i \<Longrightarrow> deviceId i = d \<Longrightarrow> d = delete_id"
  shows "srv_ok up (s\<lparr>connections := (connections s)(d := None)\<rparr>)"
proof -
  have "ran ((connections s)(d := None)) \<subseteq> dom (connContext s)"
    using ok by (auto simp: srv_ok_def infos_ok_def ran_def)
  moreover have "info_ok (s\<lparr>connections := (connections s)(d := None)\<rparr>) x i"
    if "connContext s x = Some i" for x i
    using srv_ok_info [OF ok that] free [OF that] by (auto simp: info_ok_def)
  ultimately show ?thesis
    using ok by (simp add: srv_ok_def nodes_ok_def infos_ok_def down_ok_def)
qed

section \<open>Sending never changes the bookkeeping\<close>

lemma callbackFunc_frame:
  "callbackFunc api c cmd r s =
     Some (s\<lparr>net := tcp_send api c (frame [code cmd OR CALL_BACK_MASK, status r]) (net s)\<rparr>)"
proof -
  let ?p = "StringPiece_new [code cmd OR CALL_BACK_MASK, status r] 2"
  have "sp_ok ?p" "sp_view ?p = [code cmd OR CALL_BACK_MASK, status r]"
    by (simp_all add: StringPiece_new_def sp_ok_def sp_view_def)
  then show ?thesis by (simp add: callbackFunc_def LengthHeaderCodec_send_frame)
qed

lemma sendData_loop_net:
  "sendData_loop api m cs s = Some s' \<Longrightarrow> \<exists>n. s' = s\<lparr>net := n\<rparr>"
proof (induction cs arbitrary: s)
  case Nil
  then have "s' = s\<lparr>net := net s\<rparr>" by simp
  then show ?case by blast
next
  case (Cons c cs)
  then obtain n where "sendData_loop api m cs (s\<lparr>net := n\<rparr>) = Some s'"
    by (auto split: if_splits option.splits)
  from Cons.IH [OF this] show ?case by auto
qed

section \<open>Handlers\<close>

lemma registerDeviceFunc_total:
  assumes ok: "srv_ok up s" and c: "connContext s c = Some info" and up: "c \<in> up"
  shows "\<exists>s'. registerDeviceFunc api c d s = Some s' \<and> srv_ok up s'"
proof (cases "connections s d")
  case None
  have 1: "srv_ok up (s\<lparr>connections := (connections s)(d \<mapsto> c)\<rparr>)"
    using None srv_ok_registered [OF ok] by (intro srv_ok_register [OF ok c]) fastforce
  have "srv_ok up (setConnInfo c (info\<lparr>deviceId := d\<rparr>) (s\<lparr>connections := (connections s)(d \<mapsto> c)\<rparr>))"
    using srv_ok_info [OF ok c] c up by (intro srv_ok_setConnInfo [OF 1]) (auto simp: info_ok_def)
  then show ?thesis
    using c None by (simp add: registerDeviceFunc_def getConnInfo_def)
next
  case (Some oldc)
  obtain oi where oi: "connContext s oldc = Some oi" using srv_ok_connections [OF ok Some] by blast
  show ?thesis
  proof (cases "oldc = c")
    case True
    have "srv_ok up (setConnInfo c (info\<lparr>deviceId := d\<rparr>) s)"
      using srv_ok_info [OF ok c] c up Some True
      by (intro srv_ok_setConnInfo [OF ok c]) (auto simp: info_ok_def)
    then show ?thesis
      using True Some c by (simp add: registerDeviceFunc_def getConnInfo_def)
  next
    case False
    let ?s1 = "setConnInfo oldc (oi\<lparr>deviceId := delete_id\<rparr>) s"
    let ?s2 = "?s1\<lparr>connections := (connections ?s1)(d \<mapsto> c)\<rparr>"
    let ?s3 = "setConnInfo c (info\<lparr>deviceId := d\<rparr>) ?s2"
    have 1: "srv_ok up ?s1"
      using srv_ok_info [OF ok oi] srv_ok_down [OF ok oi]
      by (intro srv_ok_setConnInfo [OF ok oi]) (auto simp: info_ok_def)
    have c1: "connContext ?s1 c = Some info" using c False by simp
    have 2: "srv_ok up ?s2"
    proof (rule srv_ok_register [OF 1 c1])
      fix x i assume x: "connContext ?s1 x = Some i" "deviceId i = d" "d \<noteq> delete_id"
      then have "x \<noteq> oldc" by auto
      then show "x = c" using x srv_ok_registered [OF ok] Some by force
    qed
    have 3: "srv_ok up ?s3"
      using srv_ok_info [OF ok c] c1 up oi
      by (intro srv_ok_setConnInfo [OF 2]) (auto simp: info_ok_def)
    have "registerDeviceFunc api c d s = Some (?s3\<lparr>net := tcp_shutdown api oldc (net s)\<rparr>)"
      using c oi Some False
      by (simp add: registerDeviceFunc_def getConnInfo_def setConnInfo_twist)
    then show ?thesis using 3 by simp
  qed
qed

lemma subscribeDeviceFunc_total:
  assumes ok: "srv_ok up s" and c: "connContext s c = Some info" and up: "c \<in> up"
  shows "\<exists>r s'. subscribeDeviceFunc c d s = Some (r, s') \<and> srv_ok up s'"
proof (cases "connections s d")
  case None
  then show ?thesis using ok by (simp add: subscribeDeviceFunc_def)
next
  case (Some pc)
  obtain pi where pi: "connContext s pc = Some pi" using srv_ok_connections [OF ok Some] by blast
  show ?thesis
  proof (cases "d = deviceId info")
    case True
    then show ?thesis using Some c ok by (simp add: subscribeDeviceFunc_def getConnInfo_def)
  next
    case False
    let ?s1 = "setConnInfo c (subscribeIdListAdd d info) s"
    have 1: "srv_ok up ?s1"
      using srv_ok_info [OF ok c] up
      by (intro srv_ok_setConnInfo [OF ok c]) (auto simp: info_ok_def subscribeIdListAdd_def)
    obtain pi' where pi': "connContext ?s1 pc = Some pi'" using pi by (cases "pc = c") auto
    have dom: "c \<in> dom (connContext ?s1)" by simp
    have "srv_ok up (setConnInfo pc (sendToListAdd c pi') ?s1)"
      using srv_ok_info [OF 1 pi'] srv_ok_down [OF 1 pi'] dom
      by (intro srv_ok_setConnInfo [OF 1 pi']) (auto simp: info_ok_def sendToListAdd_def)
    then show ?thesis using Some False c pi pi' by (simp add: subscribeDeviceFunc_def getConnInfo_def)
  qed
qed

lemma unsubscribeDeviceFunc_total:
  assumes ok: "srv_ok up s" and c: "connContext s c = Some info"
  shows "\<exists>s'. unsubscribeDeviceFunc c d s = Some s' \<and> srv_ok up s'"
proof (cases "d \<in> set (subscribeIdList info)")
  case False
  then show ?thesis using c ok by (simp add: unsubscribeDeviceFunc_def getConnInfo_def)
next
  case True
  have erase: "srv_ok up (setConnInfo c (i\<lparr>subscribeIdList := remove1 d (subscribeIdList i)\<rparr>) t)"
    if "srv_ok up t" "connContext t c = Some i" for t i
    using srv_ok_info [OF that] srv_ok_down [OF that]
    by (intro srv_ok_setConnInfo [OF that]) (auto simp: info_ok_def)
  show ?thesis
  proof (cases "connections s d")
    case None
    then show ?thesis
      using True c erase [OF ok c] by (simp add: unsubscribeDeviceFunc_def getConnInfo_def)
  next
    case (Some pc)
    obtain pi where pi: "connContext s pc = Some pi" using srv_ok_connections [OF ok Some] by blast
    let ?s1 = "setConnInfo pc (sendToListRemove c pi) s"
    have 1: "srv_ok up ?s1"
      using srv_ok_info [OF ok pi] srv_ok_down [OF ok pi]
      by (intro srv_ok_setConnInfo [OF ok pi]) (auto simp: info_ok_def sendToListRemove_def distinct_removeAll)
    obtain i where i: "connContext ?s1 c = Some i" using c by (cases "pc = c") auto
    then show ?thesis
      using True Some c pi erase [OF 1 i] by (simp add: unsubscribeDeviceFunc_def getConnInfo_def)
  qed
qed

lemma unsubscribeAll_total:
  assumes "srv_ok up s" "connContext s c = Some info"
  shows "\<exists>s' info'. unsubscribeAll c s = Some s' \<and> srv_ok up s' \<and>
     connContext s' c = Some info' \<and> subscribeIdList info' = []"
  using assms
proof (induction c s arbitrary: info rule: unsubscribeAll.induct)
  case (1 c s)
  note unf = unsubscribeAll.simps [of c s]
  show ?case
  proof (cases "subscribeIdList info")
    case Nil
    then show ?thesis using "1.prems" by (simp add: unf)
  next
    case (Cons front ids)
    obtain s' where s': "unsubscribeDeviceFunc c front s = Some s'" "srv_ok up s'"
      using unsubscribeDeviceFunc_total [OF "1.prems"] by blast
    obtain info' where "connContext s' c = Some info'"
      using unsubscribe_shrinks [OF "1.prems"(2) _ s'(1)] Cons by auto
    from "1.IH" [OF "1.prems"(2) Cons s'(1) s'(2) this] show ?thesis
      by (simp add: unf "1.prems"(2) Cons s'(1))
  qed
qed

lemma unregisterDeviceFunc_total:
  assumes ok: "srv_ok up s" and c: "connContext s c = Some info"
  shows "\<exists>s' info'. unregisterDeviceFunc c s = Some s' \<and> srv_ok up s' \<and>
     connContext s' c = Some info' \<and> deviceId info' = delete_id \<and> subscribeIdList info' = [] \<and>
     sendToList info' = []"
proof -
  obtain s1 i1 where s1: "unsubscribeAll c s = Some s1" "srv_ok up s1" "connContext s1 c = Some i1"
      "subscribeIdList i1 = []"
    using unsubscribeAll_total [OF ok c] by blast
  let ?i2 = "sendToListClear i1"
  let ?s2 = "setConnInfo c ?i2 s1"
  have 2: "srv_ok up ?s2"
    using srv_ok_info [OF s1(2,3)] srv_ok_down [OF s1(2,3)]
    by (intro srv_ok_setConnInfo [OF s1(2,3)]) (auto simp: info_ok_def sendToListClear_def)
  show ?thesis
  proof (cases "deviceId ?i2 = delete_id")
    case True
    then show ?thesis
      using s1 2 by (auto simp: unregisterDeviceFunc_def getConnInfo_def sendToListClear_def)
  next
    case False
    let ?d = "deviceId ?i2"
    let ?s3 = "setConnInfo c (?i2\<lparr>deviceId := delete_id\<rparr>) ?s2"
    let ?s4 = "?s3\<lparr>connections := (connections ?s3)(?d := None)\<rparr>"
    have c2: "connContext ?s2 c = Some ?i2" by simp
    have 3: "srv_ok up ?s3"
      using srv_ok_info [OF 2 c2] srv_ok_down [OF 2 c2]
      by (intro srv_ok_setConnInfo [OF 2 c2]) (auto simp: info_ok_def)
    have 4: "srv_ok up ?s4"
    proof (rule srv_ok_unregister [OF 3])
      fix x i assume x: "connContext ?s3 x = Some i" "deviceId i = ?d"
      show "?d = delete_id"
      proof (cases "x = c")
        case True
        then show ?thesis using x by auto
      next
        case False
        then have "connContext ?s2 x = Some i" using x(1) by simp
        then have "connections ?s2 ?d = Some x" "connections ?s2 ?d = Some c"
          using srv_ok_registered [OF 2] x(2) c2 \<open>?d \<noteq> delete_id\<close> by metis+
        then show ?thesis using False by simp
      qed
    qed
    have "unregisterDeviceFunc c s = Some ?s4"
      using s1(1,3) False
      by (simp add: unregisterDeviceFunc_def getConnInfo_def Let_def)
    then show ?thesis using 4 s1(4) by (simp add: sendToListClear_def)
  qed
qed

lemma find_node:
  assumes "distinct (map fst xs)" "(p, c) \<in> set xs"
  shows "find (\<lambda>e. fst e = p) xs = Some (p, c)"
  using assms by (induction xs) force+

lemma set_filter_node:
  assumes "distinct (map fst xs)" "(p, c) \<in> set xs"
  shows "insert (p, c) (set (filter (\<lambda>e. fst e \<noteq> p) xs)) = set xs"
    and "set (filter (\<lambda>e. fst e \<noteq> p) xs) = set xs - {(p, c)}"
  using assms by (auto dest: eq_key_imp_eq_value)

lemma srv_ok_distinct: "srv_ok up s \<Longrightarrow> distinct (map fst (connectionList s))"
  by (simp add: srv_ok_def nodes_ok_def)

lemma srv_ok_permute:
  "srv_ok up s \<Longrightarrow> set xs = set (connectionList s) \<Longrightarrow> distinct (map fst xs) \<Longrightarrow>
     srv_ok up (s\<lparr>connectionList := xs\<rparr>)"
  by (simp add: srv_ok_def nodes_ok_def infos_ok_def info_ok_def down_ok_def)

lemma heartBeatFunc_result:
  assumes ok: "srv_ok up s" and up: "c \<in> up" and c: "connContext s c = Some info"
  shows "heartBeatFunc c t s =
     Some ((setConnInfo c (info\<lparr>lastReceiveTime := t\<rparr>) s)
       \<lparr>connectionList := filter (\<lambda>e. fst e \<noteq> position info) (connectionList s) @ [(position info, c)]\<rparr>)"
  using c find_node [OF srv_ok_distinct [OF ok] srv_ok_node [OF ok up c]]
  by (simp add: heartBeatFunc_def getConnInfo_def list_splice_end_def)

lemma heartBeatFunc_total:
  assumes ok: "srv_ok up s" and up: "c \<in> up" and c: "connContext s c = Some info"
  shows "\<exists>s'. heartBeatFunc c t s = Some s' \<and> srv_ok up s'"
proof -
  let ?xs = "filter (\<lambda>e. fst e \<noteq> position info) (connectionList s) @ [(position info, c)]"
  let ?s1 = "setConnInfo c (info\<lparr>lastReceiveTime := t\<rparr>) s"
  have 1: "srv_ok up ?s1"
    using srv_ok_info [OF ok c] srv_ok_registered [OF ok c] up
    by (intro srv_ok_setConnInfo [OF ok c]) (auto simp: info_ok_def)
  have "set ?xs = set (connectionList ?s1)"
    using set_filter_node(1) [OF srv_ok_distinct [OF ok] srv_ok_node [OF ok up c]] by auto
  moreover have "distinct (map fst ?xs)"
    using srv_ok_distinct [OF ok] by (auto simp: distinct_map_filter)
  ultimately have "srv_ok up (?s1\<lparr>connectionList := ?xs\<rparr>)" by (rule srv_ok_permute [OF 1])
  then show ?thesis by (simp add: heartBeatFunc_result [OF ok up c])
qed

text \<open>\<^verbatim>\<open>sendDataFunc\<close>: one frame to every recipient, in order, or undefined behaviour.\<close>

lemma sendData_loop_result:
  assumes "send_law api wire" "length m < 2 ^ 31"
  shows "sendData_loop api m cs s =
     (if \<forall>c\<in>set cs. connected api (net s) c
      then Some (s\<lparr>net := fold (\<lambda>c. tcp_send api c (frame m)) cs (net s)\<rparr>) else None)"
proof (induction cs arbitrary: s)
  case Nil
  then show ?case by simp
next
  case (Cons c cs)
  have "LengthHeaderCodec_send api c (StringPiece_str m) (net s) = Some (tcp_send api c (frame m) (net s))"
    using LengthHeaderCodec_send_frame sp_ok_str [OF assms(2)] by metis
  then show ?case by (simp add: Cons.IH send_law_connected [OF assms(1)])
qed

lemma sendDataFunc_result:
  assumes "send_law api wire" "length m < 2 ^ 31" "connContext s c = Some info"
  shows "sendDataFunc api c m s =
     (if \<forall>r\<in>set (sendToList info). connected api (net s) r
      then Some (s\<lparr>net := fold (\<lambda>r. tcp_send api r (frame m)) (sendToList info) (net s)\<rparr>) else None)"
  by (simp add: sendDataFunc_def getConnInfo_def assms(3) sendData_loop_result [OF assms(1,2)])

text \<open>
  The only way a message can abort the server: \<^verbatim>\<open>SEND_DATA\<close> while a recipient on the sender's list
  is not connected.
\<close>

definition send_blocked :: "'n tcp_api \<Rightarrow> conn \<Rightarrow> bytes \<Rightarrow> 'n p2pServer \<Rightarrow> bool" where
  "send_blocked api c m s \<longleftrightarrow> message0 m = code SEND_DATA \<and>
     (\<exists>info. connContext s c = Some info \<and> (\<exists>r\<in>set (sendToList info). \<not> connected api (net s) r))"

lemma onMessage_total:
  assumes ok: "srv_ok up s" and up: "c \<in> up" and law: "send_law api wire" "length m < 2 ^ 31"
    and free: "\<not> send_blocked api c m s"
  shows "\<exists>s'. onMessage api s c m t = Some s' \<and> srv_ok up s'"
proof -
  obtain info where c: "connContext s c = Some info" using srv_ok_context [OF ok up] by blast
  have send: "\<exists>s'. sendDataFunc api c m s = Some s' \<and> srv_ok up s'" if "message0 m = code SEND_DATA"
    using that free c sendDataFunc_result [OF law c] ok by (auto simp: send_blocked_def)
  note total = registerDeviceFunc_total [OF ok c up, of api "tl m"]
    subscribeDeviceFunc_total [OF ok c up, of "tl m"] unregisterDeviceFunc_total [OF ok c]
    unsubscribeDeviceFunc_total [OF ok c, of "tl m"] heartBeatFunc_total [OF ok up c, of t] send
  show ?thesis unfolding onMessage_def using total ok by (auto simp: callbackFunc_frame)
qed

lemma onMessage_blocked:
  assumes law: "send_law api wire" "length m < 2 ^ 31" and "send_blocked api c m s"
  shows "onMessage api s c m t = None"
proof -
  obtain info where c: "connContext s c = Some info" and m: "message0 m = 3"
    and r: "\<exists>r\<in>set (sendToList info). \<not> connected api (net s) r"
    using assms(3) by (auto simp: send_blocked_def)
  have "sendDataFunc api c m s = None" using sendDataFunc_result [OF law c] r by auto
  then show ?thesis by (simp add: onMessage_def m)
qed

section \<open>Connection callbacks\<close>

lemma onConnection_up:
  assumes ok: "srv_ok up s" and new: "connContext s c = None" and conn: "connected api (net s) c"
  shows "\<exists>s'. onConnection api t c s = Some s' \<and> srv_ok (insert c up) s'"
proof -
  let ?i = "\<lparr>deviceId = delete_id, lastReceiveTime = t, position = nextNode s, subscribeIdList = [], sendToList = []\<rparr>"
  let ?s = "s\<lparr>connectionList := connectionList s @ [(nextNode s, c)], nextNode := Suc (nextNode s),
                   connContext := (connContext s)(c \<mapsto> ?i)\<rparr>"
  have "nextNode s \<notin> fst ` set (connectionList s)" using ok by (auto simp: srv_ok_def nodes_ok_def)
  moreover have old: "\<exists>i. connContext ?s (snd e) = Some i \<and> position i = fst e" if "e \<in> set (connectionList s)" for e
    using srv_ok_nodes [OF ok that] new by (cases "snd e = c") auto
  ultimately have "nodes_ok (insert c up) ?s"
    using ok by (fastforce simp: srv_ok_def nodes_ok_def)
  moreover have "infos_ok ?s"
    unfolding infos_ok_def
  proof (intro conjI allI impI)
    show "ran (connections ?s) \<subseteq> dom (connContext ?s)" using ok by (auto simp: srv_ok_def infos_ok_def)
    fix x i assume x: "connContext ?s x = Some i"
    show "info_ok ?s x i"
    proof (cases "x = c")
      case True
      then show ?thesis using x by (auto simp: info_ok_def)
    next
      case False
      then show ?thesis using x srv_ok_info [OF ok, of x i] by (auto simp: info_ok_def)
    qed
  qed
  moreover have "down_ok (insert c up) ?s"
    using ok by (auto simp: srv_ok_def down_ok_def)
  ultimately show ?thesis using conn by (simp add: onConnection_def srv_ok_def Let_def)
qed

lemma unsubscribeDeviceFunc_nodes:
  "unsubscribeDeviceFunc c d (s\<lparr>connectionList := xs\<rparr>) =
     map_option (\<lambda>s. s\<lparr>connectionList := xs\<rparr>) (unsubscribeDeviceFunc c d s)"
  by (cases "connContext s c"; cases "connections s d")
    (auto simp: unsubscribeDeviceFunc_def getConnInfo_def split: option.splits bind_split)

lemma unsubscribeAll_nodes:
  "unsubscribeAll c (s\<lparr>connectionList := xs\<rparr>) =
     map_option (\<lambda>s. s\<lparr>connectionList := xs\<rparr>) (unsubscribeAll c s)"
proof (induction c s rule: unsubscribeAll.induct)
  case (1 c s)
  show ?case
    using "1.IH"
    by (simp add: unsubscribeAll.simps [of c s] unsubscribeAll.simps [of c "s\<lparr>connectionList := xs\<rparr>"]
        unsubscribeDeviceFunc_nodes option.case_eq_if list.case_eq_if)
      (auto simp: neq_Nil_conv)
qed

lemma unregisterDeviceFunc_nodes:
  "unregisterDeviceFunc c (s\<lparr>connectionList := xs\<rparr>) =
     map_option (\<lambda>s. s\<lparr>connectionList := xs\<rparr>) (unregisterDeviceFunc c s)"
  by (cases "unsubscribeAll c s")
    (auto simp: unregisterDeviceFunc_def unsubscribeAll_nodes getConnInfo_def Let_def split: bind_split)

lemma unregisterDeviceFunc_list:
  assumes "unregisterDeviceFunc c s = Some s'"
  shows "connectionList s' = connectionList s"
proof -
  have "s\<lparr>connectionList := connectionList s\<rparr> = s" by simp
  then have "s'\<lparr>connectionList := connectionList s\<rparr> = s'"
    using unregisterDeviceFunc_nodes [where c = c and s = s and xs = "connectionList s"] assms by simp
  from arg_cong [OF this, of connectionList] show ?thesis by simp
qed

lemma srv_ok_erase:
  assumes ok: "srv_ok up s" and up: "c \<in> up" and c: "connContext s c = Some info"
    and idle: "deviceId info = delete_id" "subscribeIdList info = []"
  shows "srv_ok (up - {c}) (s\<lparr>connectionList := filter (\<lambda>e. fst e \<noteq> position info) (connectionList s)\<rparr>)"
proof -
  let ?p = "position info" and ?xs = "filter (\<lambda>e. fst e \<noteq> position info) (connectionList s)"
  have one: "e = (?p, c)" if "e \<in> set (connectionList s)" "snd e = c" for e
    using srv_ok_nodes [OF ok that(1)] that(2) c by (cases e) auto
  have xs: "set ?xs = set (connectionList s) - {(?p, c)}"
    by (rule set_filter_node(2) [OF srv_ok_distinct [OF ok] srv_ok_node [OF ok up c]])
  have all: "snd ` set (connectionList s) = up" using ok by (simp add: srv_ok_def nodes_ok_def)
  have "snd ` set ?xs = up - {c}"
  proof
    show "snd ` set ?xs \<subseteq> up - {c}"
    proof
      fix x assume "x \<in> snd ` set ?xs"
      then obtain e where "e \<in> set (connectionList s)" "snd e = x" "e \<noteq> (?p, c)" unfolding xs by auto
      then show "x \<in> up - {c}" using all one by blast
    qed
    show "up - {c} \<subseteq> snd ` set ?xs"
    proof
      fix x assume "x \<in> up - {c}"
      then obtain e where "e \<in> set (connectionList s)" "snd e = x" "x \<noteq> c" using all by auto
      then show "x \<in> snd ` set ?xs" unfolding xs by auto
    qed
  qed
  then have "nodes_ok (up - {c}) (s\<lparr>connectionList := ?xs\<rparr>)"
    using ok by (simp add: srv_ok_def nodes_ok_def distinct_map_filter)
  moreover have "down_ok (up - {c}) (s\<lparr>connectionList := ?xs\<rparr>)"
    using ok c idle by (auto simp: srv_ok_def down_ok_def)
  ultimately show ?thesis using ok by (simp add: srv_ok_def infos_ok_def info_ok_def)
qed

lemma onConnection_down:
  assumes ok: "srv_ok up s" and up: "c \<in> up" and conn: "\<not> connected api (net s) c"
  shows "\<exists>s'. onConnection api t c s = Some s' \<and> srv_ok (up - {c}) s'"
proof -
  obtain info where c: "connContext s c = Some info" using srv_ok_context [OF ok up] by blast
  obtain s1 i1 where s1: "unregisterDeviceFunc c s = Some s1" "srv_ok up s1" "connContext s1 c = Some i1"
      "deviceId i1 = delete_id" "subscribeIdList i1 = []"
    using unregisterDeviceFunc_total [OF ok c] by blast
  have l: "connectionList s1 = connectionList s" by (rule unregisterDeviceFunc_list [OF s1(1)])
  have n: "(position info, c) \<in> set (connectionList s)" by (rule srv_ok_node [OF ok up c])
  then have "position info = position i1"
    using srv_ok_nodes [OF s1(2), of "(position info, c)"] s1(3) l by auto
  then have "srv_ok (up - {c}) (s1\<lparr>connectionList := filter (\<lambda>e. fst e \<noteq> position info) (connectionList s)\<rparr>)"
    using srv_ok_erase [OF s1(2) up s1(3-5)] l by simp
  moreover have "position info \<in> fst ` set (connectionList s)" using n by force
  ultimately show ?thesis
    using conn c s1(1)
    by (simp add: onConnection_def getConnInfo_def list_erase_def unregisterDeviceFunc_nodes)
qed

section \<open>The timer\<close>

lemma onTimer_loop_total:
  assumes "srv_ok up s" "set rest \<subseteq> set (connectionList s)" "lock_law api"
    "\<forall>c\<in>up. tcp_lock api (net s) c"
  shows "\<exists>s'. onTimer_loop api now rest s = Some s' \<and> srv_ok up s'"
  using assms
proof (induction rest arbitrary: s)
  case Nil
  then show ?case by simp
next
  case (Cons e rest)
  obtain pos c where e: "e = (pos, c)" by (cases e)
  have up: "c \<in> up" by (rule srv_ok_up [OF Cons.prems(1), of pos]) (use Cons.prems(2) e in simp)
  then have lk: "tcp_lock api (net s) c" using Cons.prems(4) by blast
  obtain info where c: "connContext s c = Some info" using srv_ok_context [OF Cons.prems(1) up] by blast
  have jump_ok: "srv_ok up (setConnInfo c (info\<lparr>lastReceiveTime := now\<rparr>) s)"
    using srv_ok_info [OF Cons.prems(1) c] up
    by (intro srv_ok_setConnInfo [OF Cons.prems(1) c]) (auto simp: info_ok_def)
  have IH: "\<exists>s''. onTimer_loop api now rest s' = Some s'' \<and> srv_ok up s''"
    if "srv_ok up s'" "connectionList s' = connectionList s" "tcp_lock api (net s') = tcp_lock api (net s)" for s'
    using that Cons.prems(2-4) by (intro Cons.IH) auto
  let ?age = "timeDifference now (lastReceiveTime info)"
  let ?closed = "s\<lparr>net := tcp_forceCloseWithDelay api c (7 / 2) (tcp_shutdown api c (net s))\<rparr>"
  consider (close) "?age > of_int (idleSeconds s)" "connected api (net s) c"
    | (closing) "?age > of_int (idleSeconds s)" "\<not> connected api (net s) c"
    | (jump) "\<not> ?age > of_int (idleSeconds s)" "?age < 0"
    | (recent) "\<not> ?age > of_int (idleSeconds s)" "\<not> ?age < 0"
    by blast
  then show ?case
  proof cases
    case close
    have "\<exists>s''. onTimer_loop api now rest ?closed = Some s'' \<and> srv_ok up s''"
      using Cons.prems(1,3) by (intro IH) (auto simp: lock_law_def)
    then show ?thesis using close lk c by (simp only: e onTimer_loop.simps option.case if_True Let_def)
  next
    case closing
    have "\<exists>s''. onTimer_loop api now rest s = Some s'' \<and> srv_ok up s''"
      using Cons.prems(1) by (intro IH) auto
    then show ?thesis using closing lk c
      by (simp only: e onTimer_loop.simps option.case if_True if_False Let_def)
  next
    case jump
    have "\<exists>s''. onTimer_loop api now rest (setConnInfo c (info\<lparr>lastReceiveTime := now\<rparr>) s) = Some s'' \<and> srv_ok up s''"
      by (intro IH) (simp_all add: jump_ok)
    then show ?thesis using jump lk c
      by (simp only: e onTimer_loop.simps option.case if_True if_False Let_def)
  next
    case recent
    then show ?thesis using lk c Cons.prems(1)
      by (simp only: e onTimer_loop.simps option.case if_True if_False Let_def) simp
  qed
qed

lemma onTimer_total:
  assumes "srv_ok up s" "lock_law api" "\<forall>c\<in>up. tcp_lock api (net s) c"
  shows "\<exists>s'. onTimer api now s = Some s' \<and> srv_ok up s'"
  unfolding onTimer_def using onTimer_loop_total [OF assms(1) subset_refl assms(2,3)] .

section \<open>Read events\<close>

lemma split_frames_length:
  "split_frames codec_ok bs = (ms, rest, bad) \<Longrightarrow> m \<in> set ms \<Longrightarrow> length m \<le> 65536"
proof (induction codec_ok bs arbitrary: ms rule: split_frames.induct)
  case (1 bs)
  show ?case
  proof (cases "4 \<le> length bs \<and> 0 \<le> header bs \<and> codec_ok (header bs) \<and> 4 + nat (header bs) \<le> length bs")
    case True
    then obtain ms' where ms': "split_frames codec_ok (drop (4 + nat (header bs)) bs) = (ms', rest, bad)"
      "ms = take (nat (header bs)) (drop 4 bs) # ms'"
      using "1.prems"(1) by (auto simp: split_frames_full split: prod.splits)
    have "length (take (nat (header bs)) (drop 4 bs)) \<le> 65536" using True by (auto simp: codec_ok_def)
    then show ?thesis using "1.hyps" [OF _ _ _ ms'(1)] "1.prems"(2) ms'(2) True by auto
  next
    case False
    then have "ms = []" using "1.prems"(1) by (auto simp: split_frames.simps [of codec_ok bs] split: if_splits)
    then show ?thesis using "1.prems"(2) by simp
  qed
qed

lemma onMessage_keeps:
  assumes "srv_ok up s" "c \<in> up" "send_law api wire" "length m < 2 ^ 31" "onMessage api s c m t = Some s'"
  shows "srv_ok up s'"
proof (cases "send_blocked api c m s")
  case True
  then show ?thesis using onMessage_blocked [OF assms(3,4) True] assms(5) by simp
next
  case False
  then show ?thesis using onMessage_total [OF assms(1-4) False] assms(5) by (metis option.inject)
qed

lemma deliver_keeps:
  assumes "srv_ok up s" "c \<in> up" "send_law api wire" "\<forall>m\<in>set ms. length m < 2 ^ 31"
    "deliver (onMessage api) c t ms s = Some s'"
  shows "srv_ok up s'"
  using assms
  by (induction ms arbitrary: s) (auto split: option.splits dest: onMessage_keeps)

lemma onSegment_keeps:
  assumes "srv_ok up s" "c \<in> up" "send_law api wire" "buf_ok buf"
    "onSegment api c t seg (buf, s) = Some (buf', s')"
  shows "srv_ok up s' \<and> buf_ok buf'"
proof -
  obtain ms rest bad where sf: "split_frames codec_ok (buf_contents buf @ seg) = (ms, rest, bad)"
    by (cases "split_frames codec_ok (buf_contents buf @ seg)")
  obtain b1 where b1: "buf_ok b1" "onSegment api c t seg (buf, s) =
       map_option (\<lambda>s'. (b1, if bad then s'\<lparr>net := tcp_shutdown api c (net s')\<rparr> else s'))
         (deliver (onMessage api) c t ms s)"
    unfolding onSegment_def by (rule on_segment_refines [OF assms(4) sf])
  then obtain s1 where s1: "deliver (onMessage api) c t ms s = Some s1" "buf' = b1"
      "s' = (if bad then s1\<lparr>net := tcp_shutdown api c (net s1)\<rparr> else s1)"
    using assms(5) by (cases "deliver (onMessage api) c t ms s") auto
  have "\<forall>m\<in>set ms. length m < 2 ^ 31"
    using split_frames_length [OF sf] by fastforce
  then have "srv_ok up s1" using deliver_keeps [OF assms(1-3)] s1(1) by blast
  then show ?thesis using s1(2,3) b1(1) by simp
qed

end
