(* ===== verification/P2p_Server_Relay.thy ===== *)
theory P2p_Server_Relay
  imports P2p_Server_Inv
begin

text \<open>
  The server in its environment. A state \<open>relay\<close> adds to the server the connections that are up
  and the input buffer the network library keeps for each; a step is one callback of the library
  (connection up, connection down, bytes readable, timer) or any change of the network state
  between callbacks. The locale \<open>invariant_system\<close> is interpreted on these steps, and the properties
  of the callbacks follow for every reachable state: which callbacks can abort, who owns a device
  id, what is written to whom.
\<close>

record 'n relay =
  srv :: "'n p2pServer"
  up :: "conn set"
  inbuf :: "conn \<Rightarrow> Buffer"

inductive relay_step :: "'n tcp_api \<Rightarrow> 'n relay \<Rightarrow> 'n relay \<Rightarrow> bool" for api where
  conn_up: "connContext (srv r) c = None \<Longrightarrow> connected api (net (srv r)) c \<Longrightarrow>
    onConnection api now c (srv r) = Some s' \<Longrightarrow> Buffer_new kInitialSize = Some b \<Longrightarrow>
    relay_step api r (r\<lparr>srv := s', up := insert c (up r), inbuf := (inbuf r)(c := b)\<rparr>)"
| conn_down: "c \<in> up r \<Longrightarrow> \<not> connected api (net (srv r)) c \<Longrightarrow>
    onConnection api now c (srv r) = Some s' \<Longrightarrow>
    relay_step api r (r\<lparr>srv := s', up := up r - {c}\<rparr>)"
| readable: "c \<in> up r \<Longrightarrow> onSegment api c now seg (inbuf r c, srv r) = Some (b, s') \<Longrightarrow>
    relay_step api r (r\<lparr>srv := s', inbuf := (inbuf r)(c := b)\<rparr>)"
| timer: "\<forall>c\<in>up r. tcp_lock api (net (srv r)) c \<Longrightarrow> onTimer api now (srv r) = Some s' \<Longrightarrow>
    relay_step api r (r\<lparr>srv := s'\<rparr>)"
| network: "relay_step api r (r\<lparr>srv := (srv r)\<lparr>net := n\<rparr>\<rparr>)"

inductive_cases relay_stepE: "relay_step api r r'"

definition relay_start :: "'n relay \<Rightarrow> bool" where
  "relay_start r \<longleftrightarrow> (\<exists>idle n. srv r = p2pServer_new idle n) \<and> up r = {} \<and> (\<forall>c. buf_ok (inbuf r c))"

definition relay_ok :: "'n relay \<Rightarrow> bool" where
  "relay_ok r \<longleftrightarrow> srv_ok (up r) (srv r) \<and> (\<forall>c. buf_ok (inbuf r c))"

lemma srv_ok_new: "srv_ok {} (p2pServer_new idle n)"
  by (simp add: srv_ok_def nodes_ok_def infos_ok_def down_ok_def p2pServer_new_def)

lemma relay_step_ok:
  assumes "send_law api wire" "lock_law api" "relay_ok r" "relay_step api r r'"
  shows "relay_ok r'"
  using assms(4)
proof cases
  case (conn_up c now s' b)
  then show ?thesis
    using onConnection_up [of "up r" "srv r" c api now] Buffer_new_ok [of kInitialSize] assms(3)
    by (auto simp: relay_ok_def)
next
  case (conn_down c now s')
  then show ?thesis
    using onConnection_down [of "up r" "srv r" c api now] assms(3) by (auto simp: relay_ok_def)
next
  case (readable c now seg b s')
  then show ?thesis
    using onSegment_keeps [OF _ readable(2) assms(1) _ readable(3)] assms(3) by (auto simp: relay_ok_def)
next
  case (timer now s')
  then show ?thesis
    using onTimer_total [OF _ assms(2) timer(2), of now] assms(3) by (auto simp: relay_ok_def)
next
  case (network n)
  then show ?thesis using assms(3) by (simp add: relay_ok_def)
qed

interpretation relay: invariant_system relay_start "relay_step api"
  "\<lambda>r. send_law api wire \<and> lock_law api \<longrightarrow> relay_ok r" for api wire
proof unfold_locales
  fix s :: "'a relay"
  assume "relay_start s"
  then show "send_law api wire \<and> lock_law api \<longrightarrow> relay_ok s"
    by (auto simp: relay_start_def relay_ok_def srv_ok_new)
next
  fix s t :: "'a relay"
  assume "send_law api wire \<and> lock_law api \<longrightarrow> relay_ok s" "relay_step api s t"
  then show "send_law api wire \<and> lock_law api \<longrightarrow> relay_ok t" using relay_step_ok by blast
qed

lemma reachable_ok:
  assumes "send_law api wire" "lock_law api" "relay_start r0" "(relay_step api)\<^sup>*\<^sup>* r0 r"
  shows "srv_ok (up r) (srv r)"
  using relay.reachable_good [OF assms(3,4), of wire] assms(1,2) by (simp add: relay_ok_def)

section \<open>What is written to the connections\<close>

lemma wire_fold_send:
  assumes "send_law api wire" "distinct cs"
  shows "wire (fold (\<lambda>c. tcp_send api c bs) cs n) =
     (\<lambda>c. if c \<in> set cs then wire n c @ bs else wire n c)"
  using assms(2)
  by (induction cs arbitrary: n) (auto simp: send_law_wire [OF assms(1)] fun_eq_iff)

lemma registerDeviceFunc_wire:
  assumes "shutdown_law api wire" "registerDeviceFunc api c d s = Some s'"
  shows "wire (net s') = wire (net s)"
  using assms
  by (auto simp: registerDeviceFunc_def getConnInfo_def Let_def bind_eq_Some_conv shutdown_law_def
      split: option.splits if_splits)

lemma subscribeDeviceFunc_net: "subscribeDeviceFunc c d s = Some (r, s') \<Longrightarrow> net s' = net s"
  by (auto simp: subscribeDeviceFunc_def getConnInfo_def bind_eq_Some_conv
      split: option.splits if_splits)

lemma unsubscribeDeviceFunc_net: "unsubscribeDeviceFunc c d s = Some s' \<Longrightarrow> net s' = net s"
  by (auto simp: unsubscribeDeviceFunc_def getConnInfo_def bind_eq_Some_conv
      split: option.splits if_splits)

lemma unsubscribeAll_net: "unsubscribeAll c s = Some s' \<Longrightarrow> net s' = net s"
proof (induction c s rule: unsubscribeAll.induct)
  case (1 c s)
  then show ?case
    by (auto simp: unsubscribeAll.simps [of c s] unsubscribeDeviceFunc_net split: option.splits list.splits)
qed

lemma unregisterDeviceFunc_net: "unregisterDeviceFunc c s = Some s' \<Longrightarrow> net s' = net s"
  by (auto simp: unregisterDeviceFunc_def Let_def bind_eq_Some_conv unsubscribeAll_net split: if_splits)

lemma heartBeatFunc_net: "heartBeatFunc c t s = Some s' \<Longrightarrow> net s' = net s"
  by (auto simp: heartBeatFunc_def bind_eq_Some_conv)

definition reply :: "ProtocolCode \<Rightarrow> CallBackStatus \<Rightarrow> bytes" where
  "reply cmd r = frame [code cmd OR CALL_BACK_MASK, status r]"

lemma callbackFunc_wire:
  "send_law api wire \<Longrightarrow> callbackFunc api c cmd r s = Some s' \<Longrightarrow>
     wire (net s') = (wire (net s))(c := wire (net s) c @ reply cmd r)"
  by (auto simp: callbackFunc_frame reply_def send_law_wire)

text \<open>Every command but \<^verbatim>\<open>SEND_DATA\<close> writes exactly one reply, to the connection it came from.\<close>

lemma onMessage_reply:
  assumes law: "send_law api wire" "shutdown_law api wire"
    and m: "message0 m = code cmd" "cmd \<noteq> SEND_DATA" and s': "onMessage api s c m t = Some s'"
  shows "\<exists>r. wire (net s') = (wire (net s))(c := wire (net s) c @ reply cmd r)"
proof -
  note nets = registerDeviceFunc_wire [OF law(2)] subscribeDeviceFunc_net unsubscribeDeviceFunc_net
    unregisterDeviceFunc_net heartBeatFunc_net
  have fin: "\<exists>r. wire (net s') = (wire (net s))(c := wire (net s) c @ reply p r)"
    if "callbackFunc api c p r s1 = Some s'" "wire (net s1) = wire (net s)" for p r s1
    using callbackFunc_wire [OF law(1) that(1)] that(2) by auto
  show ?thesis
    using m s'
    by (cases cmd) (auto simp: onMessage_def bind_eq_Some_conv dest!: nets intro!: fin)
qed

lemma onMessage_unknown:
  "message0 m \<notin> range code \<Longrightarrow> onMessage api s c m t = Some s"
  by (auto simp: onMessage_def) (metis rangeI code.simps)+

section \<open>Example states\<close>

text \<open>Three connections on the simulated network: 1 is device \<open>A\<close>, 2 is device \<open>B\<close> and listens to \<open>A\<close>.\<close>

definition ex_net :: sim_net where
  "ex_net = \<lparr>sim_state = (\<lambda>_. kConnected), sim_wire = (\<lambda>_. [])\<rparr>"

definition ex_info :: "bytes \<Rightarrow> nat \<Rightarrow> bytes list \<Rightarrow> conn list \<Rightarrow> ConnInfo" where
  "ex_info d pos subs outs = \<lparr>deviceId = d, lastReceiveTime = Timestamp 0, position = pos,
     subscribeIdList = subs, sendToList = outs\<rparr>"

definition ex_srv :: "sim_net p2pServer" where
  "ex_srv = \<lparr>idleSeconds = 300, connectionList = [(0, 1), (1, 2), (2, 3)], nextNode = 3,
     connections = [[65] \<mapsto> 1, [66] \<mapsto> 2],
     connContext = [1 \<mapsto> ex_info [65] 0 [] [2], 2 \<mapsto> ex_info [66] 1 [[65]] [], 3 \<mapsto> ex_info delete_id 2 [] []],
     net = ex_net\<rparr>"

lemma ex_srv_ok: "srv_ok {1, 2, 3} ex_srv"
  by (auto simp: srv_ok_def nodes_ok_def infos_ok_def info_ok_def down_ok_def ex_srv_def ex_info_def
      delete_id_def ran_def split: if_splits)

section \<open>Properties of the relay\<close>

text \<open>
  C1. Bookkeeping invariant: in every state the server can reach, the connection list holds
  exactly the connections that are up, every stored iterator is valid, every connection reachable
  through the registry or a recipient list has a context, the per-connection lists have no
  duplicates, and a connection with a device id is the one registered under it.
\<close>

theorem reachable_srv_ok:
  assumes "send_law api wire" "lock_law api" "relay_start r0" "(relay_step api)\<^sup>*\<^sup>* r0 r"
  shows "srv_ok (up r) (srv r)"
  using assms by (rule reachable_ok)

definition ex_relay :: "sim_net relay" where
  "ex_relay = \<lparr>srv = p2pServer_new 300 ex_net, up = {},
     inbuf = (\<lambda>_. \<lparr>buffer = replicate 8 0, readerIndex = 8, writerIndex = 8\<rparr>)\<rparr>"

lemma ex_relay_start: "relay_start ex_relay"
  by (auto simp: relay_start_def ex_relay_def buf_ok_def const_simps)

lemma ex_relay_up:
  obtains r where "relay_step sim_api ex_relay r" "up r = {7}"
proof -
  have n: "net (srv ex_relay) = ex_net" "connContext (srv ex_relay) 7 = None"
    by (simp_all add: ex_relay_def p2pServer_new_def)
  have c: "connected sim_api (net (srv ex_relay)) 7" by (simp add: n sim_connected ex_net_def)
  obtain s' where s': "onConnection sim_api (Timestamp 5) 7 (srv ex_relay) = Some s'"
    using c by (simp add: onConnection_def Let_def)
  obtain b where b: "Buffer_new kInitialSize = Some b" using Buffer_new_ok by blast
  show thesis
    by (rule that [OF relay_step.conn_up [OF n(2) c s' b]]) (simp add: ex_relay_def)
qed

text \<open>A segment that is one frame, on a connection with an empty input buffer, is one message.\<close>

lemma relay_message:
  assumes "c \<in> up r" "buf_ok (inbuf r c)" "buf_contents (inbuf r c) = []" "length m \<le> 65536"
    and "onMessage api (srv r) c m now = Some s'"
  obtains b where "buf_ok b" "buf_contents b = []"
    "relay_step api r (r\<lparr>srv := s', inbuf := (inbuf r)(c := b)\<rparr>)"
proof -
  have "split_frames codec_ok (buf_contents (inbuf r c) @ frame m) = ([m], [], False)"
    using split_frames_frame [of m codec_ok "[]"] assms(3,4) by (simp add: split_frames_short codec_ok_def)
  from on_segment_refines [OF assms(2) this] obtain b where
    b: "buf_ok b" "buf_contents b = []" "onSegment api c now (frame m) (inbuf r c, srv r) = Some (b, s')"
    unfolding onSegment_def using assms(5) by (metis (no_types, lifting) deliver.simps option.case(2) option.map(2))
  show thesis by (rule that [OF b(1,2) relay_step.readable [OF assms(1) b(3)]])
qed

lemma ex_relay_registered:
  obtains r info where "(relay_step sim_api)\<^sup>*\<^sup>* ex_relay r" "connContext (srv r) 7 = Some info" "deviceId info = [65]"
proof -
  have n: "net (srv ex_relay) = ex_net" "connContext (srv ex_relay) 7 = None"
    by (simp_all add: ex_relay_def p2pServer_new_def)
  have c: "connected sim_api (net (srv ex_relay)) 7" by (simp add: n sim_connected ex_net_def)
  define s1 where "s1 = the (onConnection sim_api (Timestamp 5) 7 (srv ex_relay))"
  have s1: "onConnection sim_api (Timestamp 5) 7 (srv ex_relay) = Some s1"
      "connContext s1 7 = Some \<lparr>deviceId = delete_id, lastReceiveTime = Timestamp 5, position = 0,
          subscribeIdList = [], sendToList = []\<rparr>" "connections s1 = Map.empty"
    using c by (simp_all add: s1_def onConnection_def Let_def ex_relay_def p2pServer_new_def)
  obtain b where b: "Buffer_new kInitialSize = Some b" "buf_ok b" "buf_contents b = []" using Buffer_new_ok by blast
  let ?r = "ex_relay\<lparr>srv := s1, up := insert 7 (up ex_relay), inbuf := (inbuf ex_relay)(7 := b)\<rparr>"
  have step1: "relay_step sim_api ex_relay ?r" by (rule relay_step.conn_up [OF n(2) c s1(1) b(1)])
  have "onMessage sim_api s1 7 [1, 65] (Timestamp 6) \<noteq> None"
    using s1(2,3) by (simp add: onMessage_def message0_def registerDeviceFunc_def getConnInfo_def callbackFunc_frame)
  then obtain s2 where s2: "onMessage sim_api s1 7 [1, 65] (Timestamp 6) = Some s2" by blast
  then have info: "\<exists>info. connContext s2 7 = Some info \<and> deviceId info = [65]"
    using s1(2,3) by (auto simp: onMessage_def message0_def registerDeviceFunc_def getConnInfo_def callbackFunc_frame)
  obtain b' where step2: "relay_step sim_api ?r (?r\<lparr>srv := s2, inbuf := (inbuf ?r)(7 := b')\<rparr>)"
    by (rule relay_message [of 7 ?r "[1, 65]" sim_api "Timestamp 6" s2]) (use b s2 in auto)
  have "(relay_step sim_api)\<^sup>*\<^sup>* ex_relay (?r\<lparr>srv := s2, inbuf := (inbuf ?r)(7 := b')\<rparr>)"
    using step1 step2 by (meson converse_rtranclp_into_rtranclp r_into_rtranclp)
  from that [OF this] show thesis using info by auto
qed

theorem reachable_srv_ok_witness:
  "\<exists>r. (relay_step sim_api)\<^sup>*\<^sup>* ex_relay r \<and> up r = {7} \<and> srv_ok (up r) (srv r)"
proof -
  obtain r where r: "relay_step sim_api ex_relay r" "up r = {7}" by (rule ex_relay_up)
  then have s: "(relay_step sim_api)\<^sup>*\<^sup>* ex_relay r" by simp
  show ?thesis
    using reachable_srv_ok [OF sim_laws(1,3) ex_relay_start s] s r(2) by blast
qed

text \<open>
  C2. Which messages can abort the server: in every reachable state and for every message the
  codec can deliver, \<^verbatim>\<open>onMessage\<close> returns unless the message is \<^verbatim>\<open>SEND_DATA\<close> and one of the sender's
  recipients is not connected; in that case the invalidated iterator of \<^verbatim>\<open>sendDataFunc\<close> is used
  and the behaviour is undefined.
\<close>

theorem onMessage_aborts_iff:
  assumes "send_law api wire" "lock_law api" "relay_start r0" "(relay_step api)\<^sup>*\<^sup>* r0 r"
    and "c \<in> up r" "length m \<le> 65536"
  shows "onMessage api (srv r) c m t = None \<longleftrightarrow> send_blocked api c m (srv r)"
proof -
  have l: "length m < 2 ^ 31" using assms(6) by simp
  show ?thesis
    using onMessage_total [OF reachable_ok [OF assms(1-4)] assms(5,1) l, of t]
      onMessage_blocked [OF assms(1) l, of c "srv r" t]
    by (cases "send_blocked api c m (srv r)") auto
qed

theorem onMessage_aborts_iff_witness:
  "\<exists>r. (relay_step sim_api)\<^sup>*\<^sup>* ex_relay r \<and> 7 \<in> up r \<and> length ([1, 65] :: bytes) \<le> 65536 \<and>
     (onMessage sim_api (srv r) 7 [1, 65] (Timestamp 9) = None \<longleftrightarrow> send_blocked sim_api 7 [1, 65] (srv r))"
proof -
  obtain r where r: "relay_step sim_api ex_relay r" "up r = {7}" by (rule ex_relay_up)
  then have s: "(relay_step sim_api)\<^sup>*\<^sup>* ex_relay r" by simp
  have l: "length ([1, 65] :: bytes) \<le> 65536" "7 \<in> up r" using r(2) by simp_all
  show ?thesis
    using onMessage_aborts_iff [OF sim_laws(1,3) ex_relay_start s l(2,1)] s l by blast
qed

text \<open>
  C12. The connection and timer callbacks never abort in a reachable state: a new connection is
  entered, a closing connection's iterator is valid when it is erased, and the timer's walk over
  the connection list is defined as long as the weak pointers of live connections lock.
\<close>

theorem lifecycle_callbacks_total:
  assumes "send_law api wire" "lock_law api" "relay_start r0" "(relay_step api)\<^sup>*\<^sup>* r0 r"
  shows "(connContext (srv r) c = None \<and> connected api (net (srv r)) c \<longrightarrow>
            onConnection api t c (srv r) \<noteq> None) \<and>
    (c \<in> up r \<and> \<not> connected api (net (srv r)) c \<longrightarrow> onConnection api t c (srv r) \<noteq> None) \<and>
    ((\<forall>c\<in>up r. tcp_lock api (net (srv r)) c) \<longrightarrow> onTimer api t (srv r) \<noteq> None)"
  using onConnection_up [OF reachable_ok [OF assms], of c api t]
    onConnection_down [OF reachable_ok [OF assms], of c api t]
    onTimer_total [OF reachable_ok [OF assms] assms(2), of t] by auto

theorem lifecycle_callbacks_total_witness:
  "\<exists>r. (relay_step sim_api)\<^sup>*\<^sup>* ex_relay r \<and> up r = {7} \<and>
     onTimer sim_api (Timestamp 9) (srv r) \<noteq> None"
proof -
  obtain r where r: "relay_step sim_api ex_relay r" "up r = {7}" by (rule ex_relay_up)
  then have s: "(relay_step sim_api)\<^sup>*\<^sup>* ex_relay r" by simp
  have "\<forall>c\<in>up r. tcp_lock sim_api (net (srv r)) c" by (simp add: sim_api_def)
  then show ?thesis
    using lifecycle_callbacks_total [OF sim_laws(1,3) ex_relay_start s] s r(2) by blast
qed

text \<open>
  Device ids are unique: in every reachable state two connections with the same registered
  device id are the same connection.
\<close>

theorem device_id_unique:
  assumes "send_law api wire" "lock_law api" "relay_start r0" "(relay_step api)\<^sup>*\<^sup>* r0 r"
    and "connContext (srv r) c = Some i" "connContext (srv r) c' = Some i'"
    and "deviceId i = deviceId i'" "deviceId i \<noteq> delete_id"
  shows "c = c'"
  using srv_ok_registered [OF reachable_ok [OF assms(1-4)] assms(5)]
    srv_ok_registered [OF reachable_ok [OF assms(1-4)] assms(6)] assms(7,8) by simp

theorem device_id_unique_witness:
  "\<exists>r info. (relay_step sim_api)\<^sup>*\<^sup>* ex_relay r \<and> connContext (srv r) 7 = Some info \<and>
     deviceId info = [65] \<and> (\<forall>c i. connContext (srv r) c = Some i \<and> deviceId i = [65] \<longrightarrow> c = 7)"
proof -
  obtain r info where r: "(relay_step sim_api)\<^sup>*\<^sup>* ex_relay r" "connContext (srv r) 7 = Some info" "deviceId info = [65]"
    by (rule ex_relay_registered)
  have d: "[65] \<noteq> delete_id" by (simp add: delete_id_def)
  show ?thesis
    using r d device_id_unique [OF sim_laws(1,3) ex_relay_start r(1) _ r(2)] by metis
qed

lemma onMessage_relays:
  assumes "send_law api wire" "srv_ok live s" "connContext s c = Some info"
    and "message0 m = code SEND_DATA" "length m \<le> 65536"
    and "\<forall>r\<in>set (sendToList info). connected api (net s) r"
  shows "\<exists>n. onMessage api s c m t = Some (s\<lparr>net := n\<rparr>) \<and>
    (\<forall>r. wire n r = wire (net s) r @ (if r \<in> set (sendToList info) then frame m else []) @
                     (if r = c then reply SEND_DATA EXEC_SUCCESS else []))"
proof -
  have l: "length m < 2 ^ 31" using assms(5) by simp
  have d: "distinct (sendToList info)" using srv_ok_info [OF assms(2,3)] by (simp add: info_ok_def)
  let ?n = "fold (\<lambda>r. tcp_send api r (frame m)) (sendToList info) (net s)"
  have "sendDataFunc api c m s = Some (s\<lparr>net := ?n\<rparr>)"
    using sendDataFunc_result [OF assms(1) l assms(3)] assms(6) by simp
  then have "onMessage api s c m t = Some (s\<lparr>net := tcp_send api c (reply SEND_DATA EXEC_SUCCESS) ?n\<rparr>)"
    using assms(4) by (simp add: onMessage_def callbackFunc_frame reply_def)
  then show ?thesis
    by (auto simp: send_law_wire [OF assms(1)] wire_fold_send [OF assms(1) d])
qed

text \<open>
  C13. \<^verbatim>\<open>SEND_DATA\<close> is delivered exactly once: when all recipients are connected the message is
  framed and written once to each connection on the sender's list and to nobody else, after which
  the sender gets one success reply; the bookkeeping does not change.
\<close>

theorem send_data_exactly_once:
  assumes "send_law api wire" "srv_ok live s" "connContext s c = Some info"
    and "message0 m = code SEND_DATA" "length m \<le> 65536"
    and "\<forall>r\<in>set (sendToList info). connected api (net s) r"
  shows "\<exists>n. onMessage api s c m t = Some (s\<lparr>net := n\<rparr>) \<and>
    (\<forall>r. wire n r = wire (net s) r @ (if r \<in> set (sendToList info) then frame m else []) @
                     (if r = c then reply SEND_DATA EXEC_SUCCESS else []))"
  by (rule onMessage_relays [OF assms])

theorem send_data_exactly_once_witness:
  "\<exists>n. onMessage sim_api ex_srv 1 [3, 104, 105] (Timestamp 0) = Some (ex_srv\<lparr>net := n\<rparr>) \<and>
     sim_wire n 2 = frame [3, 104, 105] \<and> sim_wire n 1 = reply SEND_DATA EXEC_SUCCESS \<and> sim_wire n 3 = []"
proof -
  have c: "connContext ex_srv 1 = Some (ex_info [65] 0 [] [2])" by (simp add: ex_srv_def)
  have r: "\<forall>r\<in>set (sendToList (ex_info [65] 0 [] [2])). connected sim_api (net ex_srv) r"
    by (simp add: ex_info_def ex_srv_def sim_connected ex_net_def)
  have m: "message0 [3, 104, 105] = code SEND_DATA" "length ([3, 104, 105] :: bytes) \<le> 65536"
    by (simp_all add: message0_def)
  have w: "sim_wire (net ex_srv) = (\<lambda>_. [])" "sendToList (ex_info [65] 0 [] [2]) = [2]"
    by (simp_all add: ex_srv_def ex_net_def ex_info_def)
  show ?thesis
    using send_data_exactly_once [OF sim_laws(1) ex_srv_ok c m r, of "Timestamp 0"]
    unfolding w by fastforce
qed

text \<open>
  Every command is answered exactly once: on a server in order, a command other than
  \<^verbatim>\<open>SEND_DATA\<close> returns and has written one reply frame, its code with the callback bit set and a status,
  to the connection it came from, and nothing to any other connection.
\<close>

theorem command_answered_once:
  assumes "send_law api wire" "shutdown_law api wire" "srv_ok live s" "c \<in> live" "length m \<le> 65536"
    and "message0 m = code cmd" "cmd \<noteq> SEND_DATA"
  shows "\<exists>s' r. onMessage api s c m t = Some s' \<and>
    wire (net s') = (wire (net s))(c := wire (net s) c @ frame [code cmd OR 0x80, status r])"
proof -
  have "code cmd \<noteq> code SEND_DATA" using assms(7) by (cases cmd) auto
  then obtain s' where s': "onMessage api s c m t = Some s'"
    using onMessage_total [OF assms(3,4,1), of m t] assms(5,6) by (auto simp: send_blocked_def)
  show ?thesis
    using onMessage_reply [OF assms(1,2,6,7) s'] s' by (auto simp: reply_def CALL_BACK_MASK_def)
qed

theorem command_answered_once_witness:
  "\<exists>s' r. onMessage sim_api ex_srv 2 [6, 65] (Timestamp 0) = Some s' \<and>
     sim_wire (net s') = (sim_wire (net ex_srv))(2 := sim_wire (net ex_srv) 2 @ frame [code CHECK_DEVICE_ALIVE OR 0x80, status r])"
proof -
  have m: "message0 [6, 65] = code CHECK_DEVICE_ALIVE" "length ([6, 65] :: bytes) \<le> 65536" by (simp_all add: message0_def)
  show ?thesis
    using command_answered_once [OF sim_laws(1,2) ex_srv_ok _ m(2,1)] by simp
qed

end
