(* ===== verification/P2p_Server_Spec.thy ===== *)
theory P2p_Server_Spec
  imports P2p_Server_Relay
begin

text \<open>
  What the relay promises its users, as operations on sets, and the proof that the handlers
  implement it. An abstract state \<open>pubsub\<close> says who owns a device id, under which id a connection
  is registered, which connection is subscribed to which id, and who receives what a connection
  sends. \<open>pubsub_of\<close> reads it off the lists of the server; the lemmas \<open>\<dots>_refines\<close> say that each
  handler does on the lists what the specification does on the sets, in particular that the loop
  of \<^verbatim>\<open>unregisterDeviceFunc\<close> removes all subscriptions of a connection.
\<close>

record pubsub =
  owner :: "bytes \<rightharpoonup> conn"
  ident :: "conn \<rightharpoonup> bytes"
  subs :: "(conn \<times> bytes) set"
  outs :: "(conn \<times> conn) set"

definition pubsub_of :: "'n p2pServer \<Rightarrow> pubsub" where
  "pubsub_of s =
     \<lparr>owner = connections s,
      ident = (\<lambda>c. map_option deviceId (connContext s c)),
      subs = {(c, d). \<exists>info. connContext s c = Some info \<and> d \<in> set (subscribeIdList info)},
      outs = {(p, c). \<exists>info. connContext s p = Some info \<and> c \<in> set (sendToList info)}\<rparr>"

section \<open>The specification\<close>

definition spec_register :: "conn \<Rightarrow> bytes \<Rightarrow> pubsub \<Rightarrow> pubsub" where
  "spec_register c d a =
     a\<lparr>owner := (owner a)(d \<mapsto> c),
       ident := (case owner a d of
                   Some old \<Rightarrow> if old = c then (ident a)(c \<mapsto> d) else (ident a)(old \<mapsto> delete_id, c \<mapsto> d)
                 | None \<Rightarrow> (ident a)(c \<mapsto> d))\<rparr>"

definition spec_subscribe :: "conn \<Rightarrow> bytes \<Rightarrow> pubsub \<Rightarrow> CallBackStatus \<times> pubsub" where
  "spec_subscribe c d a =
     (case owner a d of
        None \<Rightarrow> (EXEC_FAIL, a)
      | Some p \<Rightarrow> if ident a c = Some d then (EXEC_FAIL, a)
                 else (EXEC_SUCCESS, a\<lparr>subs := insert (c, d) (subs a), outs := insert (p, c) (outs a)\<rparr>))"

definition spec_unsubscribe :: "conn \<Rightarrow> bytes \<Rightarrow> pubsub \<Rightarrow> pubsub" where
  "spec_unsubscribe c d a =
     (if (c, d) \<in> subs a
      then a\<lparr>subs := subs a - {(c, d)}, outs := outs a - {(p, c) |p. owner a d = Some p}\<rparr> else a)"

definition spec_drop_subscriptions :: "conn \<Rightarrow> pubsub \<Rightarrow> pubsub" where
  "spec_drop_subscriptions c a =
     a\<lparr>subs := {x \<in> subs a. fst x \<noteq> c},
       outs := outs a - {(p, c) |p d. (c, d) \<in> subs a \<and> owner a d = Some p}\<rparr>"

definition spec_unregister :: "conn \<Rightarrow> pubsub \<Rightarrow> pubsub" where
  "spec_unregister c a =
     (let a = spec_drop_subscriptions c a; a = a\<lparr>outs := {x \<in> outs a. fst x \<noteq> c}\<rparr> in
      case ident a c of
        Some d \<Rightarrow> if d = delete_id then a
                 else a\<lparr>owner := (owner a)(d := None), ident := (ident a)(c \<mapsto> delete_id)\<rparr>
      | None \<Rightarrow> a)"

section \<open>The handlers implement it\<close>

lemma pubsub_of_net [simp]: "pubsub_of (s\<lparr>net := n\<rparr>) = pubsub_of s"
  by (simp add: pubsub_of_def)

lemma pubsub_of_list [simp]: "pubsub_of (s\<lparr>connectionList := xs\<rparr>) = pubsub_of s"
  by (simp add: pubsub_of_def)

lemma pubsub_of_connections [simp]: "pubsub_of (s\<lparr>connections := m\<rparr>) = (pubsub_of s)\<lparr>owner := m\<rparr>"
  by (simp add: pubsub_of_def)

lemma pubsub_of_owner [simp]: "owner (pubsub_of s) = connections s"
  by (simp add: pubsub_of_def)

lemma pubsub_of_setConnInfo:
  assumes "connContext s c = Some info"
  shows "pubsub_of (setConnInfo c info' s) =
     (pubsub_of s)\<lparr>ident := (ident (pubsub_of s))(c \<mapsto> deviceId info'),
        subs := {x \<in> subs (pubsub_of s). fst x \<noteq> c} \<union> {c} \<times> set (subscribeIdList info'),
        outs := {x \<in> outs (pubsub_of s). fst x \<noteq> c} \<union> {c} \<times> set (sendToList info')\<rparr>"
  using assms by (auto simp: pubsub_of_def fun_eq_iff split: if_splits)

lemma pubsub_of_simps:
  assumes "connContext s c = Some info"
  shows "owner (pubsub_of s) = connections s" "ident (pubsub_of s) c = Some (deviceId info)"
    "(c, d) \<in> subs (pubsub_of s) \<longleftrightarrow> d \<in> set (subscribeIdList info)"
    "(c, r) \<in> outs (pubsub_of s) \<longleftrightarrow> r \<in> set (sendToList info)"
  using assms by (auto simp: pubsub_of_def)

text \<open>Updating one context without touching a component leaves that component alone.\<close>

lemma pubsub_of_update:
  assumes c: "connContext s c = Some info"
  shows "deviceId info' = deviceId info \<Longrightarrow> ident (pubsub_of (setConnInfo c info' s)) = ident (pubsub_of s)"
    and "subscribeIdList info' = subscribeIdList info \<Longrightarrow> subs (pubsub_of (setConnInfo c info' s)) = subs (pubsub_of s)"
    and "sendToList info' = sendToList info \<Longrightarrow> outs (pubsub_of (setConnInfo c info' s)) = outs (pubsub_of s)"
    and "owner (pubsub_of (setConnInfo c info' s)) = owner (pubsub_of s)"
  using c by (auto simp: pubsub_of_def fun_eq_iff split: if_splits)

lemma pubsub_eqI:
  "owner a = owner b \<Longrightarrow> ident a = ident b \<Longrightarrow> subs a = subs b \<Longrightarrow> outs a = outs b \<Longrightarrow> a = (b :: pubsub)"
  by simp

lemma register_refines:
  assumes ok: "srv_ok live s" and c: "connContext s c = Some info"
    and s': "registerDeviceFunc api c d s = Some s'"
  shows "pubsub_of s' = spec_register c d (pubsub_of s)"
proof (cases "connections s d")
  case None
  then have "s' = (setConnInfo c (info\<lparr>deviceId := d\<rparr>) s)\<lparr>connections := (connections s)(d \<mapsto> c)\<rparr>"
    using s' c by (simp add: registerDeviceFunc_def getConnInfo_def)
  then show ?thesis using None c
    by (auto simp: spec_register_def pubsub_of_simps [OF c] pubsub_of_update [OF c] intro!: pubsub_eqI)
      (auto simp: pubsub_of_setConnInfo [OF c])
next
  case (Some old)
  obtain oi where oi: "connContext s old = Some oi" using srv_ok_connections [OF ok Some] by blast
  show ?thesis
  proof (cases "old = c")
    case True
    then have "s' = setConnInfo c (info\<lparr>deviceId := d\<rparr>) s"
      using s' c Some by (simp add: registerDeviceFunc_def getConnInfo_def)
    then show ?thesis using Some True c
      by (auto simp: spec_register_def pubsub_of_simps [OF c] pubsub_of_update [OF c] fun_upd_idem intro!: pubsub_eqI)
        (auto simp: pubsub_of_setConnInfo [OF c])
  next
    case False
    let ?s1 = "setConnInfo c (info\<lparr>deviceId := d\<rparr>) s"
    have oi1: "connContext ?s1 old = Some oi" using oi False by simp
    have "s' = (setConnInfo old (oi\<lparr>deviceId := delete_id\<rparr>) ?s1)
        \<lparr>connections := (connections s)(d \<mapsto> c), net := tcp_shutdown api old (net s)\<rparr>"
      using s' c Some False oi by (simp add: registerDeviceFunc_def getConnInfo_def)
    then show ?thesis using Some False
      by (auto simp: spec_register_def pubsub_of_simps [OF c] pubsub_of_update [OF c] pubsub_of_update [OF oi1]
          intro!: pubsub_eqI)
        (auto simp: pubsub_of_setConnInfo [OF c] pubsub_of_setConnInfo [OF oi1] fun_upd_twist)
  qed
qed

text \<open>The two updates of \<^verbatim>\<open>subscribeDeviceFunc\<close>.\<close>

lemma pubsub_of_remember:
  assumes c: "connContext s c = Some info"
  shows "pubsub_of (setConnInfo c (subscribeIdListAdd d info) s) = (pubsub_of s)\<lparr>subs := insert (c, d) (subs (pubsub_of s))\<rparr>"
  using c by (intro pubsub_eqI) (auto simp: pubsub_of_def subscribeIdListAdd_def fun_eq_iff split: if_splits)

lemma pubsub_of_add:
  assumes p: "connContext s p = Some pinfo"
  shows "pubsub_of (setConnInfo p (sendToListAdd c pinfo) s) = (pubsub_of s)\<lparr>outs := insert (p, c) (outs (pubsub_of s))\<rparr>"
  using p by (intro pubsub_eqI) (auto simp: pubsub_of_def sendToListAdd_def fun_eq_iff split: if_splits)

lemma subscribe_refines:
  assumes ok: "srv_ok live s" and c: "connContext s c = Some info"
    and s': "subscribeDeviceFunc c d s = Some (r, s')"
  shows "(r, pubsub_of s') = spec_subscribe c d (pubsub_of s)"
proof (cases "connections s d")
  case None
  then show ?thesis using s' by (auto simp: subscribeDeviceFunc_def spec_subscribe_def)
next
  case (Some p)
  obtain pi where pi: "connContext s p = Some pi" using srv_ok_connections [OF ok Some] by blast
  show ?thesis
  proof (cases "d = deviceId info")
    case True
    then have "s' = s" "r = EXEC_FAIL" using s' Some c by (simp_all add: subscribeDeviceFunc_def getConnInfo_def)
    then show ?thesis using True Some by (simp add: spec_subscribe_def pubsub_of_simps [OF c])
  next
    case False
    let ?s1 = "setConnInfo c (subscribeIdListAdd d info) s"
    obtain pi' where pi': "connContext ?s1 p = Some pi'" using pi by (cases "p = c") auto
    have st: "r = EXEC_SUCCESS" "s' = setConnInfo p (sendToListAdd c pi') ?s1"
      using s' Some False c pi pi' by (auto simp: subscribeDeviceFunc_def getConnInfo_def)
    then show ?thesis using Some False
      by (simp add: spec_subscribe_def pubsub_of_simps [OF c] pubsub_of_add [OF pi'] pubsub_of_remember [OF c])
  qed
qed

text \<open>The two updates of \<^verbatim>\<open>unsubscribeDeviceFunc\<close>.\<close>

lemma pubsub_of_remove:
  assumes p: "connContext s p = Some pinfo"
  shows "pubsub_of (setConnInfo p (sendToListRemove c pinfo) s) = (pubsub_of s)\<lparr>outs := outs (pubsub_of s) - {(p, c)}\<rparr>"
  using p by (intro pubsub_eqI) (auto simp: pubsub_of_def sendToListRemove_def fun_eq_iff split: if_splits)

lemma pubsub_of_forget:
  assumes c: "connContext s c = Some info" and "distinct (subscribeIdList info)"
  shows "pubsub_of (setConnInfo c (info\<lparr>subscribeIdList := remove1 d (subscribeIdList info)\<rparr>) s) =
     (pubsub_of s)\<lparr>subs := subs (pubsub_of s) - {(c, d)}\<rparr>"
  using assms by (intro pubsub_eqI) (auto simp: pubsub_of_def fun_eq_iff set_remove1_eq split: if_splits)

lemma unsubscribe_refines:
  assumes ok: "srv_ok live s" and c: "connContext s c = Some info"
    and s': "unsubscribeDeviceFunc c d s = Some s'"
  shows "pubsub_of s' = spec_unsubscribe c d (pubsub_of s)"
proof (cases "d \<in> set (subscribeIdList info)")
  case False
  then have "s' = s" using s' c by (simp add: unsubscribeDeviceFunc_def getConnInfo_def)
  then show ?thesis using False by (simp add: spec_unsubscribe_def pubsub_of_simps [OF c])
next
  case True
  have mem: "(c, d) \<in> subs (pubsub_of s)" using True by (simp add: pubsub_of_simps [OF c])
  show ?thesis
  proof (cases "connections s d")
    case None
    have "distinct (subscribeIdList info)" using srv_ok_info [OF ok c] by (simp add: info_ok_def)
    then show ?thesis using s' c None True mem
      by (auto simp: unsubscribeDeviceFunc_def getConnInfo_def spec_unsubscribe_def pubsub_of_simps [OF c] pubsub_of_forget)
  next
    case (Some p)
    obtain pi where pi: "connContext s p = Some pi" using srv_ok_connections [OF ok Some] by blast
    let ?s1 = "setConnInfo p (sendToListRemove c pi) s"
    obtain i where i: "connContext ?s1 c = Some i" "subscribeIdList i = subscribeIdList info"
      using c pi by (cases "p = c") (auto simp: sendToListRemove_def)
    have dis: "distinct (subscribeIdList i)" using srv_ok_info [OF ok c] i(2) by (simp add: info_ok_def)
    have "s' = setConnInfo c (i\<lparr>subscribeIdList := remove1 d (subscribeIdList i)\<rparr>) ?s1"
      using s' c Some True pi i by (simp add: unsubscribeDeviceFunc_def getConnInfo_def)
    then have "pubsub_of s' = (pubsub_of s)\<lparr>outs := outs (pubsub_of s) - {(p, c)}, subs := subs (pubsub_of s) - {(c, d)}\<rparr>"
      using pubsub_of_forget [OF i(1) dis, of d] pubsub_of_remove [OF pi, of c] by simp
    then show ?thesis using mem Some by (simp add: spec_unsubscribe_def pubsub_of_simps [OF c])
  qed
qed

lemma unsubscribeAll_refines:
  assumes "srv_ok live s" "connContext s c = Some info" "unsubscribeAll c s = Some s'"
  shows "pubsub_of s' = spec_drop_subscriptions c (pubsub_of s)"
  using assms
proof (induction c s arbitrary: info rule: unsubscribeAll.induct)
  case (1 c s)
  note unf = unsubscribeAll.simps [of c s]
  show ?case
  proof (cases "subscribeIdList info")
    case Nil
    then have no: "(c, d) \<notin> subs (pubsub_of s)" for d using pubsub_of_simps(3) [OF "1.prems"(2)] by simp
    have "{x \<in> subs (pubsub_of s). fst x \<noteq> c} = subs (pubsub_of s)" using no by auto
    then show ?thesis using "1.prems" Nil no by (simp add: unf spec_drop_subscriptions_def)
  next
    case (Cons d ds)
    obtain s1 where s1: "unsubscribeDeviceFunc c d s = Some s1" "srv_ok live s1"
      using unsubscribeDeviceFunc_total [OF "1.prems"(1,2)] by blast
    obtain i1 where i1: "connContext s1 c = Some i1"
      using unsubscribe_shrinks [OF "1.prems"(2) _ s1(1)] Cons by auto
    have rest: "unsubscribeAll c s1 = Some s'" using "1.prems"(2,3) Cons s1(1) by (simp add: unf)
    have mem: "(c, d) \<in> subs (pubsub_of s)" using pubsub_of_simps(3) [OF "1.prems"(2)] Cons by simp
    have "pubsub_of s' = spec_drop_subscriptions c (spec_unsubscribe c d (pubsub_of s))"
      using "1.IH" [OF "1.prems"(2) Cons s1(1) s1(2) i1 rest] unsubscribe_refines [OF "1.prems"(1,2) s1(1)] by simp
    also have "\<dots> = spec_drop_subscriptions c (pubsub_of s)"
      using mem by (auto simp: spec_drop_subscriptions_def spec_unsubscribe_def intro!: pubsub_eqI)
    finally show ?thesis .
  qed
qed

lemma unregister_refines:
  assumes ok: "srv_ok live s" and c: "connContext s c = Some info" and s': "unregisterDeviceFunc c s = Some s'"
  shows "pubsub_of s' = spec_unregister c (pubsub_of s)"
proof -
  obtain s1 i1 where s1: "unsubscribeAll c s = Some s1" "connContext s1 c = Some i1"
    using unsubscribeAll_total [OF ok c] by blast
  let ?i2 = "sendToListClear i1"
  let ?s2 = "setConnInfo c ?i2 s1"
  have p1: "pubsub_of s1 = spec_drop_subscriptions c (pubsub_of s)" by (rule unsubscribeAll_refines [OF ok c s1(1)])
  have p2: "pubsub_of ?s2 = (pubsub_of s1)\<lparr>outs := {x \<in> outs (pubsub_of s1). fst x \<noteq> c}\<rparr>"
    using s1(2) by (intro pubsub_eqI) (auto simp: pubsub_of_def sendToListClear_def fun_eq_iff split: if_splits)
  have i2: "connContext ?s2 c = Some ?i2" "ident (pubsub_of ?s2) c = Some (deviceId i1)"
    using pubsub_of_simps(2) [of ?s2 c ?i2] by (simp_all add: sendToListClear_def)
  have own: "owner (pubsub_of ?s2) = connections s1" by (simp add: pubsub_of_def)
  show ?thesis
  proof (cases "deviceId i1 = delete_id")
    case True
    then have "s' = ?s2" using s' s1 by (simp add: unregisterDeviceFunc_def getConnInfo_def sendToListClear_def)
    then show ?thesis using True i2(2) p1 p2 by (simp add: spec_unregister_def Let_def)
  next
    case False
    then have e: "s' = (setConnInfo c (?i2\<lparr>deviceId := delete_id\<rparr>) ?s2)\<lparr>connections := (connections s1)(deviceId i1 := None)\<rparr>"
      using s' s1 by (auto simp: unregisterDeviceFunc_def getConnInfo_def sendToListClear_def Let_def)
    have "pubsub_of s' = (pubsub_of ?s2)\<lparr>owner := (connections s1)(deviceId i1 := None), ident := (ident (pubsub_of ?s2))(c \<mapsto> delete_id)\<rparr>"
      unfolding e using pubsub_of_update [OF i2(1), of "?i2\<lparr>deviceId := delete_id\<rparr>"]
      by (intro pubsub_eqI) (auto simp: pubsub_of_def fun_eq_iff)
    then show ?thesis using False i2(2) own p1 p2 by (simp add: spec_unregister_def Let_def)
  qed
qed

section \<open>Whole commands and callbacks\<close>

text \<open>
  What a command does to the abstract state and what it answers; \<open>alive\<close> tells which connections are
  connected.
\<close>

fun spec_command :: "(conn \<Rightarrow> bool) \<Rightarrow> ProtocolCode \<Rightarrow> conn \<Rightarrow> bytes \<Rightarrow> pubsub \<Rightarrow> CallBackStatus \<times> pubsub" where
  "spec_command alive REGISTER_DEVICE c d a = (EXEC_SUCCESS, spec_register c d a)"
| "spec_command alive SUBSCRIBE_DEVICE c d a = spec_subscribe c d a"
| "spec_command alive SEND_DATA c d a = (EXEC_SUCCESS, a)"
| "spec_command alive UNREGISTER_DEVICE c d a = (EXEC_SUCCESS, spec_unregister c a)"
| "spec_command alive UNSUBSCRIBE_DEVICE c d a = (EXEC_SUCCESS, spec_unsubscribe c d a)"
| "spec_command alive CHECK_DEVICE_ALIVE c d a =
     ((case owner a d of Some p \<Rightarrow> if alive p then EXEC_SUCCESS else EXEC_FAIL | None \<Rightarrow> EXEC_FAIL), a)"
| "spec_command alive HEART_BEAT c d a = (EXEC_SUCCESS, a)"

lemma heartBeat_pubsub: "heartBeatFunc c t s = Some s' \<Longrightarrow> pubsub_of s' = pubsub_of s"
  by (auto simp: heartBeatFunc_def getConnInfo_def bind_eq_Some_conv pubsub_of_def fun_eq_iff split: if_splits)

lemma onMessage_command:
  assumes ok: "srv_ok live s" "c \<in> live" and law: "send_law api wire" "shutdown_law api wire" and l: "length m \<le> 65536"
    and m: "message0 m = code cmd" "cmd \<noteq> SEND_DATA"
  shows "\<exists>s'. onMessage api s c m t = Some s' \<and> srv_ok live s' \<and>
     pubsub_of s' = snd (spec_command (connected api (net s)) cmd c (tl m) (pubsub_of s)) \<and>
     wire (net s') = (wire (net s))(c := wire (net s) c @ reply cmd (fst (spec_command (connected api (net s)) cmd c (tl m) (pubsub_of s))))"
proof -
  obtain info where c: "connContext s c = Some info" using srv_ok_context [OF ok] by blast
  have "code cmd \<noteq> code SEND_DATA" using m(2) by (cases cmd) auto
  then obtain s' where s': "onMessage api s c m t = Some s'" "srv_ok live s'"
    using onMessage_total [OF ok law(1), of m t] l m(1) by (auto simp: send_blocked_def)
  let ?r = "spec_command (connected api (net s)) cmd c (tl m) (pubsub_of s)"
  have fin: "pubsub_of s' = pubsub_of s1 \<and> wire (net s') = (wire (net s))(c := wire (net s) c @ reply p r)"
    if "callbackFunc api c p r s1 = Some s'" "wire (net s1) = wire (net s)" for p r s1
    using that callbackFunc_wire [OF law(1) that(1)] by (auto simp: callbackFunc_frame)
  note nets = registerDeviceFunc_wire [OF law(2)] subscribeDeviceFunc_net unsubscribeDeviceFunc_net unregisterDeviceFunc_net heartBeatFunc_net
  have "pubsub_of s' = snd ?r \<and> wire (net s') = (wire (net s))(c := wire (net s) c @ reply cmd (fst ?r))"
  proof (cases cmd)
    case REGISTER_DEVICE
    then obtain s1 where s1: "registerDeviceFunc api c (tl m) s = Some s1" "callbackFunc api c REGISTER_DEVICE EXEC_SUCCESS s1 = Some s'"
      using s'(1) m by (auto simp: onMessage_def bind_eq_Some_conv)
    then show ?thesis using fin [OF s1(2)] nets(1) [OF s1(1)] register_refines [OF ok(1) c s1(1)] REGISTER_DEVICE by simp
  next
    case SUBSCRIBE_DEVICE
    then obtain r s1 where s1: "subscribeDeviceFunc c (tl m) s = Some (r, s1)" "callbackFunc api c SUBSCRIBE_DEVICE r s1 = Some s'"
      using s'(1) m by (auto simp: onMessage_def bind_eq_Some_conv)
    have "?r = (r, pubsub_of s1)" using subscribe_refines [OF ok(1) c s1(1)] SUBSCRIBE_DEVICE by simp
    then show ?thesis using fin [OF s1(2)] nets(2) [OF s1(1)] SUBSCRIBE_DEVICE by simp
  next
    case UNREGISTER_DEVICE
    then obtain s1 where s1: "unregisterDeviceFunc c s = Some s1" "callbackFunc api c UNREGISTER_DEVICE EXEC_SUCCESS s1 = Some s'"
      using s'(1) m by (auto simp: onMessage_def bind_eq_Some_conv)
    then show ?thesis using fin [OF s1(2)] nets(4) [OF s1(1)] unregister_refines [OF ok(1) c s1(1)] UNREGISTER_DEVICE by simp
  next
    case UNSUBSCRIBE_DEVICE
    then obtain s1 where s1: "unsubscribeDeviceFunc c (tl m) s = Some s1" "callbackFunc api c UNSUBSCRIBE_DEVICE EXEC_SUCCESS s1 = Some s'"
      using s'(1) m by (auto simp: onMessage_def bind_eq_Some_conv)
    then show ?thesis using fin [OF s1(2)] nets(3) [OF s1(1)] unsubscribe_refines [OF ok(1) c s1(1)] UNSUBSCRIBE_DEVICE by simp
  next
    case CHECK_DEVICE_ALIVE
    then have "callbackFunc api c CHECK_DEVICE_ALIVE (fst ?r) s = Some s'"
      using s'(1) m by (simp add: onMessage_def checkDeviceAliveFunc_def)
    then show ?thesis using fin CHECK_DEVICE_ALIVE by auto
  next
    case HEART_BEAT
    then obtain s1 where s1: "heartBeatFunc c t s = Some s1" "callbackFunc api c HEART_BEAT EXEC_SUCCESS s1 = Some s'"
      using s'(1) m by (auto simp: onMessage_def bind_eq_Some_conv)
    then show ?thesis using fin [OF s1(2)] nets(5) [OF s1(1)] heartBeat_pubsub [OF s1(1)] HEART_BEAT by simp
  qed (use m in simp)
  then show ?thesis using s' by blast
qed

lemma onTimer_loop_pubsub: "onTimer_loop api now xs s = Some s' \<Longrightarrow> pubsub_of s' = pubsub_of s"
proof (induction api now xs s rule: onTimer_loop.induct)
  case (2 api now pos c rest s)
  have "pubsub_of (setConnInfo c (info\<lparr>lastReceiveTime := now\<rparr>) s) = pubsub_of s" if "connContext s c = Some info" for info
    using that by (intro pubsub_eqI) (auto simp: pubsub_of_def fun_eq_iff split: if_splits)
  then show ?case using 2 by (auto simp: Let_def split: if_splits option.splits list.splits)
qed simp

lemma onConnection_down_pubsub:
  assumes ok: "srv_ok live s" "c \<in> live" "\<not> connected api (net s) c"
  shows "\<exists>s'. onConnection api t c s = Some s' \<and> pubsub_of s' = spec_unregister c (pubsub_of s)"
proof -
  obtain info where c: "connContext s c = Some info" using srv_ok_context [OF ok(1,2)] by blast
  obtain s' where s': "onConnection api t c s = Some s'" using onConnection_down [OF ok] by blast
  obtain s1 where s1: "unregisterDeviceFunc c s = Some s1" using unregisterDeviceFunc_total [OF ok(1) c] by blast
  have "\<exists>xs. s' = s1\<lparr>connectionList := xs\<rparr>"
    using s' s1 ok(3) c by (auto simp: onConnection_def getConnInfo_def list_erase_def unregisterDeviceFunc_nodes split: if_splits)
  then show ?thesis using s' unregister_refines [OF ok(1) c s1] by auto
qed

lemma onConnection_up_pubsub:
  assumes "connContext s c = None" "connected api (net s) c"
  shows "\<exists>s'. onConnection api t c s = Some s' \<and> net s' = net s \<and> pubsub_of s' = (pubsub_of s)\<lparr>ident := (ident (pubsub_of s))(c \<mapsto> delete_id)\<rparr>"
  using assms by (auto simp: onConnection_def Let_def pubsub_of_def fun_eq_iff intro!: pubsub_eqI split: if_splits)

section \<open>Properties\<close>

text \<open>
  C3. The handlers implement the publish/subscribe specification: on a server in order every command
  but \<^verbatim>\<open>SEND_DATA\<close> returns, changes the ownership, identity, subscription and recipient relations
  exactly as \<open>spec_command\<close> says, and answers with the status the specification gives. In particular
  \<^verbatim>\<open>UNREGISTER_DEVICE\<close> removes all subscriptions of the connection although its loop removes them
  one by one through aliases of the lists it walks.
\<close>

theorem command_refines_spec:
  assumes "srv_ok live s" "c \<in> live" "send_law api wire" "shutdown_law api wire" "length m \<le> 65536"
    and "message0 m = code cmd" "cmd \<noteq> SEND_DATA"
  shows "\<exists>s'. onMessage api s c m t = Some s' \<and> srv_ok live s' \<and>
     pubsub_of s' = snd (spec_command (connected api (net s)) cmd c (tl m) (pubsub_of s)) \<and>
     wire (net s') = (wire (net s))(c := wire (net s) c @ reply cmd (fst (spec_command (connected api (net s)) cmd c (tl m) (pubsub_of s))))"
  using assms by (rule onMessage_command)

lemma ex_srv_pubsub:
  "owner (pubsub_of ex_srv) = [[65] \<mapsto> 1, [66] \<mapsto> 2]" "ident (pubsub_of ex_srv) 3 = Some delete_id"
  "subs (pubsub_of ex_srv) = {(2, [65])}" "outs (pubsub_of ex_srv) = {(1, 2)}"
  by (auto simp: pubsub_of_def ex_srv_def ex_info_def split: if_splits)

theorem command_refines_spec_witness:
  "\<exists>s'. onMessage sim_api ex_srv 3 [2, 65] (Timestamp 0) = Some s' \<and>
     subs (pubsub_of s') = {(2, [65]), (3, [65])} \<and> outs (pubsub_of s') = {(1, 2), (1, 3)} \<and>
     sim_wire (net s') 3 = reply SUBSCRIBE_DEVICE EXEC_SUCCESS"
proof -
  have m: "length ([2, 65] :: bytes) \<le> 65536" "message0 [2, 65] = code SUBSCRIBE_DEVICE" by (simp_all add: message0_def)
  have d: "delete_id \<noteq> [65]" by (simp add: delete_id_def)
  have w: "sim_wire (net ex_srv) 3 = []" by (simp add: ex_srv_def ex_net_def)
  have r: "spec_subscribe 3 [65] (pubsub_of ex_srv) =
      (EXEC_SUCCESS, (pubsub_of ex_srv)\<lparr>subs := {(3, [65]), (2, [65])}, outs := {(1, 3), (1, 2)}\<rparr>)"
    using d by (auto simp: spec_subscribe_def ex_srv_pubsub simp del: pubsub_of_owner)
  show ?thesis
    using command_refines_spec [OF ex_srv_ok _ sim_laws(1,2) m, of 3 "Timestamp 0"] by (auto simp: r w)
qed

text \<open>
  C6. The callbacks of the network library implement the specification too: a new connection starts
  without a device id, a connection that goes down is unregistered, and the timer changes none of the
  relations.
\<close>

theorem callbacks_refine_spec:
  assumes "srv_ok live s"
  shows "(connContext s c = None \<and> connected api (net s) c \<longrightarrow> (\<exists>s'. onConnection api t c s = Some s' \<and>
      pubsub_of s' = (pubsub_of s)\<lparr>ident := (ident (pubsub_of s))(c \<mapsto> delete_id)\<rparr>)) \<and>
    (c \<in> live \<and> \<not> connected api (net s) c \<longrightarrow> (\<exists>s'. onConnection api t c s = Some s' \<and>
      pubsub_of s' = spec_unregister c (pubsub_of s))) \<and>
    (lock_law api \<and> (\<forall>c\<in>live. tcp_lock api (net s) c) \<longrightarrow> (\<exists>s'. onTimer api t s = Some s' \<and> pubsub_of s' = pubsub_of s))"
  using onConnection_up_pubsub [of s c api t] onConnection_down_pubsub [OF assms, of c api t] onTimer_total [OF assms, of api t]
    onTimer_loop_pubsub [of api t "connectionList s" s]
  by (auto simp: onTimer_def)

theorem callbacks_refine_spec_witness:
  "\<exists>s'. onConnection sim_api (Timestamp 0) 1 (ex_srv\<lparr>net := ex_net\<lparr>sim_state := (\<lambda>_. kDisconnected)\<rparr>\<rparr>) = Some s' \<and>
     pubsub_of s' = spec_unregister 1 (pubsub_of ex_srv)"
proof -
  let ?s = "ex_srv\<lparr>net := ex_net\<lparr>sim_state := (\<lambda>_. kDisconnected)\<rparr>\<rparr>"
  have "srv_ok {1, 2, 3} ?s" using ex_srv_ok by simp
  moreover have "\<not> connected sim_api (net ?s) 1" by (simp add: sim_connected)
  ultimately show ?thesis using callbacks_refine_spec [of "{1, 2, 3}" ?s 1 sim_api "Timestamp 0"] by auto
qed

text \<open>
  \<^verbatim>\<open>SUBSCRIBE_DEVICE\<close> followed by \<^verbatim>\<open>UNSUBSCRIBE_DEVICE\<close> for a registered device of someone else,
  to which the connection is not subscribed yet, returns the server to the relations it had, and in between the publisher's recipients include the subscriber.
\<close>

theorem subscribe_unsubscribe_round_trip:
  assumes ok: "srv_ok live s" "c \<in> live" and law: "send_law api wire" "shutdown_law api wire" and d: "length d < 65536"
    and p: "connections s d = Some p" "ident (pubsub_of s) c \<noteq> Some d"
    and new: "(c, d) \<notin> subs (pubsub_of s)" "(p, c) \<notin> outs (pubsub_of s)"
  shows "\<exists>s1 s2. onMessage api s c (0x02 # d) t = Some s1 \<and> (p, c) \<in> outs (pubsub_of s1) \<and>
     onMessage api s1 c (0x05 # d) t' = Some s2 \<and> pubsub_of s2 = pubsub_of s"
proof -
  obtain s1 where s1: "onMessage api s c (0x02 # d) t = Some s1" "srv_ok live s1"
      "pubsub_of s1 = (pubsub_of s)\<lparr>subs := insert (c, d) (subs (pubsub_of s)), outs := insert (p, c) (outs (pubsub_of s))\<rparr>"
    using onMessage_command [OF ok law, of "0x02 # d" SUBSCRIBE_DEVICE t] d p by (auto simp: message0_def spec_subscribe_def)
  obtain s2 where s2: "onMessage api s1 c (0x05 # d) t' = Some s2" "pubsub_of s2 = spec_unsubscribe c d (pubsub_of s1)"
    using onMessage_command [OF s1(2) ok(2) law, of "0x05 # d" UNSUBSCRIBE_DEVICE t'] d by (auto simp: message0_def)
  have "connections s1 = connections s" using arg_cong [OF s1(3), of owner] by simp
  then have "pubsub_of s2 = pubsub_of s"
    using new p(1) unfolding s2(2) spec_unsubscribe_def s1(3) by (intro pubsub_eqI) auto
  then show ?thesis using s1 s2 by auto
qed

theorem subscribe_unsubscribe_round_trip_witness:
  "\<exists>s1 s2. onMessage sim_api ex_srv 3 (0x02 # [66]) (Timestamp 0) = Some s1 \<and> (2, 3) \<in> outs (pubsub_of s1) \<and>
     onMessage sim_api s1 3 (0x05 # [66]) (Timestamp 1) = Some s2 \<and> pubsub_of s2 = pubsub_of ex_srv"
proof -
  have p: "connections ex_srv [66] = Some 2" "ident (pubsub_of ex_srv) 3 \<noteq> Some [66]" "length ([66] :: bytes) < 65536"
    by (simp_all add: ex_srv_def pubsub_of_def ex_info_def delete_id_def)
  show ?thesis
    using subscribe_unsubscribe_round_trip [OF ex_srv_ok _ sim_laws(1,2) p(3,1,2), of "Timestamp 0" "Timestamp 1"]
    by (auto simp: ex_srv_pubsub)
qed

end
