(* ===== verification/P2p_Server_Faults.thy ===== *)
theory P2p_Server_Faults
  imports P2p_Server_Spec
begin

text \<open>
  Sequences of events. An \<open>event\<close> is a connection that comes up or goes down, or a command that arrives
  on a connection; \<open>spec_events\<close> runs a sequence on the publish/subscribe specification. The relay can
  go through every such sequence by steps of its callbacks and arrives at what the specification
  computes (\<open>events_realised\<close>), so a sequence evaluated on the sets is a run of the server. Four runs
  then show states the handlers were not meant to reach: a recipient that is gone when its publisher
  sends, registrations that outlive their connection, and subscribers that are lost when a device
  reconnects.
\<close>

datatype event = Up conn | Down conn | Command ProtocolCode conn bytes

fun spec_event :: "event \<Rightarrow> conn set \<times> pubsub \<Rightarrow> (conn set \<times> pubsub) option" where
  "spec_event (Up c) (cs, a) =
     (if ident a c = None then Some (insert c cs, a\<lparr>ident := (ident a)(c \<mapsto> delete_id)\<rparr>) else None)"
| "spec_event (Down c) (cs, a) = (if c \<in> cs then Some (cs - {c}, spec_unregister c a) else None)"
| "spec_event (Command cmd c d) (cs, a) =
     (if c \<in> cs \<and> cmd \<noteq> SEND_DATA \<and> length d < 65536 then Some (cs, snd (spec_command (\<lambda>_. True) cmd c d a)) else None)"

fun spec_events :: "event list \<Rightarrow> conn set \<times> pubsub \<Rightarrow> (conn set \<times> pubsub) option" where
  "spec_events [] a = Some a"
| "spec_events (e # es) a = Option.bind (spec_event e a) (spec_events es)"

text \<open>The networks in which a connection can be found both connected and not.\<close>

definition switches :: "'n tcp_api \<Rightarrow> bool" where
  "switches api \<longleftrightarrow> (\<forall>c. (\<exists>n. connected api n c) \<and> (\<exists>n. \<not> connected api n c))"

lemma sim_switches: "switches sim_api"
proof -
  have "connected sim_api \<lparr>sim_state = (\<lambda>_. kConnected), sim_wire = (\<lambda>_. [])\<rparr> c"
    "\<not> connected sim_api \<lparr>sim_state = (\<lambda>_. kDisconnected), sim_wire = (\<lambda>_. [])\<rparr> c" for c
    by (simp_all add: sim_connected)
  then show ?thesis unfolding switches_def by blast
qed

text \<open>Between two messages: the server in order and all input buffers drained.\<close>

definition calm :: "'n relay \<Rightarrow> bool" where
  "calm r \<longleftrightarrow> relay_ok r \<and> (\<forall>c\<in>up r. buf_contents (inbuf r c) = [])"

lemma calm_start: "relay_start r \<Longrightarrow> calm r"
  by (auto simp: calm_def relay_ok_def relay_start_def srv_ok_new)

lemma ident_pubsub: "ident (pubsub_of s) c = map_option deviceId (connContext s c)"
  by (simp add: pubsub_of_def)

lemma snd_spec_command: "snd (spec_command alive cmd c d a) = snd (spec_command alive' cmd c d a)"
  by (cases cmd) simp_all

lemma calm_up:
  assumes "switches api" "calm r" "ident (pubsub_of (srv r)) c = None"
  shows "\<exists>r'. (relay_step api)\<^sup>*\<^sup>* r r' \<and> calm r' \<and> up r' = insert c (up r) \<and>
    pubsub_of (srv r') = (pubsub_of (srv r))\<lparr>ident := (ident (pubsub_of (srv r)))(c \<mapsto> delete_id)\<rparr>"
proof -
  obtain n where n: "connected api n c" using assms(1) by (auto simp: switches_def)
  let ?r = "r\<lparr>srv := (srv r)\<lparr>net := n\<rparr>\<rparr>"
  have c: "connContext (srv ?r) c = None" "connected api (net (srv ?r)) c" using assms(3) n by (simp_all add: ident_pubsub)
  obtain s' where s': "onConnection api (Timestamp 0) c (srv ?r) = Some s'"
      "pubsub_of s' = (pubsub_of (srv r))\<lparr>ident := (ident (pubsub_of (srv r)))(c \<mapsto> delete_id)\<rparr>"
    using onConnection_up_pubsub [OF c] by auto
  obtain b where b: "Buffer_new kInitialSize = Some b" "buf_ok b" "buf_contents b = []" using Buffer_new_ok by blast
  let ?r' = "?r\<lparr>srv := s', up := insert c (up ?r), inbuf := (inbuf ?r)(c := b)\<rparr>"
  have ok: "srv_ok (up r) (srv ?r)" using assms(2) by (simp add: calm_def relay_ok_def)
  have "srv_ok (insert c (up r)) s'" using onConnection_up [OF ok c, of "Timestamp 0"] s'(1) by auto
  then have "calm ?r'" using assms(2) b by (auto simp: calm_def relay_ok_def)
  moreover have "(relay_step api)\<^sup>*\<^sup>* r ?r'"
    using relay_step.network [of api r n] relay_step.conn_up [OF c s'(1) b(1)] by (meson r_into_rtranclp rtranclp.rtrancl_into_rtrancl)
  ultimately show ?thesis using s'(2) by (intro exI [of _ ?r']) simp
qed

lemma calm_down:
  assumes "switches api" "calm r" "c \<in> up r"
  shows "\<exists>r'. (relay_step api)\<^sup>*\<^sup>* r r' \<and> calm r' \<and> up r' = up r - {c} \<and>
    pubsub_of (srv r') = spec_unregister c (pubsub_of (srv r))"
proof -
  obtain n where n: "\<not> connected api n c" using assms(1) by (auto simp: switches_def)
  let ?r = "r\<lparr>srv := (srv r)\<lparr>net := n\<rparr>\<rparr>"
  have ok: "srv_ok (up r) (srv ?r)" using assms(2) by (simp add: calm_def relay_ok_def)
  have c: "c \<in> up ?r" "\<not> connected api (net (srv ?r)) c" using assms(3) n by simp_all
  obtain s' where s': "onConnection api (Timestamp 0) c (srv ?r) = Some s'" "pubsub_of s' = spec_unregister c (pubsub_of (srv r))"
    using onConnection_down_pubsub [OF ok assms(3) c(2)] by auto
  let ?r' = "?r\<lparr>srv := s', up := up ?r - {c}\<rparr>"
  have "srv_ok (up r - {c}) s'" using onConnection_down [OF ok assms(3) c(2), of "Timestamp 0"] s'(1) by auto
  then have "calm ?r'" using assms(2) by (auto simp: calm_def relay_ok_def)
  moreover have "(relay_step api)\<^sup>*\<^sup>* r ?r'"
    using relay_step.network [of api r n] relay_step.conn_down [OF c s'(1)] by (meson r_into_rtranclp rtranclp.rtrancl_into_rtrancl)
  ultimately show ?thesis using s'(2) by (intro exI [of _ ?r']) simp
qed

lemma calm_command:
  assumes law: "send_law api wire" "shutdown_law api wire" and "calm r" "c \<in> up r" "cmd \<noteq> SEND_DATA" "length d < 65536"
  shows "\<exists>r'. (relay_step api)\<^sup>*\<^sup>* r r' \<and> calm r' \<and> up r' = up r \<and>
    pubsub_of (srv r') = snd (spec_command alive cmd c d (pubsub_of (srv r)))"
proof -
  let ?m = "code cmd # d"
  have m: "length ?m \<le> 65536" "message0 ?m = code cmd" using assms(6) by (simp_all add: message0_def)
  have ok: "srv_ok (up r) (srv r)" "buf_ok (inbuf r c)" "buf_contents (inbuf r c) = []"
    using assms(3,4) by (simp_all add: calm_def relay_ok_def)
  obtain s' where s': "onMessage api (srv r) c ?m (Timestamp 0) = Some s'" "srv_ok (up r) s'"
      "pubsub_of s' = snd (spec_command alive cmd c d (pubsub_of (srv r)))"
    using onMessage_command [OF ok(1) assms(4) law m assms(5)] snd_spec_command by (metis list.sel(3))
  obtain b where b: "buf_ok b" "buf_contents b = []" "relay_step api r (r\<lparr>srv := s', inbuf := (inbuf r)(c := b)\<rparr>)"
    by (rule relay_message [OF assms(4) ok(2,3) m(1) s'(1)])
  have "calm (r\<lparr>srv := s', inbuf := (inbuf r)(c := b)\<rparr>)" using assms(3) s'(2) b by (simp add: calm_def relay_ok_def)
  then show ?thesis using b(3) s'(3) by (intro exI [of _ "r\<lparr>srv := s', inbuf := (inbuf r)(c := b)\<rparr>"]) auto
qed

lemma event_realised:
  assumes law: "send_law api wire" "shutdown_law api wire" and "switches api" "calm r"
    and "spec_event e (up r, pubsub_of (srv r)) = Some x"
  shows "\<exists>r'. (relay_step api)\<^sup>*\<^sup>* r r' \<and> calm r' \<and> x = (up r', pubsub_of (srv r'))"
proof (cases e)
  case (Up c)
  then show ?thesis using calm_up [OF assms(3,4), of c] assms(5) by (auto simp del: pubsub_of_owner split: if_splits)
next
  case (Down c)
  then show ?thesis using calm_down [OF assms(3,4), of c] assms(5) by (auto split: if_splits)
next
  case (Command cmd c d)
  then show ?thesis using calm_command [OF law assms(4), of c cmd d "\<lambda>_. True"] assms(5) by (auto split: if_splits)
qed

lemma events_realised:
  assumes law: "send_law api wire" "shutdown_law api wire" and "switches api" "calm r"
    and "spec_events es (up r, pubsub_of (srv r)) = Some x"
  shows "\<exists>r'. (relay_step api)\<^sup>*\<^sup>* r r' \<and> calm r' \<and> x = (up r', pubsub_of (srv r'))"
  using assms(4,5)
proof (induction es arbitrary: r)
  case (Cons e es)
  then obtain y where y: "spec_event e (up r, pubsub_of (srv r)) = Some y" "spec_events es y = Some x"
    by (auto simp: bind_eq_Some_conv)
  then obtain r1 where r1: "(relay_step api)\<^sup>*\<^sup>* r r1" "calm r1" "y = (up r1, pubsub_of (srv r1))"
    using event_realised [OF law assms(3) Cons.prems(1)] by blast
  then show ?case using Cons.IH [OF r1(2)] y(2) by (meson rtranclp_trans)
qed (use assms(4) in auto)

section \<open>Properties\<close>

definition no_pubsub :: pubsub where
  "no_pubsub = \<lparr>owner = Map.empty, ident = Map.empty, subs = {}, outs = {}\<rparr>"

lemma pubsub_start: "relay_start r \<Longrightarrow> up r = {} \<and> pubsub_of (srv r) = no_pubsub"
  by (auto simp: relay_start_def pubsub_of_def p2pServer_new_def no_pubsub_def)

lemma ex_events:
  assumes "spec_events es ({}, no_pubsub) = Some (cs, a)"
  obtains r where "(relay_step sim_api)\<^sup>*\<^sup>* ex_relay r" "calm r" "up r = cs" "pubsub_of (srv r) = a"
  using events_realised [OF sim_laws(1,2) sim_switches calm_start [OF ex_relay_start], of es] pubsub_start [OF ex_relay_start] assms
  by auto

lemmas spec_simps = no_pubsub_def spec_register_def spec_subscribe_def spec_unsubscribe_def spec_drop_subscriptions_def
  spec_unregister_def delete_id_def



text \<open>
  C33. The abort of \<^verbatim>\<open>sendDataFunc\<close> is reachable: a device registers, a second connection subscribes to
  it and loses its connection; data the device sends before the server has run the second connection's
  down callback makes the loop increment an erased iterator.
\<close>

theorem send_to_lost_recipient_aborts:
  "\<exists>r. (relay_step sim_api)\<^sup>*\<^sup>* ex_relay r \<and> 7 \<in> up r \<and> 8 \<in> up r \<and> onMessage sim_api (srv r) 7 [3, 104] t = None"
proof -
  have e: "spec_events [Up 7, Command REGISTER_DEVICE 7 [65], Up 8, Command SUBSCRIBE_DEVICE 8 [65]] ({}, no_pubsub) =
     Some ({8, 7}, \<lparr>owner = [[65] \<mapsto> 7], ident = [7 \<mapsto> delete_id, 7 \<mapsto> [65], 8 \<mapsto> delete_id], subs = {(8, [65])}, outs = {(7, 8)}\<rparr>)"
    by (simp add: spec_simps)
  obtain r where r: "(relay_step sim_api)\<^sup>*\<^sup>* ex_relay r" "up r = {8, 7}" "(7, 8) \<in> outs (pubsub_of (srv r))"
    by (rule ex_events [OF e]) simp
  let ?n = "\<lparr>sim_state = (\<lambda>_. kDisconnected), sim_wire = (\<lambda>_. [])\<rparr>"
  let ?r = "r\<lparr>srv := (srv r)\<lparr>net := ?n\<rparr>\<rparr>"
  obtain info where info: "connContext (srv r) 7 = Some info" "8 \<in> set (sendToList info)"
    using r(3) by (auto simp: pubsub_of_def)
  have "send_blocked sim_api 7 [3, 104] (srv ?r)" using info by (auto simp: send_blocked_def message0_def sim_connected)
  then have "onMessage sim_api (srv ?r) 7 [3, 104] t = None" by (intro onMessage_blocked [OF sim_laws(1)]) simp_all
  moreover have "(relay_step sim_api)\<^sup>*\<^sup>* ex_relay ?r" using r(1) relay_step.network by (rule rtranclp.rtrancl_into_rtrancl)
  ultimately show ?thesis using r(2) by (intro exI [of _ ?r]) simp
qed

text \<open>
  C34. States the registry was not meant to reach: after registering under a second id, or under the id
  \<^verbatim>\<open>delete\<close> that marks connections without one, and disconnecting, the registry still names the closed
  connection; and when a device registers an id in use from a new connection, the subscriber still holds
  its subscription but the recipients stay with the connection that was replaced, so nothing the device
  sends reaches the subscriber.
\<close>

theorem stale_registrations:
  "(\<exists>r. (relay_step sim_api)\<^sup>*\<^sup>* ex_relay r \<and> connections (srv r) [65] = Some 7 \<and> 7 \<notin> up r) \<and>
   (\<exists>r. (relay_step sim_api)\<^sup>*\<^sup>* ex_relay r \<and> connections (srv r) delete_id = Some 7 \<and> 7 \<notin> up r) \<and>
   (\<exists>r. (relay_step sim_api)\<^sup>*\<^sup>* ex_relay r \<and> connections (srv r) [65] = Some 9 \<and> {8, 9} \<subseteq> up r \<and>
      (8, [65]) \<in> subs (pubsub_of (srv r)) \<and> outs (pubsub_of (srv r)) = {(7, 8)})"
proof (intro conjI)
  obtain a where "spec_events [Up 7, Command REGISTER_DEVICE 7 [65], Command REGISTER_DEVICE 7 [66], Down 7] ({}, no_pubsub) = Some ({}, a)"
      "owner a [65] = Some 7"
    by (simp add: spec_simps)
  then show "\<exists>r. (relay_step sim_api)\<^sup>*\<^sup>* ex_relay r \<and> connections (srv r) [65] = Some 7 \<and> 7 \<notin> up r"
    by (metis empty_iff ex_events pubsub_of_owner)
next
  obtain a where "spec_events [Up 7, Command REGISTER_DEVICE 7 delete_id, Down 7] ({}, no_pubsub) = Some ({}, a)"
      "owner a delete_id = Some 7"
    by (simp add: spec_simps)
  then show "\<exists>r. (relay_step sim_api)\<^sup>*\<^sup>* ex_relay r \<and> connections (srv r) delete_id = Some 7 \<and> 7 \<notin> up r"
    by (metis empty_iff ex_events pubsub_of_owner)
next
  obtain a where a: "spec_events [Up 7, Command REGISTER_DEVICE 7 [65], Up 8, Command SUBSCRIBE_DEVICE 8 [65], Up 9,
       Command REGISTER_DEVICE 9 [65]] ({}, no_pubsub) = Some ({9, 8, 7}, a)"
      "owner a [65] = Some 9" "(8, [65]) \<in> subs a" "outs a = {(7, 8)}"
    by (simp add: spec_simps)
  obtain r where r: "(relay_step sim_api)\<^sup>*\<^sup>* ex_relay r" "up r = {9, 8, 7}" "pubsub_of (srv r) = a"
    by (rule ex_events [OF a(1)])
  have "connections (srv r) [65] = Some 9" using a(2) unfolding r(3) [symmetric] by simp
  then show "\<exists>r. (relay_step sim_api)\<^sup>*\<^sup>* ex_relay r \<and> connections (srv r) [65] = Some 9 \<and> {8, 9} \<subseteq> up r \<and>
      (8, [65]) \<in> subs (pubsub_of (srv r)) \<and> outs (pubsub_of (srv r)) = {(7, 8)}"
    using r a(3,4) by (intro exI [of _ r]) simp
qed

end
