(* ===== verification/P2p_Server_Threads.thy ===== *)
theory P2p_Server_Threads
  imports P2p_Server_Faults
begin

text \<open>
  The two threads of the server. The constructor registers \<^verbatim>\<open>onTimer\<close> on the base loop and \<^verbatim>\<open>start\<close>
  moves all connections to an I/O thread (\<^verbatim>\<open>setThreadNum(1)\<close>), so that the walk of \<^verbatim>\<open>onTimer\<close> over
  \<^verbatim>\<open>_connectionList\<close> runs beside the connection callbacks, without a lock. Here the loop is cut into its
  iterations: \<open>onTimer_iter\<close> is one pass of the body and the increment, on the list as it is at that
  moment, with the iterator as the identity of the node it points to. Run without interruption the
  iterations are \<^verbatim>\<open>onTimer\<close>; between two of them \<open>threads_step\<close> lets the I/O thread run a callback.
\<close>

section \<open>One iteration\<close>

text \<open>\<^verbatim>\<open>++it\<close>: the inner \<open>None\<close> is \<^verbatim>\<open>end()\<close>, the outer one an iterator whose node is not in the list.\<close>

definition list_begin :: "(nat \<times> conn) list \<Rightarrow> nat option" where
  "list_begin xs = (case xs of [] \<Rightarrow> None | e # _ \<Rightarrow> Some (fst e))"

lemma list_begin_simps [simp]: "list_begin [] = None" "list_begin (e # es) = Some (fst e)"
  by (simp_all add: list_begin_def)

fun node_after :: "nat \<Rightarrow> (nat \<times> conn) list \<Rightarrow> nat option option" where
  "node_after pos [] = None"
| "node_after pos (e # es) = (if fst e = pos then Some (list_begin es) else node_after pos es)"

text \<open>
  \<^verbatim>\<open>break\<close> and the end of the list both end the loop: iterator \<open>None\<close>. For an expired connection the
  iterator that \<^verbatim>\<open>erase\<close> returns is incremented, which is undefined at the end of the list.
\<close>

definition onTimer_iter :: "'n tcp_api \<Rightarrow> Timestamp \<Rightarrow> nat \<Rightarrow> 'n p2pServer \<Rightarrow> (nat option \<times> 'n p2pServer) option" where
  "onTimer_iter api now pos s = do {
     c \<leftarrow> map_of (connectionList s) pos;
     it \<leftarrow> node_after pos (connectionList s);
     if tcp_lock api (net s) c then do {
       info \<leftarrow> connContext s c;
       let age = timeDifference now (lastReceiveTime info);
       if age > of_int (idleSeconds s) then
         Some (it, if connected api (net s) c
                   then s\<lparr>net := tcp_forceCloseWithDelay api c (7 / 2) (tcp_shutdown api c (net s))\<rparr>
                   else s)
       else if age < 0 then Some (it, setConnInfo c (info\<lparr>lastReceiveTime := now\<rparr>) s)
       else Some (None, s) }
     else do {
       xs \<leftarrow> list_erase pos (connectionList s);
       pos' \<leftarrow> it;
       it' \<leftarrow> node_after pos' xs;
       Some (it', s\<lparr>connectionList := xs\<rparr>) } }"

fun timer_walk :: "'n tcp_api \<Rightarrow> Timestamp \<Rightarrow> nat \<Rightarrow> nat option \<Rightarrow> 'n p2pServer \<Rightarrow> 'n p2pServer option" where
  "timer_walk api now n None s = Some s"
| "timer_walk api now 0 (Some pos) s = None"
| "timer_walk api now (Suc n) (Some pos) s =
     (case onTimer_iter api now pos s of
        None \<Rightarrow> None
      | Some (it, s') \<Rightarrow> timer_walk api now n it s')"

lemma node_after_split:
  "pos \<notin> fst ` set ys \<Longrightarrow> node_after pos (ys @ (pos, c) # rest) = Some (list_begin rest)"
  by (induction ys) auto

lemma node_after_in: "pos \<in> fst ` set xs \<longleftrightarrow> node_after pos xs \<noteq> None"
  by (induction xs) auto

lemma node_after_next: "node_after pos xs = Some (Some pos') \<Longrightarrow> pos' \<in> fst ` set xs"
proof (induction xs)
  case (Cons e xs)
  then show ?case by (cases xs) (auto split: if_splits)
qed simp

lemma map_of_split: "pos \<notin> fst ` set ys \<Longrightarrow> map_of (ys @ (pos, c) # rest) pos = Some c"
  by (simp add: map_add_dom_app_simps dom_map_of_conv_image_fst)

lemma timer_walk_loop:
  assumes "connectionList s = ys @ rest" "distinct (map fst (connectionList s))" "length rest \<le> n"
  shows "timer_walk api now n (list_begin rest) s = onTimer_loop api now rest s"
  using assms
proof (induction api now rest s arbitrary: ys n rule: onTimer_loop.induct)
  case (1 api now s)
  then show ?case by simp
next
  case (2 api now pos c rest s)
  then obtain n' where n: "n = Suc n'" "length rest \<le> n'" by (cases n) auto
  have fresh: "pos \<notin> fst ` set ys" "pos \<notin> fst ` set rest" using 2(5,6) by auto
  have at: "map_of (connectionList s) pos = Some c" "node_after pos (connectionList s) = Some (list_begin rest)"
    unfolding 2(5) by (rule map_of_split [OF fresh(1)], rule node_after_split [OF fresh(1)])
  have go: "timer_walk api now n' (list_begin rest) s' = onTimer_loop api now rest s'"
    if "connectionList s' = connectionList s" "\<And>n ys. connectionList s' = ys @ rest \<Longrightarrow> distinct (map fst (connectionList s')) \<Longrightarrow>
      length rest \<le> n \<Longrightarrow> timer_walk api now n (list_begin rest) s' = onTimer_loop api now rest s'" for s'
    using that(2) [of "ys @ [(pos, c)]" n'] that(1) 2(5,6) n(2) by simp
  have w: "timer_walk api now n (Some pos) s =
      (case onTimer_iter api now pos s of None \<Rightarrow> None | Some (it, s') \<Rightarrow> timer_walk api now n' it s')"
    by (simp add: n(1))
  show ?case
  proof (cases "tcp_lock api (net s) c")
    case True
    show ?thesis
    proof (cases "connContext s c")
      case None
      then show ?thesis using True at by (simp add: w onTimer_iter_def)
    next
      case (Some info)
      then show ?thesis
        using True at 2(1-3) go by (simp add: w onTimer_iter_def Let_def)
    qed
  next
    case False
    have "filter (\<lambda>e. fst e \<noteq> pos) ys = ys" "filter (\<lambda>e. fst e \<noteq> pos) rest = rest"
      using fresh by (auto simp: filter_id_conv image_iff)
    then have erase: "list_erase pos (connectionList s) = Some (ys @ rest)"
      "filter (\<lambda>e. fst e \<noteq> pos) (connectionList s) = ys @ rest"
      using 2(5) by (simp_all add: list_erase_def)
    show ?thesis
    proof (cases rest)
      case Nil
      then show ?thesis using False at erase by (simp add: w onTimer_iter_def)
    next
      case (Cons e rest')
      have e: "fst e \<notin> fst ` set ys" using 2(5,6) Cons by auto
      have "node_after (fst e) (ys @ rest) = Some (list_begin rest')"
        using node_after_split [OF e, of "snd e" rest'] Cons by simp
      moreover have "timer_walk api now n' (list_begin rest') (s\<lparr>connectionList := ys @ rest\<rparr>) =
          onTimer_loop api now rest' (s\<lparr>connectionList := ys @ rest\<rparr>)"
        using 2(4) [OF False Cons, of "ys @ [e]" n'] 2(5,6) n(2) Cons erase(2) by simp
      ultimately show ?thesis
        using False at erase Cons by (simp add: w onTimer_iter_def)
    qed
  qed
qed

section \<open>Both threads\<close>

text \<open>
  The steps of the I/O thread are the callbacks of the relay without the timer; \<open>walk\<close> is the local state of
  a running \<^verbatim>\<open>onTimer\<close>, the time it read and its iterator. As in \<open>relay_step\<close>, the weak pointers of
  connections that are up lock, because the server's connection map holds them until the second callback.
\<close>

inductive io_step :: "'n tcp_api \<Rightarrow> 'n relay \<Rightarrow> 'n relay \<Rightarrow> bool" for api where
  io_up: "connContext (srv r) c = None \<Longrightarrow> connected api (net (srv r)) c \<Longrightarrow>
    onConnection api now c (srv r) = Some s' \<Longrightarrow> Buffer_new kInitialSize = Some b \<Longrightarrow>
    io_step api r (r\<lparr>srv := s', up := insert c (up r), inbuf := (inbuf r)(c := b)\<rparr>)"
| io_down: "c \<in> up r \<Longrightarrow> \<not> connected api (net (srv r)) c \<Longrightarrow>
    onConnection api now c (srv r) = Some s' \<Longrightarrow>
    io_step api r (r\<lparr>srv := s', up := up r - {c}\<rparr>)"
| io_readable: "c \<in> up r \<Longrightarrow> onSegment api c now seg (inbuf r c, srv r) = Some (b, s') \<Longrightarrow>
    io_step api r (r\<lparr>srv := s', inbuf := (inbuf r)(c := b)\<rparr>)"
| io_network: "io_step api r (r\<lparr>srv := (srv r)\<lparr>net := n\<rparr>\<rparr>)"

record 'n threads =
  io_side :: "'n relay"
  walk :: "(Timestamp \<times> nat option) option"

inductive threads_step :: "'n tcp_api \<Rightarrow> 'n threads \<Rightarrow> 'n threads \<Rightarrow> bool" for api where
  io: "io_step api (io_side t) r \<Longrightarrow> threads_step api t (t\<lparr>io_side := r\<rparr>)"
| timer_begin: "walk t = None \<Longrightarrow>
    threads_step api t (t\<lparr>walk := Some (now, list_begin (connectionList (srv (io_side t))))\<rparr>)"
| timer_iterate: "walk t = Some (now, Some pos) \<Longrightarrow> \<forall>c\<in>up (io_side t). tcp_lock api (net (srv (io_side t))) c \<Longrightarrow>
    onTimer_iter api now pos (srv (io_side t)) = Some (it, s') \<Longrightarrow>
    threads_step api t (t\<lparr>io_side := (io_side t)\<lparr>srv := s'\<rparr>, walk := Some (now, it)\<rparr>)"
| timer_return: "walk t = Some (now, None) \<Longrightarrow> threads_step api t (t\<lparr>walk := None\<rparr>)"

text \<open>The steps that take no connection down while the timer walks.\<close>

definition quiet_step :: "'n tcp_api \<Rightarrow> 'n threads \<Rightarrow> 'n threads \<Rightarrow> bool" where
  "quiet_step api t t' \<longleftrightarrow> threads_step api t t' \<and> (walk t \<noteq> None \<longrightarrow> up (io_side t) \<subseteq> up (io_side t'))"

definition threads_start :: "'n threads \<Rightarrow> bool" where
  "threads_start t \<longleftrightarrow> relay_start (io_side t) \<and> walk t = None"

definition node_ids :: "'n p2pServer \<Rightarrow> nat set" where
  "node_ids s = fst ` set (connectionList s)"

definition threads_ok :: "'n threads \<Rightarrow> bool" where
  "threads_ok t \<longleftrightarrow> relay_ok (io_side t) \<and> (\<forall>now pos. walk t = Some (now, Some pos) \<longrightarrow> pos \<in> node_ids (srv (io_side t)))"

lemma io_is_relay_step: "io_step api r r' \<Longrightarrow> relay_step api r r'"
  by (induction rule: io_step.induct) (auto intro: relay_step.intros)

lemma splice_ids:
  assumes "list_splice_end pos xs = Some ys"
  shows "fst ` set ys = fst ` set xs"
proof -
  obtain e where e: "find (\<lambda>e. fst e = pos) xs = Some e" "ys = filter (\<lambda>e. fst e \<noteq> pos) xs @ [e]"
    using assms by (auto simp: list_splice_end_def split: option.splits)
  then have "fst e = pos" "e \<in> set xs" by (auto simp: find_Some_iff)
  then show ?thesis using e(2) by (auto simp: image_iff)
qed

lemma registerDeviceFunc_list:
  assumes "registerDeviceFunc api c d s = Some s'"
  shows "connectionList s' = connectionList s"
proof (cases "connections s d")
  case None
  then show ?thesis using assms by (auto simp: registerDeviceFunc_def Let_def bind_eq_Some_conv)
next
  case (Some old)
  then show ?thesis using assms by (cases "old = c") (auto simp: registerDeviceFunc_def Let_def bind_eq_Some_conv)
qed

lemma subscribeDeviceFunc_list: "subscribeDeviceFunc c d s = Some (r, s') \<Longrightarrow> connectionList s' = connectionList s"
  by (auto simp: subscribeDeviceFunc_def Let_def bind_eq_Some_conv split: option.splits if_splits)

lemma unsubscribeDeviceFunc_list: "unsubscribeDeviceFunc c d s = Some s' \<Longrightarrow> connectionList s' = connectionList s"
  by (cases "connections s d") (auto simp: unsubscribeDeviceFunc_def bind_eq_Some_conv split: if_splits)

lemma sendDataFunc_list: "sendDataFunc api c m s = Some s' \<Longrightarrow> connectionList s' = connectionList s"
  by (auto simp: sendDataFunc_def bind_eq_Some_conv dest!: sendData_loop_net)

lemma callbackFunc_list: "callbackFunc api c cmd r s = Some s' \<Longrightarrow> connectionList s' = connectionList s"
  by (auto simp: callbackFunc_frame)

lemmas handlers_list = registerDeviceFunc_list subscribeDeviceFunc_list unsubscribeDeviceFunc_list unregisterDeviceFunc_list
  sendDataFunc_list callbackFunc_list

lemma node_ids_cong: "connectionList s' = connectionList s \<Longrightarrow> node_ids s' = node_ids s"
  by (simp add: node_ids_def)

lemmas handlers_ids = handlers_list [THEN node_ids_cong]

lemma onMessage_ids:
  assumes "onMessage api s c m t = Some s'"
  shows "node_ids s' = node_ids s"
proof -
  have "node_ids s1 = node_ids s" if "heartBeatFunc c t s = Some s1" for s1
    using that by (clarsimp simp: heartBeatFunc_def node_ids_def bind_eq_Some_conv dest!: splice_ids)
  then show ?thesis
    using assms by (auto simp: onMessage_def bind_eq_Some_conv handlers_ids split: if_splits)
qed

lemma deliver_ids: "deliver (onMessage api) c t ms s = Some s' \<Longrightarrow> node_ids s' = node_ids s"
  by (induction ms arbitrary: s) (auto simp: onMessage_ids split: option.splits)

lemma onSegment_ids:
  assumes "buf_ok buf" "onSegment api c t seg (buf, s) = Some (buf', s')"
  shows "node_ids s' = node_ids s"
proof -
  obtain ms rest bad where sf: "split_frames codec_ok (buf_contents buf @ seg) = (ms, rest, bad)"
    by (cases "split_frames codec_ok (buf_contents buf @ seg)")
  obtain b1 where "onSegment api c t seg (buf, s) =
       map_option (\<lambda>s'. (b1, if bad then s'\<lparr>net := tcp_shutdown api c (net s')\<rparr> else s')) (deliver (onMessage api) c t ms s)"
    unfolding onSegment_def by (rule on_segment_refines [OF assms(1) sf])
  then obtain s1 where s1: "deliver (onMessage api) c t ms s = Some s1"
      "s' = (if bad then s1\<lparr>net := tcp_shutdown api c (net s1)\<rparr> else s1)"
    using assms(2) by (cases "deliver (onMessage api) c t ms s") auto
  show ?thesis unfolding s1(2) using deliver_ids [OF s1(1)] by (simp add: node_ids_def)
qed

lemma io_step_ids:
  assumes "relay_ok r" "io_step api r r'" "up r \<subseteq> up r'"
  shows "node_ids (srv r) \<subseteq> node_ids (srv r')"
  using assms(2)
proof cases
  case (io_up c now s' b)
  then show ?thesis by (auto simp: onConnection_def node_ids_def Let_def)
next
  case (io_down c now s')
  then show ?thesis using assms(3) by auto
next
  case (io_readable c now seg b s')
  then show ?thesis using onSegment_ids [OF _ io_readable(3)] assms(1) by (simp add: relay_ok_def)
qed (simp add: node_ids_def)

lemma onTimer_iter_total:
  assumes ok: "srv_ok live s" and pos: "pos \<in> node_ids s" and lk: "\<forall>c\<in>live. tcp_lock api (net s) c"
  shows "\<exists>it s'. onTimer_iter api now pos s = Some (it, s') \<and> srv_ok live s' \<and> connectionList s' = connectionList s \<and>
    (\<forall>q. it = Some q \<longrightarrow> q \<in> node_ids s')"
proof -
  obtain c where c: "map_of (connectionList s) pos = Some c"
    using pos by (auto simp: node_ids_def dest: weak_map_of_SomeI)
  then have up: "c \<in> live" using srv_ok_up [OF ok] by (auto dest: map_of_SomeD)
  obtain it where it: "node_after pos (connectionList s) = Some it" using pos node_after_in by (fastforce simp: node_ids_def)
  then have nxt: "q \<in> node_ids s" if "it = Some q" for q using node_after_next that by (simp add: node_ids_def)
  obtain info where i: "connContext s c = Some info" using srv_ok_context [OF ok up] by blast
  have jump: "srv_ok live (setConnInfo c (info\<lparr>lastReceiveTime := now\<rparr>) s)"
    using srv_ok_info [OF ok i] up by (intro srv_ok_setConnInfo [OF ok i]) (auto simp: info_ok_def)
  show ?thesis using c it nxt i jump lk up ok by (simp add: onTimer_iter_def Let_def node_ids_def)
qed

lemma quiet_step_ok:
  assumes "send_law api wire" "lock_law api" "threads_ok t" "quiet_step api t t'"
  shows "threads_ok t'"
proof -
  have ok: "relay_ok (io_side t)" using assms(3) by (simp add: threads_ok_def)
  have "threads_step api t t'" using assms(4) by (simp add: quiet_step_def)
  then show ?thesis
  proof cases
    case (io r)
    have "node_ids (srv (io_side t)) \<subseteq> node_ids (srv r)" if "walk t \<noteq> None"
      using io_step_ids [OF ok io(2)] that assms(4) io(1) by (simp add: quiet_step_def)
    then show ?thesis
      using io(1) relay_step_ok [OF assms(1,2) ok io_is_relay_step [OF io(2)]] assms(3) by (auto simp: threads_ok_def)
  next
    case (timer_begin now)
    then show ?thesis using assms(3) by (auto simp: threads_ok_def node_ids_def list_begin_def split: list.splits)
  next
    case (timer_iterate now pos it s')
    have "srv_ok (up (io_side t)) (srv (io_side t))" "pos \<in> node_ids (srv (io_side t))"
      using assms(3) timer_iterate(2) by (simp_all add: threads_ok_def relay_ok_def)
    from onTimer_iter_total [OF this timer_iterate(3), of now] show ?thesis
      using timer_iterate(1,4) ok by (auto simp: threads_ok_def relay_ok_def)
  next
    case timer_return
    then show ?thesis using assms(3) by (simp add: threads_ok_def)
  qed
qed

interpretation two_threads: invariant_system threads_start "quiet_step api"
  "\<lambda>t. send_law api wire \<and> lock_law api \<longrightarrow> threads_ok t" for api wire
proof unfold_locales
  fix s :: "'a threads"
  assume "threads_start s"
  then show "send_law api wire \<and> lock_law api \<longrightarrow> threads_ok s"
    by (auto simp: threads_start_def threads_ok_def relay_start_def relay_ok_def srv_ok_new)
next
  fix s t :: "'a threads"
  assume "send_law api wire \<and> lock_law api \<longrightarrow> threads_ok s" "quiet_step api s t"
  then show "send_law api wire \<and> lock_law api \<longrightarrow> threads_ok t" using quiet_step_ok by blast
qed

section \<open>Properties\<close>

definition ex_threads :: "sim_net threads" where
  "ex_threads = \<lparr>io_side = ex_relay, walk = None\<rparr>"

lemma ex_threads_start: "threads_start ex_threads"
  by (simp add: threads_start_def ex_threads_def ex_relay_start)

lemma ex_io_up:
  obtains r where "io_step sim_api ex_relay r" "up r = {7}" "relay_ok r"
proof -
  have n: "net (srv ex_relay) = ex_net" "connContext (srv ex_relay) 7 = None"
    by (simp_all add: ex_relay_def p2pServer_new_def)
  have c: "connected sim_api (net (srv ex_relay)) 7" by (simp add: n sim_connected ex_net_def)
  obtain s' where s': "onConnection sim_api (Timestamp 5) 7 (srv ex_relay) = Some s'"
    using c by (simp add: onConnection_def Let_def)
  obtain b where b: "Buffer_new kInitialSize = Some b" using Buffer_new_ok by blast
  note st = io_step.io_up [OF n(2) c s' b]
  have "relay_ok ex_relay" using calm_start [OF ex_relay_start] by (simp add: calm_def)
  from relay_step_ok [OF sim_laws(1,3) this io_is_relay_step [OF st]] show thesis
    by (intro that [OF st]) (simp_all add: ex_relay_def)
qed

lemma down_removes_node:
  assumes "srv_ok live s" "c \<in> live" "connContext s c = Some info" "onConnection api t c s = Some s'"
    and "\<not> connected api (net s) c"
  shows "onTimer_iter api now (position info) s' = None"
proof -
  obtain xs where xs: "list_erase (position info) (connectionList s) = Some xs"
      "unregisterDeviceFunc c (s\<lparr>connectionList := xs\<rparr>) = Some s'"
    using assms(3-5) by (auto simp: onConnection_def getConnInfo_def bind_eq_Some_conv)
  have "connectionList s' = xs" using unregisterDeviceFunc_list [OF xs(2)] by simp
  moreover have "map_of xs (position info) = None"
    using xs(1) by (auto simp: list_erase_def map_of_eq_None_iff split: if_splits)
  ultimately show ?thesis by (simp add: onTimer_iter_def)
qed

lemma one_up_walk:
  assumes "relay_ok r" "up r = {c}"
  obtains info where "connContext (srv r) c = Some info" "list_begin (connectionList (srv r)) = Some (position info)"
proof -
  have ok: "srv_ok {c} (srv r)" using assms by (simp add: relay_ok_def)
  obtain e es where e: "connectionList (srv r) = e # es"
    using ok by (cases "connectionList (srv r)") (auto simp: srv_ok_def nodes_ok_def)
  then obtain info where "connContext (srv r) (snd e) = Some info" "position info = fst e"
    using srv_ok_nodes [OF ok, of e] by auto
  moreover have "snd e = c" using srv_ok_up [OF ok, of "fst e" "snd e"] e by auto
  ultimately show ?thesis using that e by simp
qed

lemma ex_walk:
  obtains t pos info where "(quiet_step sim_api)\<^sup>*\<^sup>* ex_threads t" "walk t = Some (Timestamp 9, Some pos)"
    "relay_ok (io_side t)" "up (io_side t) = {7}" "connContext (srv (io_side t)) 7 = Some info" "position info = pos"
proof -
  obtain r where r: "io_step sim_api ex_relay r" "up r = {7}" "relay_ok r" by (rule ex_io_up)
  obtain info where i: "connContext (srv r) 7 = Some info" "list_begin (connectionList (srv r)) = Some (position info)"
    by (rule one_up_walk [OF r(3,2)])
  let ?t1 = "ex_threads\<lparr>io_side := r\<rparr>"
  let ?t2 = "?t1\<lparr>walk := Some (Timestamp 9, list_begin (connectionList (srv (io_side ?t1))))\<rparr>"
  have "threads_step sim_api ex_threads ?t1" using r(1) by (intro threads_step.io) (simp add: ex_threads_def)
  moreover have "threads_step sim_api ?t1 ?t2" by (rule threads_step.timer_begin) (simp add: ex_threads_def)
  ultimately have "(quiet_step sim_api)\<^sup>*\<^sup>* ex_threads ?t2"
    by (intro converse_rtranclp_into_rtranclp [of _ ex_threads ?t1] r_into_rtranclp) (simp_all add: quiet_step_def ex_threads_def)
  then show thesis by (rule that) (use r i in simp_all)
qed

text \<open>
  The iterations of the timer are its loop: from the beginning of the list, as many iterations as there are
  connections, run without interruption, have the result of \<^verbatim>\<open>onTimer\<close>, the undefined increments included.
\<close>

theorem timer_walk_is_onTimer:
  assumes "srv_ok live s"
  shows "timer_walk api now (length (connectionList s)) (list_begin (connectionList s)) s = onTimer api now s"
  using timer_walk_loop [of s "[]" "connectionList s" "length (connectionList s)" api now] srv_ok_distinct [OF assms]
  by (simp add: onTimer_def)

theorem timer_walk_is_onTimer_witness:
  "\<exists>r. io_step sim_api ex_relay r \<and> connectionList (srv r) \<noteq> [] \<and>
     timer_walk sim_api (Timestamp 9) (length (connectionList (srv r))) (list_begin (connectionList (srv r))) (srv r) =
     onTimer sim_api (Timestamp 9) (srv r)"
proof -
  obtain r where r: "io_step sim_api ex_relay r" "up r = {7}" "relay_ok r" by (rule ex_io_up)
  then have ok: "srv_ok {7} (srv r)" by (simp add: relay_ok_def)
  then have "connectionList (srv r) \<noteq> []" by (auto simp: srv_ok_def nodes_ok_def)
  then show ?thesis using timer_walk_is_onTimer [OF ok, of sim_api "Timestamp 9"] r(1) by auto
qed



text \<open>
  C14. The timer and the I/O thread race: a connection that goes down after the timer has set its iterator to it
  leaves the iterator pointing to an erased node, and the next iteration of the walk is undefined.
\<close>

theorem timer_race_undefined:
  "\<exists>t now pos. (threads_step sim_api)\<^sup>*\<^sup>* ex_threads t \<and> walk t = Some (now, Some pos) \<and>
     onTimer_iter sim_api now pos (srv (io_side t)) = None"
proof -
  obtain t pos info where t: "(quiet_step sim_api)\<^sup>*\<^sup>* ex_threads t" "walk t = Some (Timestamp 9, Some pos)"
      "relay_ok (io_side t)" "up (io_side t) = {7}" "connContext (srv (io_side t)) 7 = Some info" "position info = pos"
    by (rule ex_walk)
  let ?n = "\<lparr>sim_state = (\<lambda>_. kDisconnected), sim_wire = (\<lambda>_. [])\<rparr>"
  let ?r = "(io_side t)\<lparr>srv := (srv (io_side t))\<lparr>net := ?n\<rparr>\<rparr>"
  have ok: "srv_ok {7} (srv ?r)" "\<not> connected sim_api (net (srv ?r)) 7" "connContext (srv ?r) 7 = Some info"
    using t(3-5) by (simp_all add: relay_ok_def sim_connected)
  obtain s' where s': "onConnection sim_api (Timestamp 9) 7 (srv ?r) = Some s'"
    using onConnection_down [OF ok(1) _ ok(2), of "Timestamp 9"] by auto
  let ?r' = "?r\<lparr>srv := s', up := up ?r - {7}\<rparr>"
  have "threads_step sim_api t (t\<lparr>io_side := ?r\<rparr>)" by (rule threads_step.io [OF io_step.io_network])
  moreover have "threads_step sim_api (t\<lparr>io_side := ?r\<rparr>) (t\<lparr>io_side := ?r, io_side := ?r'\<rparr>)"
    by (rule threads_step.io) (use io_step.io_down [OF _ ok(2) s'] t(4) in simp)
  ultimately have "(threads_step sim_api)\<^sup>*\<^sup>* t (t\<lparr>io_side := ?r'\<rparr>)"
    by (simp add: converse_rtranclp_into_rtranclp r_into_rtranclp)
  moreover have "(threads_step sim_api)\<^sup>*\<^sup>* ex_threads t"
    using t(1) by (rule rtranclp_mono [THEN predicate2D, rotated]) (auto simp: quiet_step_def)
  moreover have "onTimer_iter sim_api (Timestamp 9) pos s' = None"
    using down_removes_node [OF ok(1) _ ok(3) s' ok(2)] t(6) by simp
  ultimately show ?thesis
    using t(2) by (intro exI [of _ "t\<lparr>io_side := ?r'\<rparr>"] exI [of _ "Timestamp 9"] exI [of _ pos]) auto
qed

end
