(* ===== verification/Muduo_Local.thy ===== *)
theory Muduo_Local
  imports P2P_Framing
begin

text \<open>
  Objects of a process and of its threads: \<^verbatim>\<open>Singleton.h\<close>, \<^verbatim>\<open>ThreadLocal.h\<close>, \<^verbatim>\<open>ThreadLocalSingleton.h\<close>,
  \<^verbatim>\<open>WeakCallback.h\<close> and \<^verbatim>\<open>CurrentThread.h\<close>. The state holds the objects that exist, the thread-specific
  data of POSIX (keys with their destructors, at most 1024, and a pointer per thread and key), the two
  static variables of \<open>Singleton\<close> and the \<^verbatim>\<open>__thread\<close> pointer of \<open>ThreadLocalSingleton\<close>. A failed assertion or
  a second deletion of an object is \<open>None\<close>. The invariant says that every stored pointer is live
  and stored in one place only.
\<close>

section \<open>The process\<close>

datatype tsd_destructor = Delete_object | Delete_singleton

record 'a process =
  objects :: "nat \<rightharpoonup> 'a"
  next_object :: nat
  keys :: "(nat \<times> tsd_destructor) list"
  next_key :: nat
  specific :: "nat \<Rightarrow> nat \<rightharpoonup> nat"
  ponce :: bool
  s_value :: "nat option"
  exit_handlers :: nat
  t_value :: "nat \<rightharpoonup> nat"
  deleter :: "nat option"

definition new_object :: "'a \<Rightarrow> 'a process \<Rightarrow> nat \<times> 'a process" where
  "new_object x p = (next_object p, p\<lparr>objects := (objects p)(next_object p \<mapsto> x), next_object := Suc (next_object p)\<rparr>)"

definition delete_object :: "nat \<Rightarrow> 'a process \<Rightarrow> 'a process option" where
  "delete_object a p = (if objects p a = None then None else Some (p\<lparr>objects := (objects p)(a := None)\<rparr>))"

definition PTHREAD_KEYS_MAX :: nat where
  "PTHREAD_KEYS_MAX = 1024"

definition pthread_key_create :: "tsd_destructor \<Rightarrow> 'a process \<Rightarrow> (nat \<times> 'a process) option" where
  "pthread_key_create d p =
     (if length (keys p) < PTHREAD_KEYS_MAX
      then Some (next_key p, p\<lparr>keys := keys p @ [(next_key p, d)], next_key := Suc (next_key p)\<rparr>)
      else None)"

definition pthread_key_delete :: "nat \<Rightarrow> 'a process \<Rightarrow> 'a process option" where
  "pthread_key_delete k p =
     (if map_of (keys p) k = None then None
      else Some (p\<lparr>keys := filter (\<lambda>(k', _). k' \<noteq> k) (keys p), specific := (\<lambda>t. (specific p t)(k := None))\<rparr>))"

definition pthread_setspecific :: "nat \<Rightarrow> nat \<Rightarrow> nat option \<Rightarrow> 'a process \<Rightarrow> 'a process option" where
  "pthread_setspecific t k v p =
     (if map_of (keys p) k = None then None
      else Some (p\<lparr>specific := (specific p)(t := (specific p t)(k := v))\<rparr>))"

section \<open>Singleton.h\<close>

definition Singleton_init :: "bool \<Rightarrow> 'a \<Rightarrow> 'a process \<Rightarrow> 'a process" where
  "Singleton_init has_no_destroy x p =
     (let (a, p) = new_object x p; p = p\<lparr>s_value := Some a\<rparr> in
      if \<not> has_no_destroy then p\<lparr>exit_handlers := Suc (exit_handlers p)\<rparr> else p)"

definition Singleton_instance :: "bool \<Rightarrow> 'a \<Rightarrow> 'a process \<Rightarrow> (nat \<times> 'a process) option" where
  "Singleton_instance has_no_destroy x p =
     (let p = (if ponce p then p else (Singleton_init has_no_destroy x p)\<lparr>ponce := True\<rparr>) in
      do { a \<leftarrow> s_value p; Some (a, p) })"

definition Singleton_destroy :: "'a process \<Rightarrow> 'a process option" where
  "Singleton_destroy p =
     (case s_value p of
        None \<Rightarrow> Some p
      | Some a \<Rightarrow> do { p \<leftarrow> delete_object a p; Some (p\<lparr>s_value := None\<rparr>) })"

section \<open>ThreadLocal.h\<close>

definition ThreadLocal_new :: "'a process \<Rightarrow> (nat \<times> 'a process) option" where
  "ThreadLocal_new p = pthread_key_create Delete_object p"

definition ThreadLocal_delete :: "nat \<Rightarrow> 'a process \<Rightarrow> 'a process option" where
  "ThreadLocal_delete pkey p = pthread_key_delete pkey p"

definition ThreadLocal_value :: "'a \<Rightarrow> nat \<Rightarrow> nat \<Rightarrow> 'a process \<Rightarrow> (nat \<times> 'a process) option" where
  "ThreadLocal_value x t pkey p =
     (case specific p t pkey of
        Some perThreadValue \<Rightarrow> Some (perThreadValue, p)
      | None \<Rightarrow> do {
          let (newObj, p) = new_object x p;
          p \<leftarrow> pthread_setspecific t pkey (Some newObj) p;
          Some (newObj, p) })"

definition ThreadLocal_destructor :: "nat \<Rightarrow> 'a process \<Rightarrow> 'a process option" where
  "ThreadLocal_destructor obj p = delete_object obj p"

section \<open>ThreadLocalSingleton.h\<close>

definition Deleter_new :: "'a process \<Rightarrow> 'a process" where
  "Deleter_new p = (case pthread_key_create Delete_singleton p of Some (k, p) \<Rightarrow> p\<lparr>deleter := Some k\<rparr> | None \<Rightarrow> p)"

definition Deleter_set :: "nat \<Rightarrow> nat \<Rightarrow> 'a process \<Rightarrow> 'a process option" where
  "Deleter_set t newObj p = do {
     k \<leftarrow> deleter p;
     if specific p t k = None then pthread_setspecific t k (Some newObj) p else None }"

definition ThreadLocalSingleton_instance :: "'a \<Rightarrow> nat \<Rightarrow> 'a process \<Rightarrow> (nat \<times> 'a process) option" where
  "ThreadLocalSingleton_instance x t p =
     (case t_value p t of
        Some a \<Rightarrow> Some (a, p)
      | None \<Rightarrow> do {
          let (a, p) = new_object x p;
          p \<leftarrow> Deleter_set t a (p\<lparr>t_value := (t_value p)(t \<mapsto> a)\<rparr>);
          Some (a, p) })"

definition ThreadLocalSingleton_pointer :: "nat \<Rightarrow> 'a process \<Rightarrow> nat option" where
  "ThreadLocalSingleton_pointer t p = t_value p t"

definition ThreadLocalSingleton_destructor :: "nat \<Rightarrow> nat \<Rightarrow> 'a process \<Rightarrow> 'a process option" where
  "ThreadLocalSingleton_destructor t obj p =
     (if t_value p t \<noteq> Some obj then None
      else do { p \<leftarrow> delete_object obj p; Some (p\<lparr>t_value := (t_value p)(t := None)\<rparr>) })"

text \<open>What POSIX does when a thread ends: each pointer that is set is cleared and its destructor called.\<close>

fun run_destructors :: "nat \<Rightarrow> (nat \<times> tsd_destructor) list \<Rightarrow> 'a process \<Rightarrow> 'a process option" where
  "run_destructors t [] p = Some p"
| "run_destructors t ((k, d) # ks) p =
     (case specific p t k of
        None \<Rightarrow> run_destructors t ks p
      | Some a \<Rightarrow> do {
          let p = p\<lparr>specific := (specific p)(t := (specific p t)(k := None))\<rparr>;
          p \<leftarrow> (case d of Delete_object \<Rightarrow> ThreadLocal_destructor a p | Delete_singleton \<Rightarrow> ThreadLocalSingleton_destructor t a p);
          run_destructors t ks p })"

definition thread_exit :: "nat \<Rightarrow> 'a process \<Rightarrow> 'a process option" where
  "thread_exit t p = run_destructors t (keys p) p"

section \<open>WeakCallback.h and CurrentThread.h\<close>

text \<open>\<open>lock\<close> is what \<^verbatim>\<open>object_.lock()\<close> returns; \<open>function\<close> is the stored function on a state of the caller.\<close>

definition WeakCallback_call :: "('o \<rightharpoonup> 'p) \<Rightarrow> 'o \<Rightarrow> ('p \<Rightarrow> 'args \<Rightarrow> 's \<Rightarrow> 's option) \<Rightarrow> 'args \<Rightarrow> 's \<Rightarrow> 's option" where
  "WeakCallback_call lock object function args s =
     (case lock object of Some ptr \<Rightarrow> function ptr args s | None \<Rightarrow> Some s)"

text \<open>\<open>gettid\<close> stands for what \<^verbatim>\<open>cacheTid\<close> stores.\<close>

definition CurrentThread_tid :: "(nat \<Rightarrow> int) \<Rightarrow> nat \<Rightarrow> (nat \<Rightarrow> int) \<Rightarrow> int \<times> (nat \<Rightarrow> int)" where
  "CurrentThread_tid gettid t cached =
     (let cached = (if cached t = 0 then cached(t := gettid t) else cached) in (cached t, cached))"

lemma CurrentThread_tid_stable:
  assumes "gettid t \<noteq> 0" "cached t \<in> {0, gettid t}" "CurrentThread_tid gettid t cached = (n, cached')"
  shows "n = gettid t" "CurrentThread_tid gettid t cached' = (n, cached')" "\<forall>t'. t' \<noteq> t \<longrightarrow> cached' t' = cached t'"
  using assms by (auto simp: CurrentThread_tid_def Let_def split: if_splits)

section \<open>Every stored pointer is live and stored once\<close>

definition process_new :: "'a process" where
  "process_new = Deleter_new
     \<lparr>objects = Map.empty, next_object = 0, keys = [], next_key = 0, specific = (\<lambda>_. Map.empty), ponce = False, s_value = None,
      exit_handlers = 0, t_value = Map.empty, deleter = None\<rparr>"

definition keys_ok :: "'a process \<Rightarrow> bool" where
  "keys_ok p \<longleftrightarrow> distinct (map fst (keys p)) \<and> (\<forall>k\<in>set (map fst (keys p)). k < next_key p) \<and>
     (\<exists>k. deleter p = Some k \<and> (\<forall>k' d. (k', d) \<in> set (keys p) \<longrightarrow> (d = Delete_singleton \<longleftrightarrow> k' = k)) \<and> k \<in> fst ` set (keys p))"

definition pointers_ok :: "'a process \<Rightarrow> bool" where
  "pointers_ok p \<longleftrightarrow> (\<forall>a. objects p a \<noteq> None \<longrightarrow> a < next_object p) \<and>
     (\<forall>t k a. specific p t k = Some a \<longrightarrow> k \<in> fst ` set (keys p) \<and> objects p a \<noteq> None \<and> s_value p \<noteq> Some a) \<and>
     (\<forall>t k t' k' a. specific p t k = Some a \<and> specific p t' k' = Some a \<longrightarrow> t' = t \<and> k' = k) \<and>
     (\<forall>t. t_value p t = specific p t (the (deleter p))) \<and>
     (\<forall>a. s_value p = Some a \<longrightarrow> ponce p \<and> objects p a \<noteq> None)"

definition process_ok :: "'a process \<Rightarrow> bool" where
  "process_ok p \<longleftrightarrow> keys_ok p \<and> pointers_ok p"


definition cell :: "nat \<Rightarrow> nat \<Rightarrow> nat option \<Rightarrow> 'a process \<Rightarrow> 'a process" where
  "cell t k v p = p\<lparr>specific := (specific p)(t := (specific p t)(k := v)),
     t_value := (if deleter p = Some k then (t_value p)(t := v) else t_value p)\<rparr>"

lemma process_okD:
  assumes "process_ok p"
  shows "objects p a \<noteq> None \<Longrightarrow> a < next_object p" "objects p (next_object p) = None"
    "specific p t k = Some a \<Longrightarrow> k \<in> fst ` set (keys p) \<and> objects p a \<noteq> None \<and> s_value p \<noteq> Some a"
    "specific p t k = Some a \<Longrightarrow> specific p t' k' = Some a \<Longrightarrow> t' = t \<and> k' = k"
    "s_value p = Some a \<Longrightarrow> ponce p \<and> objects p a \<noteq> None"
  using assms unfolding process_ok_def pointers_ok_def by blast+

lemma process_ok_deleter:
  assumes "process_ok p"
  obtains k where "deleter p = Some k"
  using assms by (auto simp: process_ok_def keys_ok_def)

lemma process_ok_deleter_key:
  assumes "process_ok p" "deleter p = Some k"
  shows "map_of (keys p) k = Some Delete_singleton" "t_value p t = specific p t k"
    "map_of (keys p) k' = Some d \<Longrightarrow> d = Delete_singleton \<longleftrightarrow> k' = k"
proof -
  have k: "\<And>k' d. (k', d) \<in> set (keys p) \<Longrightarrow> d = Delete_singleton \<longleftrightarrow> k' = k" "k \<in> fst ` set (keys p)" "distinct (map fst (keys p))"
    using assms by (auto simp: process_ok_def keys_ok_def)
  then obtain d where d: "(k, d) \<in> set (keys p)" by auto
  show "map_of (keys p) k = Some Delete_singleton" using d k(1) [OF d] k(3) by (simp add: map_of_eq_Some_iff)
  show "t_value p t = specific p t k" using assms by (simp add: process_ok_def pointers_ok_def)
  show "d = Delete_singleton \<longleftrightarrow> k' = k" if "map_of (keys p) k' = Some d" for k' d using k(1) [OF map_of_SomeD [OF that]] .
qed

text \<open>A change of one pointer keeps the invariant if the new one is live and new.\<close>

lemma process_ok_cell:
  assumes ok: "process_ok p" and k: "map_of (keys p) k \<noteq> None" and n: "n \<ge> next_object p"
    and o: "\<And>a. os a \<noteq> None \<Longrightarrow> a < n" "\<And>a. v = Some a \<Longrightarrow> os a \<noteq> None \<and> objects p a = None"
    and keep: "\<And>a. objects p a \<noteq> None \<Longrightarrow> specific p t k \<noteq> Some a \<Longrightarrow> os a \<noteq> None"
  shows "process_ok (cell t k v (p\<lparr>objects := os, next_object := n\<rparr>))"
proof -
  obtain d where d: "deleter p = Some d" using ok by (rule process_ok_deleter)
  note tv = process_ok_deleter_key(2) [OF ok d]
  let ?p = "cell t k v (p\<lparr>objects := os, next_object := n\<rparr>)"
  have k': "k \<in> fst ` set (keys p)" using k by (simp add: map_of_eq_None_iff)
  have sp: "specific ?p t' l = (if t' = t \<and> l = k then v else specific p t' l)" for t' l by (simp add: cell_def)
  have f: "objects ?p = os" "s_value ?p = s_value p" "ponce ?p = ponce p" "keys ?p = keys p" "deleter ?p = deleter p" "next_object ?p = n" "next_key ?p = next_key p"
    by (simp_all add: cell_def)
  have live: "l \<in> fst ` set (keys p) \<and> os a \<noteq> None \<and> s_value p \<noteq> Some a" if "specific ?p t' l = Some a" for t' l a
  proof (cases "t' = t \<and> l = k")
    case True
    then show ?thesis using that process_okD(5) [OF ok, of a] o(2) [of a] k' unfolding sp by auto
  next
    case False
    then have a: "specific p t' l = Some a" using that unfolding sp by auto
    then have "specific p t k \<noteq> Some a" using False process_okD(4) [OF ok a, of t k] by auto
    then show ?thesis using process_okD(3) [OF ok a] keep [of a] by blast
  qed
  have once: "t2 = t1 \<and> l2 = l1" if "specific ?p t1 l1 = Some a" "specific ?p t2 l2 = Some a" for t1 l1 t2 l2 a
    using that process_okD(4) [OF ok, of t1 l1 a t2 l2] process_okD(3) [OF ok, of t1 l1 a] process_okD(3) [OF ok, of t2 l2 a] o(2)
    unfolding sp by (auto split: if_splits)
  have sv: "ponce p \<and> os a \<noteq> None" if "s_value p = Some a" for a
    using process_okD(3) [OF ok, of t k a] process_okD(5) [OF ok that] that keep by blast
  have tv': "t_value ?p t' = specific ?p t' d" for t' using d tv by (auto simp: cell_def)
  have "keys_ok ?p" using ok unfolding process_ok_def keys_ok_def f by blast
  moreover have "pointers_ok ?p" unfolding pointers_ok_def f d option.sel using live once sv tv' o(1) by blast
  ultimately show ?thesis by (simp add: process_ok_def)
qed

lemma process_ok_store:
  assumes ok: "process_ok p" and k: "map_of (keys p) k \<noteq> None"
  shows "process_ok (cell t k (Some (next_object p)) (snd (new_object x p)))"
proof -
  have "process_ok (cell t k (Some (next_object p)) (p\<lparr>objects := (objects p)(next_object p \<mapsto> x), next_object := Suc (next_object p)\<rparr>))"
    using process_okD(1,2) [OF ok] by (intro process_ok_cell [OF ok k]) (auto simp: less_Suc_eq split: if_splits)
  then show ?thesis by (simp add: new_object_def)
qed

lemma process_ok_drop:
  assumes ok: "process_ok p" and k: "map_of (keys p) k \<noteq> None" and v: "specific p t k = Some a"
  shows "process_ok (cell t k None (p\<lparr>objects := (objects p)(a := None)\<rparr>))"
proof -
  have "process_ok (cell t k None (p\<lparr>objects := (objects p)(a := None), next_object := next_object p\<rparr>))"
    using process_okD(1) [OF ok] v by (intro process_ok_cell [OF ok k]) (auto split: if_splits)
  then show ?thesis by simp
qed

section \<open>The operations keep the invariant\<close>

lemma ThreadLocal_value_eq:
  assumes ok: "process_ok p" and k: "map_of (keys p) k = Some Delete_object"
  shows "ThreadLocal_value x t k p = Some (case specific p t k of
     Some a \<Rightarrow> (a, p) | None \<Rightarrow> (next_object p, cell t k (Some (next_object p)) (snd (new_object x p))))"
proof -
  have "deleter p \<noteq> Some k" using process_ok_deleter_key(1) [OF ok, of k] k by auto
  then show ?thesis using k by (simp add: ThreadLocal_value_def new_object_def pthread_setspecific_def cell_def split: option.split)
qed

lemma ThreadLocalSingleton_instance_eq:
  assumes ok: "process_ok p" and k: "deleter p = Some k"
  shows "ThreadLocalSingleton_instance x t p = Some (case specific p t k of
     Some a \<Rightarrow> (a, p) | None \<Rightarrow> (next_object p, cell t k (Some (next_object p)) (snd (new_object x p))))"
proof -
  have "map_of (keys p) k \<noteq> None" "t_value p t = specific p t k" using process_ok_deleter_key [OF ok k] by auto
  then show ?thesis using k
    by (auto simp: ThreadLocalSingleton_instance_def Deleter_set_def new_object_def pthread_setspecific_def cell_def split: option.split)
qed

text \<open>Both give the thread the object of its own cell and keep it there.\<close>

definition gives :: "nat \<Rightarrow> nat \<Rightarrow> nat \<Rightarrow> 'a process \<Rightarrow> 'a process \<Rightarrow> bool" where
  "gives t k a p p' \<longleftrightarrow> process_ok p' \<and> specific p' t k = Some a \<and> objects p' a \<noteq> None \<and>
     (\<forall>b. specific p t k = Some b \<longrightarrow> a = b \<and> p' = p) \<and> (\<forall>t' k'. (t', k') \<noteq> (t, k) \<longrightarrow> specific p' t' k' = specific p t' k' \<and> specific p' t' k' \<noteq> Some a) \<and>
     (\<forall>b. objects p b \<noteq> None \<longrightarrow> objects p' b = objects p b) \<and> keys p' = keys p \<and> deleter p' = deleter p \<and>
     s_value p' = s_value p \<and> ponce p' = ponce p \<and> exit_handlers p' = exit_handlers p"

lemma givesD:
  assumes "gives t k a p p'"
  shows "specific p' t k = Some a" "objects p' a \<noteq> None" "(t', k') \<noteq> (t, k) \<Longrightarrow> specific p' t' k' \<noteq> Some a"
    "objects p b \<noteq> None \<Longrightarrow> objects p' b = objects p b"
  using assms unfolding gives_def by blast+

lemma cell_gives:
  assumes ok: "process_ok p" and k: "map_of (keys p) k \<noteq> None"
    and e: "(a, p') = (case specific p t k of Some a \<Rightarrow> (a, p) | None \<Rightarrow> (next_object p, cell t k (Some (next_object p)) (snd (new_object x p))))"
  shows "gives t k a p p'"
proof (cases "specific p t k")
  case None
  have p': "a = next_object p" "p' = cell t k (Some (next_object p)) (snd (new_object x p))" using e None by simp_all
  have n: "specific p t' k' \<noteq> Some (next_object p)" for t' k' using process_okD(2,3) [OF ok] by blast
  have f: "objects p' = (objects p)(a \<mapsto> x)" "keys p' = keys p" "deleter p' = deleter p" "s_value p' = s_value p" "ponce p' = ponce p"
    "exit_handlers p' = exit_handlers p" "\<And>t' l. specific p' t' l = (if t' = t \<and> l = k then Some a else specific p t' l)"
    unfolding p' by (simp_all add: cell_def new_object_def)
  have "process_ok p'" unfolding p' by (rule process_ok_store [OF ok k])
  moreover have "objects p b \<noteq> None \<longrightarrow> b \<noteq> a" for b using process_okD(2) [OF ok] p'(1) by auto
  ultimately show ?thesis using None n unfolding gives_def f p'(1) by simp
next
  case (Some b)
  then have p': "a = b" "p' = p" using e by simp_all
  have "specific p t' k' \<noteq> Some b" if "(t', k') \<noteq> (t, k)" for t' k' using process_okD(4) [OF ok Some, of t' k'] that by auto
  then show ?thesis using ok Some process_okD(3) [OF ok Some] unfolding gives_def p' by auto
qed

lemma ThreadLocal_value_gives:
  assumes "process_ok p" "map_of (keys p) k = Some Delete_object"
  shows "\<exists>a p'. ThreadLocal_value x t k p = Some (a, p') \<and> gives t k a p p'"
proof -
  obtain a p' where "ThreadLocal_value x t k p = Some (a, p')" by (metis ThreadLocal_value_eq [OF assms] surj_pair)
  then show ?thesis using cell_gives [OF assms(1), of k a p' t x] ThreadLocal_value_eq [OF assms, of x t] assms(2) by auto
qed

lemma ThreadLocalSingleton_instance_gives:
  assumes "process_ok p" "deleter p = Some k"
  shows "\<exists>a p'. ThreadLocalSingleton_instance x t p = Some (a, p') \<and> gives t k a p p'"
proof -
  have k: "map_of (keys p) k \<noteq> None" using process_ok_deleter_key(1) [OF assms] by simp
  obtain a p' where "ThreadLocalSingleton_instance x t p = Some (a, p')" by (metis ThreadLocalSingleton_instance_eq [OF assms] surj_pair)
  then show ?thesis using cell_gives [OF assms(1) k, of a p' t x] ThreadLocalSingleton_instance_eq [OF assms, of x t] by auto
qed

text \<open>After the destructors for the keys in \<open>ks\<close>: the objects of thread \<open>t\<close> under these keys are gone, all others stay.\<close>

definition exited :: "nat \<Rightarrow> nat set \<Rightarrow> 'a process \<Rightarrow> 'a process \<Rightarrow> bool" where
  "exited t ks p p' \<longleftrightarrow> process_ok p' \<and> keys p' = keys p \<and>
    objects p' = (\<lambda>a. if \<exists>k\<in>ks. specific p t k = Some a then None else objects p a) \<and>
    specific p' = (\<lambda>t' k. if t' = t \<and> k \<in> ks then None else specific p t' k) \<and>
    s_value p' = s_value p \<and> ponce p' = ponce p \<and> exit_handlers p' = exit_handlers p"

lemma run_destructors_ok:
  assumes "process_ok p" "set ks \<subseteq> set (keys p)"
  shows "\<exists>p'. run_destructors t ks p = Some p' \<and> exited t (fst ` set ks) p p'"
  using assms
proof (induction ks arbitrary: p)
  case (Cons kd ks)
  obtain k d where kd: "kd = (k, d)" by fastforce
  have dk: "distinct (map fst (keys p))" using Cons.prems(1) by (simp add: process_ok_def keys_ok_def)
  then have k: "map_of (keys p) k = Some d" using Cons.prems(2) kd by (simp add: map_of_eq_Some_iff)
  show ?case
  proof (cases "specific p t k")
    case None
    obtain p' where p': "run_destructors t ks p = Some p'" "exited t (fst ` set ks) p p'"
      using Cons.IH [OF Cons.prems(1)] Cons.prems(2) by auto
    have "(\<lambda>t' l. if t' = t \<and> l \<in> fst ` set ks then None else specific p t' l) =
        (\<lambda>t' l. if t' = t \<and> l \<in> insert k (fst ` set ks) then None else specific p t' l)" using None by (intro ext) auto
    then have "exited t (fst ` set (kd # ks)) p p'" using p'(2) None by (simp add: exited_def kd)
    then show ?thesis using p'(1) None by (simp add: kd)
  next
    case (Some a)
    let ?p = "cell t k None (p\<lparr>objects := (objects p)(a := None)\<rparr>)"
    have o: "objects p a \<noteq> None" using process_okD(3) [OF Cons.prems(1) Some] by blast
    obtain dk where dk: "deleter p = Some dk" using Cons.prems(1) by (rule process_ok_deleter)
    note dk' = process_ok_deleter_key(2) [OF Cons.prems(1) dk, of t] process_ok_deleter_key(3) [OF Cons.prems(1) dk k]
    have r: "run_destructors t (kd # ks) p = run_destructors t ks ?p"
    proof (cases d)
      case Delete_object
      have "?p = p\<lparr>specific := (specific p)(t := (specific p t)(k := None)), objects := (objects p)(a := None)\<rparr>"
        using Delete_object dk dk'(2) by (simp add: cell_def)
      then show ?thesis using Some o Delete_object by (auto simp: kd ThreadLocal_destructor_def delete_object_def)
    next
      case Delete_singleton
      then have "k = dk" using dk'(2) by simp
      then have "?p = p\<lparr>specific := (specific p)(t := (specific p t)(k := None)), objects := (objects p)(a := None), t_value := (t_value p)(t := None)\<rparr>"
        using dk by (simp add: cell_def)
      then show ?thesis using Some o Delete_singleton dk'(1) \<open>k = dk\<close> by (auto simp: kd ThreadLocalSingleton_destructor_def delete_object_def)
    qed
    have ok: "process_ok ?p" by (rule process_ok_drop [OF Cons.prems(1) _ Some]) (simp add: k)
    have f: "keys ?p = keys p" "objects ?p = (objects p)(a := None)" "s_value ?p = s_value p" "ponce ?p = ponce p" "exit_handlers ?p = exit_handlers p"
      "\<And>t' l. specific ?p t' l = (if t' = t \<and> l = k then None else specific p t' l)" by (simp_all add: cell_def)
    have "set ks \<subseteq> set (keys ?p)" using Cons.prems(2) f(1) by simp
    from Cons.IH [OF ok this] obtain p' where p': "run_destructors t ks ?p = Some p'" "exited t (fst ` set ks) ?p p'" by blast
    have "(if \<exists>l\<in>fst ` set ks. specific ?p t l = Some b then None else objects ?p b) =
        (if \<exists>l\<in>insert k (fst ` set ks). specific p t l = Some b then None else objects p b)" for b
      unfolding f(2,6) using Some by (cases "b = a") auto
    moreover have "(if t' = t \<and> l \<in> fst ` set ks then None else specific ?p t' l) =
        (if t' = t \<and> l \<in> insert k (fst ` set ks) then None else specific p t' l)" for t' l unfolding f(6) by auto
    ultimately have "exited t (fst ` set (kd # ks)) p p'" using p'(2) unfolding exited_def f(1,3-5) by (simp add: kd)
    then show ?thesis using p'(1) unfolding r by blast
  qed
qed (auto simp: exited_def)

lemma Singleton_instance_ok:
  assumes ok: "process_ok p" and r: "Singleton_instance nd x p = Some (a, p')"
  shows "process_ok p'" "ponce p'" "s_value p' = Some a" "objects p' a \<noteq> None" "ponce p \<Longrightarrow> p' = p"
    "\<not> ponce p \<Longrightarrow> exit_handlers p' = exit_handlers p + (if nd then 0 else 1)"
proof -
  have n: "objects p (next_object p) = None" "\<And>t k. specific p t k \<noteq> Some (next_object p)" using process_okD(2,3) [OF ok] by blast+
  show "ponce p'" "s_value p' = Some a" "ponce p \<Longrightarrow> p' = p" "\<not> ponce p \<Longrightarrow> exit_handlers p' = exit_handlers p + (if nd then 0 else 1)"
    using r by (auto simp: Singleton_instance_def Singleton_init_def new_object_def bind_eq_Some_conv Let_def split: if_splits)
  show "process_ok p'"
  proof (cases "ponce p")
    case True
    then show ?thesis using ok r by (auto simp: Singleton_instance_def bind_eq_Some_conv)
  next
    case False
    then have f: "keys p' = keys p" "next_key p' = next_key p" "deleter p' = deleter p" "specific p' = specific p" "t_value p' = t_value p"
      "objects p' = (objects p)(next_object p \<mapsto> x)" "next_object p' = Suc (next_object p)" "ponce p'" "s_value p' = Some (next_object p)"
      using r by (cases nd; auto simp: Singleton_instance_def Singleton_init_def new_object_def Let_def)+
    have "keys_ok p'" using ok unfolding process_ok_def keys_ok_def f by blast
    moreover have "pointers_ok p'"
      using ok n f(8) unfolding process_ok_def pointers_ok_def f by (auto simp: less_Suc_eq)
    ultimately show ?thesis by (simp add: process_ok_def)
  qed
  then show "objects p' a \<noteq> None" using \<open>s_value p' = Some a\<close> process_okD(5) by blast
qed

lemma Singleton_destroy_ok:
  assumes ok: "process_ok p" and v: "s_value p = Some a"
  shows "\<exists>p'. Singleton_destroy p = Some p' \<and> process_ok p' \<and> objects p' = (objects p)(a := None) \<and> s_value p' = None \<and> ponce p' \<and>
    exit_handlers p' = exit_handlers p"
proof -
  note o = process_okD(5) [OF ok v]
  let ?p = "p\<lparr>objects := (objects p)(a := None), s_value := None\<rparr>"
  have "keys_ok ?p" using ok by (simp add: process_ok_def keys_ok_def)
  moreover have "pointers_ok ?p" using ok v unfolding process_ok_def pointers_ok_def by auto
  ultimately have "process_ok ?p" by (simp add: process_ok_def)
  then show ?thesis using o v by (simp add: Singleton_destroy_def delete_object_def)
qed

lemma ThreadLocal_new_ok:
  assumes ok: "process_ok p" and r: "ThreadLocal_new p = Some (k, p')"
  shows "process_ok p'" "s_value p' = s_value p" "ponce p' = ponce p" "exit_handlers p' = exit_handlers p"
proof -
  have p': "p' = p\<lparr>keys := keys p @ [(next_key p, Delete_object)], next_key := Suc (next_key p)\<rparr>"
    using r by (auto simp: ThreadLocal_new_def pthread_key_create_def split: if_splits)
  obtain d where d: "deleter p = Some d" using ok by (rule process_ok_deleter)
  have n: "next_key p \<notin> fst ` set (keys p)" and m: "d \<in> fst ` set (keys p)" using ok d by (auto simp: process_ok_def keys_ok_def)
  then have "d \<noteq> next_key p" by blast
  then have "keys_ok p'" using ok d n m unfolding process_ok_def keys_ok_def p' by (auto simp: less_Suc_eq)
  moreover have "pointers_ok p'" using ok unfolding process_ok_def pointers_ok_def p' by simp
  ultimately show "process_ok p'" by (simp add: process_ok_def)
qed (use r in \<open>auto simp: ThreadLocal_new_def pthread_key_create_def split: if_splits\<close>)

lemma ThreadLocal_delete_ok:
  assumes ok: "process_ok p" and k: "map_of (keys p) k = Some Delete_object" and r: "ThreadLocal_delete k p = Some p'"
  shows "process_ok p'" "s_value p' = s_value p" "ponce p' = ponce p" "exit_handlers p' = exit_handlers p"
proof -
  have p': "p' = p\<lparr>keys := filter (\<lambda>(k', _). k' \<noteq> k) (keys p), specific := (\<lambda>t. (specific p t)(k := None))\<rparr>"
    using r k by (simp add: ThreadLocal_delete_def pthread_key_delete_def)
  obtain d where d: "deleter p = Some d" using ok by (rule process_ok_deleter)
  note dk = process_ok_deleter_key [OF ok d]
  have "d \<noteq> k" using dk(1) k by auto
  have f: "set (keys p') = {x \<in> set (keys p). fst x \<noteq> k}" "fst ` set (keys p') = fst ` set (keys p) - {k}" unfolding p' by force+
  have di: "distinct (map fst (keys p'))" using ok by (auto simp: p' process_ok_def keys_ok_def distinct_map_filter)
  have r: "next_key p' = next_key p" "deleter p' = deleter p" "objects p' = objects p" "next_object p' = next_object p" "s_value p' = s_value p"
    "ponce p' = ponce p" "t_value p' = t_value p" "\<And>t l. specific p' t l = (if l = k then None else specific p t l)" by (simp_all add: p')
  have "keys_ok p'" using ok d di \<open>d \<noteq> k\<close> unfolding process_ok_def keys_ok_def f(2) set_map r unfolding f(1) by auto
  moreover have "pointers_ok p'" using ok d \<open>d \<noteq> k\<close> unfolding process_ok_def pointers_ok_def f(2) r by (auto split: if_splits)
  ultimately show "process_ok p'" by (simp add: process_ok_def)
qed (use r k in \<open>auto simp: ThreadLocal_delete_def pthread_key_delete_def\<close>)

section \<open>All sequences of operations\<close>

text \<open>
  \<open>x\<close> is a default constructed object, \<open>nd\<close> says whether the class has the member \<^verbatim>\<open>no_destroy\<close>. Programs may change
  live objects.
\<close>

inductive local_step :: "'a \<Rightarrow> bool \<Rightarrow> 'a process \<Rightarrow> 'a process \<Rightarrow> bool" for x nd where
  make: "ThreadLocal_new p = Some (k, p') \<Longrightarrow> local_step x nd p p'"
| unmake: "map_of (keys p) k = Some Delete_object \<Longrightarrow> ThreadLocal_delete k p = Some p' \<Longrightarrow> local_step x nd p p'"
| local_value: "map_of (keys p) k = Some Delete_object \<Longrightarrow> ThreadLocal_value x t k p = Some (a, p') \<Longrightarrow> local_step x nd p p'"
| local_instance: "ThreadLocalSingleton_instance x t p = Some (a, p') \<Longrightarrow> local_step x nd p p'"
| global_instance: "Singleton_instance nd x p = Some (a, p') \<Longrightarrow> local_step x nd p p'"
| finish: "thread_exit t p = Some p' \<Longrightarrow> local_step x nd p p'"
| assign: "objects p a \<noteq> None \<Longrightarrow> local_step x nd p (p\<lparr>objects := (objects p)(a \<mapsto> y)\<rparr>)"

text \<open>The exit handler is registered once, with the first use of the singleton.\<close>

definition process_good :: "bool \<Rightarrow> 'a process \<Rightarrow> bool" where
  "process_good nd p \<longleftrightarrow> process_ok p \<and> exit_handlers p = (if ponce p \<and> \<not> nd then 1 else 0)"

lemma local_step_keeps:
  assumes "local_step x nd p p'" "process_ok p"
  shows "process_ok p' \<and> (exit_handlers p = (if ponce p \<and> \<not> nd then 1 else 0) \<longrightarrow> exit_handlers p' = (if ponce p' \<and> \<not> nd then 1 else 0)) \<and>
    (\<forall>a. ponce p \<and> s_value p = Some a \<longrightarrow> ponce p' \<and> s_value p' = Some a)"
  using assms
proof cases
  case (make k)
  then show ?thesis using ThreadLocal_new_ok [OF assms(2) make] by simp
next
  case (unmake k)
  then show ?thesis using ThreadLocal_delete_ok [OF assms(2) unmake] by simp
next
  case (local_value k t a)
  then show ?thesis using ThreadLocal_value_gives [OF assms(2) local_value(1), of x t] by (auto simp: gives_def)
next
  case (local_instance t a)
  obtain k where "deleter p = Some k" using assms(2) by (rule process_ok_deleter)
  then show ?thesis using local_instance ThreadLocalSingleton_instance_gives [OF assms(2), of k x t] by (auto simp: gives_def)
next
  case (global_instance a)
  note i = Singleton_instance_ok [OF assms(2) global_instance]
  show ?thesis using i by (cases "ponce p") auto
next
  case (finish t)
  then show ?thesis using run_destructors_ok [OF assms(2) subset_refl, of t] by (auto simp: thread_exit_def exited_def)
next
  case (assign a y)
  then show ?thesis using assms(2) by (auto simp: process_ok_def keys_ok_def pointers_ok_def)
qed

lemma process_new_ok: "process_good nd process_new"
  by (simp add: process_new_def Deleter_new_def pthread_key_create_def PTHREAD_KEYS_MAX_def process_good_def process_ok_def keys_ok_def pointers_ok_def)

interpretation locals: invariant_system "\<lambda>p. p = process_new" "local_step x nd" "process_good nd" for x nd
proof unfold_locales
  show "process_good nd p" if "p = process_new" for p :: "'a process" using that process_new_ok by simp
  show "process_good nd p'" if "process_good nd p" "local_step x nd p p'" for p p'
    using that(1) local_step_keeps [OF that(2)] unfolding process_good_def by blast
qed

lemma local_steps_s_value:
  assumes "(local_step x nd)\<^sup>*\<^sup>* p p'" "process_ok p" "ponce p" "s_value p = Some a"
  shows "ponce p' \<and> s_value p' = Some a"
proof -
  have "process_ok p' \<and> ponce p' \<and> s_value p' = Some a"
    using assms by (induction rule: rtranclp_induct) (auto dest: local_step_keeps)
  then show ?thesis by blast
qed

text \<open>
  A singleton is one object for the whole process: in every state a program can reach, the first call of
  \<open>instance\<close> creates the object and registers the destroying exit handler once (never, if the class has
  \<^verbatim>\<open>no_destroy\<close>); after any further operations of any threads each call returns this same live object and
  changes nothing; the exit handler deletes it, and a call after that fails the assertion.
\<close>

theorem singleton_one_object:
  assumes "(local_step x nd)\<^sup>*\<^sup>* process_new p" "Singleton_instance nd x p = Some (a, p1)" "(local_step x nd)\<^sup>*\<^sup>* p1 p2"
  shows "Singleton_instance nd x p2 = Some (a, p2) \<and> objects p2 a \<noteq> None \<and> exit_handlers p2 = (if nd then 0 else 1) \<and>
    (\<exists>p3. Singleton_destroy p2 = Some p3 \<and> objects p3 = (objects p2)(a := None) \<and> Singleton_instance nd x p3 = None)"
proof -
  have ok: "process_ok p" using locals.reachable_good [OF refl assms(1)] by (simp add: process_good_def)
  note i = Singleton_instance_ok [OF ok assms(2)]
  have "(local_step x nd)\<^sup>*\<^sup>* process_new p1" by (rule rtranclp.rtrancl_into_rtrancl [OF assms(1) global_instance [OF assms(2)]])
  from locals.reachable_good [OF refl rtranclp_trans [OF this assms(3)]] have g: "process_good nd p2" .
  have v: "ponce p2" "s_value p2 = Some a" using local_steps_s_value [OF assms(3) i(1-3)] by simp_all
  have ok2: "process_ok p2" using g by (simp add: process_good_def)
  obtain p3 where p3: "Singleton_destroy p2 = Some p3" "objects p3 = (objects p2)(a := None)" "s_value p3 = None" "ponce p3"
    using Singleton_destroy_ok [OF ok2 v(2)] by blast
  show ?thesis using v g p3 process_okD(5) [OF ok2 v(2)] by (simp add: Singleton_instance_def process_good_def)
qed

theorem singleton_one_object_witness:
  "\<exists>p1 p2 p3. Singleton_instance False (0 :: nat) process_new = Some (0, p1) \<and> ThreadLocalSingleton_instance 0 7 p1 = Some (1, p2) \<and>
     Singleton_instance False 0 p2 = Some (0, p2) \<and> exit_handlers p2 = 1 \<and> Singleton_destroy p2 = Some p3 \<and> Singleton_instance False 0 p3 = None"
proof -
  obtain p1 where p1: "Singleton_instance False (0 :: nat) process_new = Some (0, p1)" "t_value p1 7 = None" "next_object p1 = 1" "deleter p1 = Some 0"
      "specific p1 7 = Map.empty" "map_of (keys p1) 0 = Some Delete_singleton"
    by (simp add: process_new_def Deleter_new_def pthread_key_create_def PTHREAD_KEYS_MAX_def Singleton_instance_def Singleton_init_def new_object_def)
  obtain p2 where p2: "ThreadLocalSingleton_instance 0 7 p1 = Some (1, p2)"
    using p1 by (simp add: ThreadLocalSingleton_instance_def new_object_def Deleter_set_def pthread_setspecific_def)
  have "(local_step 0 False)\<^sup>*\<^sup>* p1 p2" by (rule r_into_rtranclp) (rule local_instance [OF p2])
  from singleton_one_object [OF rtranclp.rtrancl_refl p1(1) this] p1(1) p2 show ?thesis by auto
qed

text \<open>
  Thread-local objects are separate: in every state a program can reach, \<open>value\<close> of a \<open>ThreadLocal\<close> and
  \<open>instance\<close> of the \<open>ThreadLocalSingleton\<close> return a live object that a second call in the same thread returns
  again, that no other thread and no other variable refers to, and whose creation leaves all other objects
  alone; a thread that ends deletes exactly its own objects, each once.
\<close>

theorem thread_local_separate:
  assumes "(local_step x nd)\<^sup>*\<^sup>* process_new p" "map_of (keys p) k = Some Delete_object"
  shows "(\<exists>a p'. ThreadLocal_value x t k p = Some (a, p') \<and> ThreadLocal_value x t k p' = Some (a, p') \<and> objects p' a \<noteq> None \<and>
      (\<forall>t' k'. (t', k') \<noteq> (t, k) \<longrightarrow> specific p' t' k' \<noteq> Some a) \<and> (\<forall>b. objects p b \<noteq> None \<longrightarrow> objects p' b = objects p b)) \<and>
    (\<exists>a p'. ThreadLocalSingleton_instance x t p = Some (a, p') \<and> ThreadLocalSingleton_instance x t p' = Some (a, p') \<and>
      ThreadLocalSingleton_pointer t p' = Some a \<and> objects p' a \<noteq> None \<and> (\<forall>t'. t' \<noteq> t \<longrightarrow> ThreadLocalSingleton_pointer t' p' \<noteq> Some a)) \<and>
    (\<exists>p'. thread_exit t p = Some p' \<and> objects p' = (\<lambda>a. if a \<in> ran (specific p t) then None else objects p a))"
proof -
  have ok: "process_ok p" using locals.reachable_good [OF refl assms(1)] by (simp add: process_good_def)
  obtain a p' where v: "ThreadLocal_value x t k p = Some (a, p')" "gives t k a p p'" using ThreadLocal_value_gives [OF ok assms(2)] by blast
  have v2: "ThreadLocal_value x t k p' = Some (a, p')" using v(2) by (simp add: ThreadLocal_value_def gives_def)
  obtain d where d: "deleter p = Some d" using ok by (rule process_ok_deleter)
  obtain b q where i: "ThreadLocalSingleton_instance x t p = Some (b, q)" "gives t d b p q"
    using ThreadLocalSingleton_instance_gives [OF ok d] by blast
  have q: "process_ok q" "deleter q = Some d" using i(2) d by (simp_all add: gives_def)
  have tv: "t_value q t' = specific q t' d" for t' by (rule process_ok_deleter_key(2) [OF q])
  then have i2: "ThreadLocalSingleton_instance x t q = Some (b, q)" using i(2) by (simp add: ThreadLocalSingleton_instance_def gives_def)
  obtain r where r: "thread_exit t p = Some r" "exited t (fst ` set (keys p)) p r"
    using run_destructors_ok [OF ok subset_refl, of t] by (auto simp: thread_exit_def)
  have "(\<exists>l\<in>fst ` set (keys p). specific p t l = Some c) \<longleftrightarrow> c \<in> ran (specific p t)" for c
    using process_okD(3) [OF ok] by (force simp: ran_def)
  then have "objects r = (\<lambda>a. if a \<in> ran (specific p t) then None else objects p a)" using r(2) by (simp add: exited_def)
  moreover have "ThreadLocalSingleton_pointer t q = Some b" "\<forall>t'. t' \<noteq> t \<longrightarrow> ThreadLocalSingleton_pointer t' q \<noteq> Some b"
    unfolding ThreadLocalSingleton_pointer_def tv using givesD(1,3) [OF i(2)] by auto
  ultimately show ?thesis using v(1) v2 givesD(2-4) [OF v(2)] i(1) i2 givesD(2) [OF i(2)] r(1) by blast
qed

theorem thread_local_separate_witness:
  "\<exists>p a p' r. ThreadLocal_new (process_new :: nat process) = Some (1, p) \<and> ThreadLocal_value 5 7 1 p = Some (a, p') \<and>
     objects p' a \<noteq> None \<and> specific p' 8 1 \<noteq> Some a \<and> thread_exit 7 p = Some r"
proof -
  let ?p = "process_new :: nat process"
  obtain p where p: "ThreadLocal_new ?p = Some (1, p)" "keys p = [(0, Delete_singleton), (1, Delete_object)]"
    by (simp add: process_new_def Deleter_new_def pthread_key_create_def PTHREAD_KEYS_MAX_def ThreadLocal_new_def)
  have "(local_step 5 False)\<^sup>*\<^sup>* ?p p" by (rule r_into_rtranclp) (rule make [OF p(1)])
  moreover have "map_of (keys p) 1 = Some Delete_object" by (simp add: p(2))
  ultimately obtain a p' r where "ThreadLocal_value 5 7 1 p = Some (a, p')" "objects p' a \<noteq> None"
      "\<forall>t' k'. (t', k') \<noteq> (7, 1) \<longrightarrow> specific p' t' k' \<noteq> Some a" "thread_exit 7 p = Some r"
    using thread_local_separate [of 5 False p 1 7] by blast
  moreover have "(8, 1) \<noteq> (7 :: nat, 1 :: nat)" by simp
  ultimately show ?thesis using p(1) by blast
qed

end
