(* ===== verification/Muduo_Interfaces.thy ===== *)
theory Muduo_Interfaces
  imports Length_Codec Muduo_Local
begin

text \<open>
  The inline functions of the classes the server is built on: \<^verbatim>\<open>net/EventLoop.h\<close>, \<^verbatim>\<open>net/TcpConnection.h\<close>,
  \<^verbatim>\<open>net/TcpServer.h\<close>, \<^verbatim>\<open>net/TcpClient.h\<close>, and the small value classes around them. Loops, threads and
  callbacks of the application are type parameters or functions on a state of the application; what the
  compiled library does with these members is not in the repository. \<^verbatim>\<open>get\<close> functions without a body of their own
  beyond a member are the selectors of the records.
\<close>

section \<open>EventLoop.h\<close>

record 'c EventLoop =
  loop_eventHandling :: bool
  loop_iteration :: "64 word"
  loop_threadId :: int
  loop_pollReturnTime :: Timestamp
  loop_context :: "'c option"

definition pollReturnTime :: "'c EventLoop \<Rightarrow> Timestamp" where
  "pollReturnTime l = loop_pollReturnTime l"

definition iteration :: "'c EventLoop \<Rightarrow> 64 word" where
  "iteration l = loop_iteration l"

text \<open>The thread \<open>t\<close> asks; the cached thread ids may change by the call.\<close>

definition isInLoopThread :: "(nat \<Rightarrow> int) \<Rightarrow> nat \<Rightarrow> 'c EventLoop \<Rightarrow> (nat \<Rightarrow> int) \<Rightarrow> bool \<times> (nat \<Rightarrow> int)" where
  "isInLoopThread gettid t l cached =
     (case CurrentThread_tid gettid t cached of (n, cached) \<Rightarrow> (loop_threadId l = n, cached))"

definition assertInLoopThread :: "(nat \<Rightarrow> int) \<Rightarrow> nat \<Rightarrow> 'c EventLoop \<Rightarrow> (nat \<Rightarrow> int) \<Rightarrow> (nat \<Rightarrow> int) option" where
  "assertInLoopThread gettid t l cached =
     (case isInLoopThread gettid t l cached of (b, cached) \<Rightarrow> if b then Some cached else None)"

definition eventHandling :: "'c EventLoop \<Rightarrow> bool" where
  "eventHandling l = loop_eventHandling l"

definition loop_setContext :: "'c \<Rightarrow> 'c EventLoop \<Rightarrow> 'c EventLoop" where
  "loop_setContext context l = l\<lparr>loop_context := Some context\<rparr>"

definition loop_getContext :: "'c EventLoop \<Rightarrow> 'c option" where
  "loop_getContext l = loop_context l"

text \<open>A change through the pointer to the context.\<close>

definition loop_getMutableContext :: "('c option \<Rightarrow> 'c option) \<Rightarrow> 'c EventLoop \<Rightarrow> 'c EventLoop" where
  "loop_getMutableContext change l = l\<lparr>loop_context := change (loop_context l)\<rparr>"

text \<open>
  Thread ids are positive and differ, and the cache holds the id of a thread or 0: then the assertion holds in
  the thread of the loop and aborts in every other, and stays so.
\<close>

definition tids_ok :: "(nat \<Rightarrow> int) \<Rightarrow> (nat \<Rightarrow> int) \<Rightarrow> bool" where
  "tids_ok gettid cached \<longleftrightarrow> (\<forall>t. 0 < gettid t) \<and> inj gettid \<and> (\<forall>t. cached t \<in> {0, gettid t})"

lemma tids_ok_tid:
  assumes "tids_ok gettid cached" "CurrentThread_tid gettid t cached = (n, cached')"
  shows "n = gettid t" "tids_ok gettid cached'"
proof -
  have "0 < gettid t" "cached t \<in> {0, gettid t}" using assms(1) by (simp_all add: tids_ok_def)
  then have "gettid t \<noteq> 0" "cached t \<in> {0, gettid t}" by simp_all
  from CurrentThread_tid_stable [OF this assms(2)] show "n = gettid t" by simp
  show "tids_ok gettid cached'"
    using assms by (auto simp: tids_ok_def CurrentThread_tid_def Let_def split: if_splits)
qed

lemma assertInLoopThread_iff:
  assumes "tids_ok gettid cached" "loop_threadId l = gettid owner"
  shows "assertInLoopThread gettid t l cached \<noteq> None \<longleftrightarrow> t = owner"
    "assertInLoopThread gettid t l cached = Some cached' \<Longrightarrow> tids_ok gettid cached'"
proof -
  obtain n c where c: "CurrentThread_tid gettid t cached = (n, c)" by fastforce
  note k = tids_ok_tid [OF assms(1) c]
  have "inj gettid" using assms(1) by (simp add: tids_ok_def)
  then show "assertInLoopThread gettid t l cached \<noteq> None \<longleftrightarrow> t = owner"
    using c k(1) assms(2) by (auto simp: assertInLoopThread_def isInLoopThread_def dest: injD)
  show "tids_ok gettid cached'" if "assertInLoopThread gettid t l cached = Some cached'"
    using that c k(2) by (auto simp: assertInLoopThread_def isInLoopThread_def split: if_splits)
qed

section \<open>TcpConnection.h\<close>

text \<open>\<open>'s\<close> is the state of the application that callbacks change.\<close>

record ('l, 'a, 's, 'c) TcpConnection =
  tc_loop :: 'l
  tc_name :: bytes
  tc_state :: StateE
  tc_reading :: bool
  tc_localAddr :: 'a
  tc_peerAddr :: 'a
  tc_connectionCallback :: "(conn \<Rightarrow> 's \<Rightarrow> 's option) option"
  tc_messageCallback :: "(conn \<Rightarrow> Timestamp \<Rightarrow> Buffer \<Rightarrow> 's \<Rightarrow> (Buffer \<times> 's) option) option"
  tc_writeCompleteCallback :: "(conn \<Rightarrow> 's \<Rightarrow> 's option) option"
  tc_highWaterMarkCallback :: "(conn \<Rightarrow> nat \<Rightarrow> 's \<Rightarrow> 's option) option"
  tc_closeCallback :: "(conn \<Rightarrow> 's \<Rightarrow> 's option) option"
  tc_highWaterMark :: nat
  tc_inputBuffer :: Buffer
  tc_outputBuffer :: Buffer
  tc_context :: "'c option"

definition tc_connected :: "('l, 'a, 's, 'c) TcpConnection \<Rightarrow> bool" where
  "tc_connected c \<longleftrightarrow> tc_state c = kConnected"

definition tc_disconnected :: "('l, 'a, 's, 'c) TcpConnection \<Rightarrow> bool" where
  "tc_disconnected c \<longleftrightarrow> tc_state c = kDisconnected"

definition tc_isReading :: "('l, 'a, 's, 'c) TcpConnection \<Rightarrow> bool" where
  "tc_isReading c \<longleftrightarrow> tc_reading c"

definition tc_setContext :: "'c \<Rightarrow> ('l, 'a, 's, 'c) TcpConnection \<Rightarrow> ('l, 'a, 's, 'c) TcpConnection" where
  "tc_setContext context c = c\<lparr>tc_context := Some context\<rparr>"

definition tc_getContext :: "('l, 'a, 's, 'c) TcpConnection \<Rightarrow> 'c option" where
  "tc_getContext c = tc_context c"

definition tc_getMutableContext :: "('c option \<Rightarrow> 'c option) \<Rightarrow> ('l, 'a, 's, 'c) TcpConnection \<Rightarrow> ('l, 'a, 's, 'c) TcpConnection" where
  "tc_getMutableContext change c = c\<lparr>tc_context := change (tc_context c)\<rparr>"

definition tc_setConnectionCallback where
  "tc_setConnectionCallback cb c = c\<lparr>tc_connectionCallback := Some cb\<rparr>"

definition tc_setMessageCallback where
  "tc_setMessageCallback cb c = c\<lparr>tc_messageCallback := Some cb\<rparr>"

definition tc_setWriteCompleteCallback where
  "tc_setWriteCompleteCallback cb c = c\<lparr>tc_writeCompleteCallback := Some cb\<rparr>"

definition tc_setHighWaterMarkCallback where
  "tc_setHighWaterMarkCallback cb mark c = c\<lparr>tc_highWaterMarkCallback := Some cb, tc_highWaterMark := mark\<rparr>"

definition tc_setCloseCallback where
  "tc_setCloseCallback cb c = c\<lparr>tc_closeCallback := Some cb\<rparr>"

definition tc_setState :: "StateE \<Rightarrow> ('l, 'a, 's, 'c) TcpConnection \<Rightarrow> ('l, 'a, 's, 'c) TcpConnection" where
  "tc_setState s c = c\<lparr>tc_state := s\<rparr>"

section \<open>TcpServer.h\<close>

datatype TcpServer_Option = kNoReusePort | kReusePort

record ('l, 's) TcpServer =
  ts_loop :: 'l
  ts_ipPort :: bytes
  ts_name :: bytes
  ts_connectionCallback :: "(Timestamp \<Rightarrow> conn \<Rightarrow> 's \<Rightarrow> 's option) option"
  ts_messageCallback :: "(conn \<Rightarrow> Timestamp \<Rightarrow> Buffer \<Rightarrow> 's \<Rightarrow> (Buffer \<times> 's) option) option"
  ts_writeCompleteCallback :: "(conn \<Rightarrow> 's \<Rightarrow> 's option) option"
  ts_threadInitCallback :: "('l \<Rightarrow> 's \<Rightarrow> 's option) option"

definition ts_setThreadInitCallback where
  "ts_setThreadInitCallback cb s = s\<lparr>ts_threadInitCallback := Some cb\<rparr>"

definition ts_setConnectionCallback where
  "ts_setConnectionCallback cb s = s\<lparr>ts_connectionCallback := Some cb\<rparr>"

definition ts_setMessageCallback where
  "ts_setMessageCallback cb s = s\<lparr>ts_messageCallback := Some cb\<rparr>"

definition ts_setWriteCompleteCallback where
  "ts_setWriteCompleteCallback cb s = s\<lparr>ts_writeCompleteCallback := Some cb\<rparr>"

section \<open>TcpClient.h and value classes\<close>

record ('l, 's) TcpClient =
  cl_loop :: 'l
  cl_name :: bytes
  cl_connectionCallback :: "(conn \<Rightarrow> 's \<Rightarrow> 's option) option"
  cl_messageCallback :: "(conn \<Rightarrow> Timestamp \<Rightarrow> Buffer \<Rightarrow> 's \<Rightarrow> (Buffer \<times> 's) option) option"
  cl_writeCompleteCallback :: "(conn \<Rightarrow> 's \<Rightarrow> 's option) option"
  cl_retry :: bool
  cl_connection :: "conn option"

definition cl_enableRetry :: "('l, 's) TcpClient \<Rightarrow> ('l, 's) TcpClient" where
  "cl_enableRetry c = c\<lparr>cl_retry := True\<rparr>"

definition cl_setConnectionCallback where
  "cl_setConnectionCallback cb c = c\<lparr>cl_connectionCallback := Some cb\<rparr>"

definition cl_setMessageCallback where
  "cl_setMessageCallback cb c = c\<lparr>cl_messageCallback := Some cb\<rparr>"

definition cl_setWriteCompleteCallback where
  "cl_setWriteCompleteCallback cb c = c\<lparr>cl_writeCompleteCallback := Some cb\<rparr>"

record TimerId =
  timer_ptr :: nat
  timer_sequence :: "64 word"

definition TimerId_null :: TimerId where
  "TimerId_null = \<lparr>timer_ptr = 0, timer_sequence = 0\<rparr>"

definition TimerId_new :: "nat \<Rightarrow> 64 word \<Rightarrow> TimerId" where
  "TimerId_new timer seq = \<lparr>timer_ptr = timer, timer_sequence = seq\<rparr>"

end
