(* ===== verification/C_Strings.thy ===== *)
theory C_Strings
  imports P2P_Prelude
begin

text \<open>
  What the programs of the repository use of the C library's string functions: strings as byte arrays
  that end at the first zero byte, \<^verbatim>\<open>strlen\<close>, \<^verbatim>\<open>strcspn\<close>, \<^verbatim>\<open>strcmp\<close> against a literal, \<^verbatim>\<open>snprintf\<close> with
  \<^verbatim>\<open>"%s"\<close>, \<^verbatim>\<open>atoi\<close>, \<^verbatim>\<open>fgets\<close> and \<^verbatim>\<open>getopt\<close>. A read past the end of an array is \<open>None\<close>.
\<close>

definition bytes_of :: "string \<Rightarrow> bytes" where
  "bytes_of s = map of_char s"

text \<open>The string in an array; \<open>is_cstring\<close> tells that there is a terminator.\<close>

definition cstring :: "bytes \<Rightarrow> bytes" where
  "cstring a = takeWhile (\<lambda>b. b \<noteq> 0) a"

definition is_cstring :: "bytes \<Rightarrow> bool" where
  "is_cstring a \<longleftrightarrow> 0 \<in> set a"

definition c_strlen :: "bytes \<Rightarrow> nat option" where
  "c_strlen a = (if is_cstring a then Some (length (cstring a)) else None)"

definition c_streq :: "bytes \<Rightarrow> bytes \<Rightarrow> bool option" where
  "c_streq a s = (if is_cstring a then Some (cstring a = s) else None)"

text \<open>\<^verbatim>\<open>strcspn(a, "\n")\<close>.\<close>

definition c_strcspn_newline :: "bytes \<Rightarrow> nat option" where
  "c_strcspn_newline a =
     (if is_cstring a then Some (length (takeWhile (\<lambda>b. b \<noteq> 10) (cstring a))) else None)"

text \<open>\<^verbatim>\<open>snprintf(dst, sizeof(dst), "%s", s)\<close>: at most all but one byte of the array, and a terminator.\<close>

definition c_snprintf :: "bytes \<Rightarrow> bytes \<Rightarrow> bytes" where
  "c_snprintf dst s = blit dst 0 (take (length dst - 1) s @ [0])"

text \<open>\<^verbatim>\<open>fgets(dst, n, stdin)\<close>: the bytes read and the rest of the input; \<open>None\<close> at the end of the input.\<close>

fun read_line :: "nat \<Rightarrow> bytes \<Rightarrow> bytes \<times> bytes" where
  "read_line 0 inp = ([], inp)"
| "read_line (Suc n) [] = ([], [])"
| "read_line (Suc n) (b # inp) =
     (if b = 10 then ([b], inp) else (case read_line n inp of (l, inp') \<Rightarrow> (b # l, inp')))"

definition c_fgets :: "bytes \<Rightarrow> bytes \<Rightarrow> (bytes \<times> bytes) option" where
  "c_fgets dst inp =
     (if inp = [] then None
      else (case read_line (length dst - 1) inp of (l, inp') \<Rightarrow> Some (blit dst 0 (l @ [0]), inp')))"

section \<open>Numbers\<close>

definition c_isspace :: "byte \<Rightarrow> bool" where
  "c_isspace b \<longleftrightarrow> b = 32 \<or> 9 \<le> b \<and> b \<le> 13"

definition c_isdigit :: "byte \<Rightarrow> bool" where
  "c_isdigit b \<longleftrightarrow> 48 \<le> b \<and> b \<le> 57"

definition digits_value :: "bytes \<Rightarrow> int" where
  "digits_value ds = foldl (\<lambda>n d. 10 * n + (uint d - 48)) 0 ds"

text \<open>\<^verbatim>\<open>atoi\<close>; a value outside the range of \<^verbatim>\<open>int\<close> is undefined.\<close>

definition c_atoi :: "bytes \<Rightarrow> int option" where
  "c_atoi s =
     (let s = dropWhile c_isspace s;
          neg = (s \<noteq> [] \<and> hd s = 45);
          s = (if s \<noteq> [] \<and> (hd s = 45 \<or> hd s = 43) then tl s else s);
          v = digits_value (takeWhile c_isdigit s);
          r = (if neg then - v else v) in
      if - (2 ^ 31) \<le> r \<and> r < 2 ^ 31 then Some r else None)"

section \<open>Options\<close>

text \<open>
  The results of \<^verbatim>\<open>getopt(argc, argv, "s:p:m:o:")\<close> one after the other, each an option character with its
  argument, on the arguments behind the program name. All options take an argument, in the same word or
  the next one. \<^verbatim>\<open>'?'\<close> (63) stands for an unknown option or a missing argument and ends the list, because the
  caller returns. Words that are no options are passed over, \<^verbatim>\<open>"--"\<close> ends the options.
\<close>

definition is_option :: "bytes \<Rightarrow> bool" where
  "is_option a \<longleftrightarrow> 2 \<le> length a \<and> hd a = 45"

fun c_getopt :: "byte list \<Rightarrow> bytes list \<Rightarrow> (byte \<times> bytes) list" where
  "c_getopt opts [] = []"
| "c_getopt opts [a] =
     (if \<not> is_option a \<or> a = [45, 45] then []
      else if a ! 1 \<in> set opts \<and> drop 2 a \<noteq> [] then [(a ! 1, drop 2 a)]
      else [(63, [])])"
| "c_getopt opts (a # v # as) =
     (if \<not> is_option a then c_getopt opts (v # as)
      else if a = [45, 45] then []
      else if a ! 1 \<notin> set opts then [(63, [])]
      else if drop 2 a \<noteq> [] then (a ! 1, drop 2 a) # c_getopt opts (v # as)
      else (a ! 1, v) # c_getopt opts as)"

section \<open>Laws\<close>

lemma cstring_append_zero: "0 \<notin> set s \<Longrightarrow> cstring (s @ 0 # xs) = s"
  by (auto simp: cstring_def takeWhile_append)

lemma cstring_length: "is_cstring a \<Longrightarrow> length (cstring a) < length a"
  unfolding is_cstring_def cstring_def by (induction a) auto

lemma length_c_snprintf [simp]: "0 < length dst \<Longrightarrow> length (c_snprintf dst s) = length dst"
  by (cases dst) (auto simp: c_snprintf_def intro!: length_blit)

lemma snprintf_cstring:
  assumes "0 < length dst" "0 \<notin> set s"
  shows "is_cstring (c_snprintf dst s)" "cstring (c_snprintf dst s) = take (length dst - 1) s"
proof -
  have "0 \<notin> set (take (length dst - 1) s)" using assms(2) by (meson in_set_takeD)
  then show "is_cstring (c_snprintf dst s)" "cstring (c_snprintf dst s) = take (length dst - 1) s"
    by (auto simp: c_snprintf_def blit_def is_cstring_def cstring_append_zero)
qed

lemma read_line_spec: "read_line n inp = (l, inp') \<Longrightarrow> l @ inp' = inp \<and> length l \<le> n \<and> 10 \<notin> set (butlast l)"
  by (induction n inp arbitrary: l inp' rule: read_line.induct) (auto split: if_splits prod.splits)

lemma read_line_line: "10 \<notin> set s \<Longrightarrow> length s < n \<Longrightarrow> read_line n (s @ 10 # inp) = (s @ [10], inp)"
proof (induction s arbitrary: n)
  case Nil
  then show ?case by (cases n) auto
next
  case (Cons b s)
  then show ?case by (cases n) auto
qed

lemma length_c_fgets:
  assumes "c_fgets dst inp = Some (a, inp')" "0 < length dst"
  shows "length a = length dst"
proof -
  obtain l r where l: "read_line (length dst - 1) inp = (l, r)" by fastforce
  then have "length l \<le> length dst - 1" using read_line_spec by blast
  then have "length (blit dst 0 (l @ [0])) = length dst" using assms(2) by (cases dst) (auto intro!: length_blit)
  then show ?thesis using assms(1) l by (auto simp: c_fgets_def split: if_splits)
qed

lemma c_fgets_cstring: "c_fgets dst inp = Some (a, inp') \<Longrightarrow> is_cstring a"
  by (auto simp: c_fgets_def is_cstring_def blit_def split: if_splits prod.splits)

end
