(* ===== verification/P2p_Server_Main.thy ===== *)
theory P2p_Server_Main
  imports P2p_Server_Threads Muduo_Interfaces C_Strings
begin

text \<open>
  The constructor of the server, which registers its callbacks, and \<^verbatim>\<open>main\<close>: the port from the first argument, the server with an idle time of 300
  seconds, and the start of its two loops. \<open>args\<close> are the arguments behind the program name; a missing one is the
  null pointer \<^verbatim>\<open>argv[1]\<close>, which \<^verbatim>\<open>atoi\<close> may not read. The network library is the state \<open>n\<close>;
  \<^verbatim>\<open>loop.loop()\<close> is the relation \<open>threads_step\<close> from the server that \<open>server_main\<close> leaves.
\<close>

section \<open>The callbacks are registered\<close>

text \<open>
  The body of the constructor: the connection callback, the codec as message callback, and the timer on the base loop
  with its interval in seconds. \<open>timers\<close> are the registered timers of that loop.
\<close>

record ('l, 'n) server_setup =
  tcp_server :: "('l, 'n p2pServer) TcpServer"
  timers :: "(rat \<times> (Timestamp \<Rightarrow> 'n p2pServer \<Rightarrow> 'n p2pServer option)) list"

definition p2pServer_wire :: "'n tcp_api \<Rightarrow> ('l, 'n) server_setup \<Rightarrow> ('l, 'n) server_setup" where
  "p2pServer_wire api w =
     w\<lparr>tcp_server := ts_setMessageCallback
          (LengthHeaderCodec_onMessage (onMessage api) (\<lambda>c s. s\<lparr>net := tcp_shutdown api c (net s)\<rparr>))
          (ts_setConnectionCallback (onConnection api) (tcp_server w)),
       timers := timers w @ [(1, onTimer api)]\<rparr>"

text \<open>
  What the library does with a server: it calls the registered functions on the events of the network. The rules are
  those of \<open>relay_step\<close>, with the callbacks taken from the registration.
\<close>

inductive dispatch_step :: "'n tcp_api \<Rightarrow> ('l, 'n) server_setup \<Rightarrow> 'n relay \<Rightarrow> 'n relay \<Rightarrow> bool" for api w where
  disp_up: "ts_connectionCallback (tcp_server w) = Some cb \<Longrightarrow> connContext (srv r) c = None \<Longrightarrow> connected api (net (srv r)) c \<Longrightarrow>
    cb now c (srv r) = Some s' \<Longrightarrow> Buffer_new kInitialSize = Some b \<Longrightarrow>
    dispatch_step api w r (r\<lparr>srv := s', up := insert c (up r), inbuf := (inbuf r)(c := b)\<rparr>)"
| disp_down: "ts_connectionCallback (tcp_server w) = Some cb \<Longrightarrow> c \<in> up r \<Longrightarrow> \<not> connected api (net (srv r)) c \<Longrightarrow>
    cb now c (srv r) = Some s' \<Longrightarrow> dispatch_step api w r (r\<lparr>srv := s', up := up r - {c}\<rparr>)"
| disp_readable: "ts_messageCallback (tcp_server w) = Some cb \<Longrightarrow> c \<in> up r \<Longrightarrow> Buffer_append seg (length seg) (inbuf r c) = Some b \<Longrightarrow>
    cb c now b (srv r) = Some (b', s') \<Longrightarrow> dispatch_step api w r (r\<lparr>srv := s', inbuf := (inbuf r)(c := b')\<rparr>)"
| disp_timer: "(period, cb) \<in> set (timers w) \<Longrightarrow> \<forall>c\<in>up r. tcp_lock api (net (srv r)) c \<Longrightarrow> cb now (srv r) = Some s' \<Longrightarrow>
    dispatch_step api w r (r\<lparr>srv := s'\<rparr>)"
| disp_network: "dispatch_step api w r (r\<lparr>srv := (srv r)\<lparr>net := n\<rparr>\<rparr>)"

lemma p2pServer_wire_simps:
  "ts_connectionCallback (tcp_server (p2pServer_wire api w)) = Some (onConnection api)"
  "ts_messageCallback (tcp_server (p2pServer_wire api w)) =
     Some (LengthHeaderCodec_onMessage (onMessage api) (\<lambda>c s. s\<lparr>net := tcp_shutdown api c (net s)\<rparr>))"
  "timers (p2pServer_wire api w) = timers w @ [(1, onTimer api)]"
  by (simp_all add: p2pServer_wire_def ts_setMessageCallback_def ts_setConnectionCallback_def)



section \<open>main\<close>

definition server_main :: "bytes list \<Rightarrow> 'n \<Rightarrow> (16 word \<times> 'n p2pServer) option" where
  "server_main args n =
     (case args of
        [] \<Rightarrow> None
      | a # _ \<Rightarrow> do { v \<leftarrow> c_atoi a; Some (word_of_int v, p2pServer_new 300 n) })"

lemma digits_value_nonneg: "\<forall>d\<in>set ds. c_isdigit d \<Longrightarrow> 0 \<le> digits_value ds"
proof (induction ds rule: rev_induct)
  case (snoc d ds)
  then have "48 \<le> d" by (simp add: c_isdigit_def)
  then have "48 \<le> uint d" by (simp add: word_le_def)
  then show ?case using snoc by (simp add: digits_value_def)
qed (simp add: digits_value_def)

lemma c_atoi_digits:
  assumes "\<forall>d\<in>set ds. c_isdigit d" "digits_value ds < 2 ^ 31"
  shows "c_atoi ds = Some (digits_value ds)"
proof -
  have "\<not> c_isspace (hd ds) \<and> hd ds \<noteq> 45 \<and> hd ds \<noteq> 43" if "ds \<noteq> []"
    using assms(1) that by (cases ds) (auto simp: c_isdigit_def c_isspace_def word_le_def)
  then have "dropWhile c_isspace ds = ds" "\<not> (ds \<noteq> [] \<and> hd ds = 45)" "\<not> (ds \<noteq> [] \<and> (hd ds = 45 \<or> hd ds = 43))"
    by (cases ds; simp)+
  moreover have "takeWhile c_isdigit ds = ds" using assms(1) by simp
  ultimately show ?thesis using assms(2) digits_value_nonneg [OF assms(1)] by (auto simp: c_atoi_def Let_def simp del: takeWhile_eq_all_conv)
qed

lemma server_main_starts:
  assumes "server_main args n = Some (port, s)" "\<forall>c. buf_ok (bufs c)"
  shows "threads_start \<lparr>io_side = \<lparr>srv = s, up = {}, inbuf = bufs\<rparr>, walk = None\<rparr>" "idleSeconds s = 300"
  using assms by (auto simp: server_main_def threads_start_def relay_start_def p2pServer_new_def bind_eq_Some_conv split: list.splits)

text \<open>The argument is taken modulo 65536.\<close>

lemma server_main_port:
  assumes "\<forall>d\<in>set a. c_isdigit d" "digits_value a < 2 ^ 31"
  shows "\<exists>port s. server_main (a # as) n = Some (port, s) \<and> uint port = digits_value a mod 65536"
  using c_atoi_digits [OF assms] by (simp add: server_main_def uint_word_of_int)

end
