(* ===== verification/Codec_Stream.thy ===== *)
theory Codec_Stream
  imports Length_Codec
begin

text \<open>
  What the layers below the relay promise it: the codec turns a byte stream into messages and back,
  however TCP cuts it; the buffer keeps its bytes and its bounds under every operation and reads back
  the integers written to it; string pieces are ordered like the strings they denote.
\<close>

definition ex_buf :: Buffer where
  "ex_buf = \<lparr>buffer = replicate 1032 0, readerIndex = 8, writerIndex = 8\<rparr>"

lemma ex_buf: "buf_ok ex_buf" "buf_contents ex_buf = []" "Buffer_new kInitialSize = Some ex_buf"
  by (simp_all add: ex_buf_def buf_view Buffer_new_def const_simps)

definition collect :: "bytes list \<Rightarrow> conn \<Rightarrow> bytes \<Rightarrow> Timestamp \<Rightarrow> bytes list option" where
  "collect ms conn m t = Some (ms @ [m])"

lemma ex_frames: "frame [7] = [0, 0, 0, 1, 7]" "frame [33] = [0, 0, 0, 1, 33]" "frame [104, 105] = [0, 0, 0, 2, 104, 105]"
  by code_simp+

section \<open>The codec\<close>

text \<open>
  C15. Sending and receiving: the frames the codec writes for a list of messages, cut into segments in
  any way, are delivered by \<^verbatim>\<open>onMessage\<close> at the other end as exactly those messages in that order, and
  the input buffer is empty afterwards.
\<close>

theorem codec_round_trip:
  assumes "buf_ok buf" "buf_contents buf = []" "\<forall>m\<in>set ms. length m \<le> 65536"
    and "concat segs = concat (map frame ms)"
  shows "(\<forall>m\<in>set ms. LengthHeaderCodec_send api conn (StringPiece_str m) n = Some (tcp_send api conn (frame m) n)) \<and>
    (\<exists>buf'. buf_ok buf' \<and> buf_contents buf' = [] \<and>
      on_segments cb sh conn t segs (buf, s) = map_option (\<lambda>s'. (buf', s')) (deliver cb conn t ms s))"
proof (rule conjI)
  show "\<forall>m\<in>set ms. LengthHeaderCodec_send api conn (StringPiece_str m) n = Some (tcp_send api conn (frame m) n)"
    using assms(3) by (force simp: LengthHeaderCodec_send_frame sp_ok_str)
  have "\<forall>m\<in>set ms. length m < 2 ^ 31 \<and> codec_ok (int (length m))" using assms(3) by (force simp: codec_ok_def)
  from split_frames_concat [OF this, of "[]"]
  have "split_frames codec_ok (concat (map frame ms)) = (ms, [], False)" by (simp add: split_frames_short)
  then show "\<exists>buf'. buf_ok buf' \<and> buf_contents buf' = [] \<and>
      on_segments cb sh conn t segs (buf, s) = map_option (\<lambda>s'. (buf', s')) (deliver cb conn t ms s)"
    using on_segments_refines [OF assms(1), of segs ms "[]" cb sh conn t s] assms(2,4) by (simp add: split_frames_short)
qed

theorem codec_round_trip_witness:
  "\<exists>buf'. on_segments collect (\<lambda>_ s. s) 4 (Timestamp 0) [[0, 0], [0, 2, 104, 105, 0], [0, 0, 1, 33]] (ex_buf, []) =
     Some (buf', [[104, 105], [33]])"
proof -
  have "concat [[0, 0], [0, 2, 104, 105, 0], [0, 0, 1, 33]] = concat (map frame [[104, 105], [33]])"
    by (simp add: ex_frames)
  from codec_round_trip [OF ex_buf(1,2) _ this, of sim_api 4 undefined collect "\<lambda>_ s. s" "Timestamp 0" "[]"]
  show ?thesis by (auto simp: collect_def)
qed

text \<open>
  TCP segmentation is invisible: two ways of cutting the same stream without an invalid length,
  its last frame complete or not, give the same
  calls of the callback with the same final state, the same abort, and the same bytes left in the buffer.
\<close>

theorem codec_segmentation_independent:
  assumes "buf_ok buf" "buf_contents buf = []" "concat segs = concat segs'"
    and "split_frames codec_ok (concat segs) = (ms, rest, False)"
  shows "map_option (\<lambda>(b, s'). (buf_contents b, s')) (on_segments cb sh conn t segs (buf, s)) =
    map_option (\<lambda>(b, s'). (buf_contents b, s')) (on_segments cb sh conn t segs' (buf, s))"
proof -
  have "map_option (\<lambda>(b, s'). (buf_contents b, s')) (on_segments cb sh conn t sg (buf, s)) =
      map_option (Pair rest) (deliver cb conn t ms s)" if "concat sg = concat segs" for sg
    using on_segments_refines [OF assms(1), of sg ms rest cb sh conn t s] that assms(2,4)
    by (auto simp: split_frames_short option.map_comp comp_def)
  then show ?thesis using assms(3) by simp
qed

theorem codec_segmentation_independent_witness:
  "split_frames codec_ok [0, 0, 0, 1, 7, 0, 0] = ([[7]], [0, 0], False) \<and>
   map_option (\<lambda>(b, s'). (buf_contents b, s')) (on_segments collect (\<lambda>_ s. s) 4 (Timestamp 0) [[0, 0, 0, 1, 7, 0, 0]] (ex_buf, [])) =
   map_option (\<lambda>(b, s'). (buf_contents b, s')) (on_segments collect (\<lambda>_ s. s) 4 (Timestamp 0) [[0], [0, 0, 1, 7], [0, 0]] (ex_buf, []))"
proof -
  have "concat (map frame [[7]]) @ [0, 0] = [0, 0, 0, 1, 7, 0, 0]" by (simp add: ex_frames)
  then have "split_frames codec_ok (concat [[0, 0, 0, 1, 7, 0, 0]]) = ([[7]], [0, 0], False)"
    using split_frames_concat [of "[[7]]" codec_ok "[0, 0]"] by (simp add: split_frames_short codec_ok_def)
  with codec_segmentation_independent [OF ex_buf(1,2) _ this, of "[[0], [0, 0, 1, 7], [0, 0]]" collect "\<lambda>_ s. s" 4 "Timestamp 0" "[]"]
  show ?thesis by simp
qed

text \<open>
  C16. A frame with an invalid length ends the connection: the messages before it are delivered, then the
  connection is shut down once, and the bytes from the bad header on stay in the buffer unread.
\<close>

theorem codec_rejects_bad_length:
  assumes "buf_ok buf" "buf_contents buf = concat (map frame ms) @ bad" "\<forall>m\<in>set ms. length m \<le> 65536"
    and "4 \<le> length bad" "header bad < 0 \<or> 65536 < header bad"
  shows "\<exists>buf'. buf_ok buf' \<and> buf_contents buf' = bad \<and>
    LengthHeaderCodec_onMessage cb sh conn t buf s = map_option (\<lambda>s'. (buf', sh conn s')) (deliver cb conn t ms s)"
proof -
  have "\<forall>m\<in>set ms. length m < 2 ^ 31 \<and> codec_ok (int (length m))" using assms(3) by (force simp: codec_ok_def)
  moreover have "split_frames codec_ok bad = ([], bad, True)"
    using assms(4,5) by (intro split_frames_bad) (auto simp: codec_ok_def)
  ultimately have "split_frames codec_ok (buf_contents buf) = (ms, bad, True)"
    using split_frames_concat [of ms codec_ok bad] assms(2) by simp
  from onMessage_refines [OF assms(1) this, of cb sh conn t s] show ?thesis by simp
qed

theorem codec_rejects_bad_length_witness:
  "\<exists>buf'. buf_contents buf' = [255, 0, 0, 0] \<and>
     LengthHeaderCodec_onMessage collect (\<lambda>_ s. s @ [[]]) 4 (Timestamp 0)
       \<lparr>buffer = replicate 8 0 @ [0, 0, 0, 1, 7, 255, 0, 0, 0], readerIndex = 8, writerIndex = 17\<rparr> [] = Some (buf', [[7], []])"
proof -
  let ?b = "\<lparr>buffer = replicate 8 0 @ [0, 0, 0, 1, 7, 255, 0, 0, 0], readerIndex = 8, writerIndex = 17\<rparr>"
  have b: "buf_ok ?b" "buf_contents ?b = concat (map frame [[7]]) @ [255, 0, 0, 0]"
    by (simp_all add: buf_view const_simps ex_frames)
  have "header [255, 0, 0, 0] < 0" by (simp add: header_def be_word_def)
  then show ?thesis
    using codec_rejects_bad_length [OF b, of collect "\<lambda>_ s. s @ [[]]" 4 "Timestamp 0" "[]"] by (auto simp: collect_def)
qed

section \<open>The buffer and string pieces\<close>

lemma read_int:
  assumes "buf_ok b"
  shows "buf_contents b = be_bytes 8 x @ r \<Longrightarrow> \<exists>b'. readInt64 b = Some (x, b') \<and> buf_ok b' \<and> buf_contents b' = r"
    and "buf_contents b = be_bytes 4 y @ r \<Longrightarrow> \<exists>b'. readInt32 b = Some (y, b') \<and> buf_ok b' \<and> buf_contents b' = r"
    and "buf_contents b = be_bytes 2 z @ r \<Longrightarrow> \<exists>b'. readInt16 b = Some (z, b') \<and> buf_ok b' \<and> buf_contents b' = r"
    and "buf_contents b = w # r \<Longrightarrow> \<exists>b'. readInt8 b = Some (w, b') \<and> buf_ok b' \<and> buf_contents b' = r"
proof -
  note take = peekInt_contents [OF assms] and drop = retrieve_ok [OF assms]
  show "\<exists>b'. readInt64 b = Some (x, b') \<and> buf_ok b' \<and> buf_contents b' = r" if "buf_contents b = be_bytes 8 x @ r"
    using take(1) drop [of 8] that by (auto simp: readInt64_def retrieveInt64_def be_word_be_bytes)
  show "\<exists>b'. readInt32 b = Some (y, b') \<and> buf_ok b' \<and> buf_contents b' = r" if "buf_contents b = be_bytes 4 y @ r"
    using take(2) drop [of 4] that by (auto simp: readInt32_def retrieveInt32_def be_word_be_bytes)
  show "\<exists>b'. readInt16 b = Some (z, b') \<and> buf_ok b' \<and> buf_contents b' = r" if "buf_contents b = be_bytes 2 z @ r"
    using take(3) drop [of 2] that by (auto simp: readInt16_def retrieveInt16_def be_word_be_bytes)
  show "\<exists>b'. readInt8 b = Some (w, b') \<and> buf_ok b' \<and> buf_contents b' = r" if "buf_contents b = w # r"
    using take(4) drop [of 1] that by (auto simp: readInt8_def retrieveInt8_def)
qed

text \<open>
  Integers survive the buffer: at each of the four widths, a value appended to a drained buffer or
  prepended to any buffer with room in front is the value the matching read returns, and the read leaves
  what was there before.
\<close>

theorem buffer_int_round_trip:
  assumes "buf_ok b" "kCheapPrepend \<le> readerIndex b"
  shows "(buf_contents b = [] \<longrightarrow>
      (\<exists>b1 b2. appendInt64 x b = Some b1 \<and> readInt64 b1 = Some (x, b2) \<and> buf_contents b2 = []) \<and>
      (\<exists>b1 b2. appendInt32 y b = Some b1 \<and> readInt32 b1 = Some (y, b2) \<and> buf_contents b2 = []) \<and>
      (\<exists>b1 b2. appendInt16 z b = Some b1 \<and> readInt16 b1 = Some (z, b2) \<and> buf_contents b2 = []) \<and>
      (\<exists>b1 b2. appendInt8 w b = Some b1 \<and> readInt8 b1 = Some (w, b2) \<and> buf_contents b2 = [])) \<and>
    (\<exists>b1 b2. prependInt64 x b = Some b1 \<and> readInt64 b1 = Some (x, b2) \<and> buf_contents b2 = buf_contents b) \<and>
    (\<exists>b1 b2. prependInt32 y b = Some b1 \<and> readInt32 b1 = Some (y, b2) \<and> buf_contents b2 = buf_contents b) \<and>
    (\<exists>b1 b2. prependInt16 z b = Some b1 \<and> readInt16 b1 = Some (z, b2) \<and> buf_contents b2 = buf_contents b) \<and>
    (\<exists>b1 b2. prependInt8 w b = Some b1 \<and> readInt8 b1 = Some (w, b2) \<and> buf_contents b2 = buf_contents b)"
proof -
  have "8 \<le> readerIndex b" using assms(2) by (simp add: const_simps)
  then have "8 \<le> readerIndex b" "4 \<le> readerIndex b" "2 \<le> readerIndex b" "1 \<le> readerIndex b" by simp_all
  note pre = prependInt_contents(1) [OF assms(1) this(1), of x] prependInt_contents(2) [OF assms(1) this(2), of y]
    prependInt_contents(3) [OF assms(1) this(3), of z] prependInt_contents(4) [OF assms(1) this(4), of w]
  note app = appendInt_contents [OF assms(1)]
  show ?thesis
    using app(1) [of x] app(2) [of y] app(3) [of z] app(4) [of w] pre
      read_int(1) [of _ x] read_int(2) [of _ y] read_int(3) [of _ z] read_int(4) [of _ w]
    by (intro conjI impI) (metis append_Nil append_Nil2)+
qed

theorem buffer_int_round_trip_witness:
  "\<exists>b1 b2. appendInt32 0xDEADBEEF ex_buf = Some b1 \<and> readInt32 b1 = Some (0xDEADBEEF, b2) \<and> buf_contents b2 = []"
proof -
  have "kCheapPrepend \<le> readerIndex ex_buf" by (simp add: ex_buf_def const_simps)
  from buffer_int_round_trip [OF ex_buf(1) this, of 0 "0xDEADBEEF" 0 0] ex_buf(2) show ?thesis by blast
qed



text \<open>
  String pieces compare as the strings they denote: every comparison operator, \<^verbatim>\<open>compare\<close> and
  \<^verbatim>\<open>starts_with\<close>, written with \<^verbatim>\<open>memcmp\<close> on the shorter length and a tie break, returns what the
  lexicographic order on the byte strings says.
\<close>

theorem string_piece_order:
  assumes "sp_ok s" "sp_ok x"
  shows "sp_eq s x = Some (sp_view s = sp_view x) \<and> sp_neq s x = Some (sp_view s \<noteq> sp_view x) \<and>
    sp_less s x = Some (sp_view s < sp_view x) \<and> sp_less_eq s x = Some (sp_view s \<le> sp_view x) \<and>
    sp_greater s x = Some (sp_view x < sp_view s) \<and> sp_greater_eq s x = Some (sp_view x \<le> sp_view s) \<and>
    (\<exists>r. sp_compare s x = Some r \<and> (r < 0 \<longleftrightarrow> sp_view s < sp_view x) \<and> (r = 0 \<longleftrightarrow> sp_view s = sp_view x)) \<and>
    starts_with s x = Some (take (length (sp_view x)) (sp_view s) = sp_view x)"
  using sp_compare_view [OF assms]
  by (auto simp: sp_eq_view sp_neq_def sp_less_view sp_less_eq_view sp_greater_view sp_greater_eq_view starts_with_view assms)

theorem string_piece_order_witness:
  "sp_less (StringPiece_str [97, 98]) (StringPiece_str [97, 99]) = Some True \<and>
   starts_with (StringPiece_str [97, 98]) (StringPiece_str [97]) = Some True"
proof -
  have ok: "sp_ok (StringPiece_str [97, 98])" "sp_ok (StringPiece_str [97, 99])" "sp_ok (StringPiece_str [97])"
    by (simp_all add: sp_ok_str)
  show ?thesis
    using string_piece_order [OF ok(1,2)] string_piece_order [OF ok(1,3)] by (simp add: sp_ok_str)
qed

end
