(* ===== verification/Recv_Fifo.thy ===== *)
theory Recv_Fifo
  imports P2P_Framing
begin

text \<open>
  \<^verbatim>\<open>API/C/netWork.h\<close>, \<^verbatim>\<open>net_work_recv_data_fifo_t\<close>: the ring buffer between the receive thread of the
  C client and its parser. The two cell pointers are indices into the array; \<^verbatim>\<open>length\<close> is the
  \<^verbatim>\<open>int32_t\<close> counter as an \<open>int\<close> (it stays within 8192 in absolute value for every caller). Reading
  outside the source array of \<^verbatim>\<open>recv_data_fifo_push\<close> is \<open>None\<close>. The ring is shown to be a byte
  queue, by interpreting the locale \<open>byte_stream\<close>.
\<close>

unbundle bit_operations_syntax

definition NET_READ_DATA_LENGTH :: nat where
  "NET_READ_DATA_LENGTH = 8192"

record net_work_recv_data_fifo_t =
  fifo_data :: bytes
  fifo_r :: nat
  fifo_w :: nat
  fifo_length :: int

definition recv_data_fifo_init :: "net_work_recv_data_fifo_t \<Rightarrow> net_work_recv_data_fifo_t" where
  "recv_data_fifo_init fifo = fifo\<lparr>fifo_r := 0, fifo_w := 0, fifo_length := 0\<rparr>"

text \<open>The loop of \<^verbatim>\<open>recv_data_fifo_push\<close> over the first \<^verbatim>\<open>length\<close> bytes of its argument.\<close>

fun recv_data_fifo_write :: "bytes \<Rightarrow> net_work_recv_data_fifo_t \<Rightarrow> net_work_recv_data_fifo_t" where
  "recv_data_fifo_write [] fifo = fifo"
| "recv_data_fifo_write (b # bs) fifo =
     recv_data_fifo_write bs
       (fifo\<lparr>fifo_data := (fifo_data fifo)[fifo_w fifo := b],
             fifo_w := ring_next NET_READ_DATA_LENGTH (fifo_w fifo)\<rparr>)"

definition recv_data_fifo_push ::
  "net_work_recv_data_fifo_t \<Rightarrow> bytes \<Rightarrow> int \<Rightarrow> net_work_recv_data_fifo_t option" where
  "recv_data_fifo_push fifo data len =
     (if len > int (length data) then None
      else let fifo' = recv_data_fifo_write (take (nat len) data) fifo
           in Some (fifo'\<lparr>fifo_length := fifo_length fifo' + len\<rparr>))"

definition recv_data_fifo_empty :: "net_work_recv_data_fifo_t \<Rightarrow> bool" where
  "recv_data_fifo_empty fifo \<longleftrightarrow> fifo_length fifo = 0"

definition recv_data_fifo_length :: "net_work_recv_data_fifo_t \<Rightarrow> int" where
  "recv_data_fifo_length fifo = fifo_length fifo"

definition recv_data_fifo_full :: "net_work_recv_data_fifo_t \<Rightarrow> bool" where
  "recv_data_fifo_full fifo \<longleftrightarrow> fifo_length fifo = int NET_READ_DATA_LENGTH"

definition recv_data_fifo_pop :: "net_work_recv_data_fifo_t \<Rightarrow> int \<Rightarrow> net_work_recv_data_fifo_t" where
  "recv_data_fifo_pop fifo len =
     fifo\<lparr>fifo_r := (ring_next NET_READ_DATA_LENGTH ^^ nat len) (fifo_r fifo),
          fifo_length := fifo_length fifo - len\<rparr>"

text \<open>\<^verbatim>\<open>*recv_data_fifo_top(fifo)\<close>: the cell the read pointer points to.\<close>

definition recv_data_fifo_top :: "net_work_recv_data_fifo_t \<Rightarrow> byte" where
  "recv_data_fifo_top fifo = fifo_data fifo ! fifo_r fifo"

text \<open>
  \<^verbatim>\<open>recv_data_fifo_top_int\<close>: the loop runs with \<open>i = 3, 2, 1, 0\<close>; the argument \<open>k\<close> is \<open>i + 1\<close>. The
  \<^verbatim>\<open>int\<close> arithmetic is that of 32 bit words (a byte shifted into the sign bit gives a negative
  number).
\<close>

fun top_int_loop :: "nat \<Rightarrow> bytes \<Rightarrow> nat \<Rightarrow> 32 word \<Rightarrow> 32 word" where
  "top_int_loop 0 data ptr ret = ret"
| "top_int_loop (Suc i) data ptr ret =
     top_int_loop i data (ring_next NET_READ_DATA_LENGTH ptr)
       (ret + push_bit (i * 8) (ucast (data ! ptr)))"

definition recv_data_fifo_top_int :: "net_work_recv_data_fifo_t \<Rightarrow> int" where
  "recv_data_fifo_top_int fifo = sint (top_int_loop 4 (fifo_data fifo) (fifo_r fifo) 0)"

section \<open>Invariant and contents\<close>

definition fifo_ok :: "net_work_recv_data_fifo_t \<Rightarrow> bool" where
  "fifo_ok q \<longleftrightarrow> length (fifo_data q) = NET_READ_DATA_LENGTH \<and> fifo_r q < NET_READ_DATA_LENGTH \<and>
     0 \<le> fifo_length q \<and> fifo_length q \<le> int NET_READ_DATA_LENGTH \<and>
     fifo_w q = (fifo_r q + nat (fifo_length q)) mod NET_READ_DATA_LENGTH"

definition fifo_contents :: "net_work_recv_data_fifo_t \<Rightarrow> bytes" where
  "fifo_contents q = ring (fifo_data q) (fifo_r q) (nat (fifo_length q))"

lemma NET_READ_DATA_LENGTH_pos [simp]: "0 < NET_READ_DATA_LENGTH"
  by (simp add: NET_READ_DATA_LENGTH_def)

lemma fifo_ok_r: "fifo_ok q \<Longrightarrow> fifo_r q < length (fifo_data q)"
  by (simp add: fifo_ok_def)

lemma length_fifo_contents: "length (fifo_contents q) = nat (fifo_length q)"
  by (simp add: fifo_contents_def)

lemma fifo_init_ok:
  "length (fifo_data q) = NET_READ_DATA_LENGTH \<Longrightarrow>
     fifo_ok (recv_data_fifo_init q) \<and> fifo_contents (recv_data_fifo_init q) = []"
  by (simp add: fifo_ok_def fifo_contents_def recv_data_fifo_init_def)

text \<open>
  Writing moves the write pointer over as many cells as there are bytes; the counter is updated
  only afterwards, so the loop is described with the number \<open>n\<close> of cells already in use.
\<close>

lemma fifo_write_spec:
  assumes "length (fifo_data q) = NET_READ_DATA_LENGTH" "fifo_r q < NET_READ_DATA_LENGTH"
    and "fifo_w q = (fifo_r q + n) mod NET_READ_DATA_LENGTH" "n + length bs \<le> NET_READ_DATA_LENGTH"
  shows "ring (fifo_data (recv_data_fifo_write bs q)) (fifo_r q) (n + length bs) = ring (fifo_data q) (fifo_r q) n @ bs
    \<and> length (fifo_data (recv_data_fifo_write bs q)) = NET_READ_DATA_LENGTH
    \<and> fifo_r (recv_data_fifo_write bs q) = fifo_r q \<and> fifo_length (recv_data_fifo_write bs q) = fifo_length q
    \<and> fifo_w (recv_data_fifo_write bs q) = (fifo_r q + n + length bs) mod NET_READ_DATA_LENGTH"
  using assms
proof (induction bs arbitrary: q n)
  case Nil
  then show ?case by simp
next
  case (Cons b bs)
  let ?q = "q\<lparr>fifo_data := (fifo_data q)[fifo_w q := b], fifo_w := ring_next NET_READ_DATA_LENGTH (fifo_w q)\<rparr>"
  have w: "fifo_w q < NET_READ_DATA_LENGTH" using Cons.prems(3) by simp
  have nxt: "fifo_w ?q = (fifo_r ?q + Suc n) mod NET_READ_DATA_LENGTH"
    using Cons.prems(3) ring_next_mod [OF w] by (simp add: mod_simps)
  have "ring (fifo_data ?q) (fifo_r ?q) (Suc n) = ring (fifo_data q) (fifo_r q) n @ [b]"
    using ring_push [of n "fifo_data q" "fifo_r q" b] Cons.prems by simp
  then show ?case
    using Cons.IH [of ?q "Suc n"] nxt Cons.prems by simp
qed

lemma fifo_push_ok:
  assumes "fifo_ok q" "int (length bs) + fifo_length q \<le> int NET_READ_DATA_LENGTH"
  shows "\<exists>q'. recv_data_fifo_push q bs (int (length bs)) = Some q' \<and> fifo_ok q' \<and>
    fifo_contents q' = fifo_contents q @ bs"
proof -
  have n: "nat (fifo_length q) + length bs \<le> NET_READ_DATA_LENGTH"
    using assms unfolding fifo_ok_def by linarith
  have s: "nat (fifo_length q + int (length bs)) = nat (fifo_length q) + length bs"
    using assms(1) by (simp add: fifo_ok_def nat_add_distrib)
  note w = fifo_write_spec [of q "nat (fifo_length q)" bs]
  show ?thesis
    using assms w n by (simp add: recv_data_fifo_push_def Let_def fifo_ok_def fifo_contents_def s add.assoc)
qed

lemma ring_next_funpow:
  "p < cap \<Longrightarrow> (ring_next cap ^^ n) p = (p + n) mod cap"
proof (induction n)
  case 0
  then show ?case by simp
next
  case (Suc n)
  have "(p + n) mod cap < cap" using Suc.prems by (simp add: mod_less_divisor)
  then show ?case using Suc by (simp add: ring_next_mod mod_simps)
qed

lemma fifo_pop_ok:
  assumes "fifo_ok q" "n \<le> length (fifo_contents q)"
  shows "fifo_ok (recv_data_fifo_pop q (int n))"
    and "fifo_contents (recv_data_fifo_pop q (int n)) = drop n (fifo_contents q)"
proof -
  have n: "int n \<le> fifo_length q" using assms unfolding fifo_ok_def length_fifo_contents by linarith
  have len: "nat (fifo_length q - int n) = nat (fifo_length q) - n" using n by linarith
  have r: "(ring_next NET_READ_DATA_LENGTH ^^ n) (fifo_r q) = (fifo_r q + n) mod NET_READ_DATA_LENGTH"
    using assms(1) by (intro ring_next_funpow) (simp add: fifo_ok_def)
  have "((fifo_r q + n) mod NET_READ_DATA_LENGTH + (nat (fifo_length q) - n)) mod NET_READ_DATA_LENGTH =
      (fifo_r q + n + (nat (fifo_length q) - n)) mod NET_READ_DATA_LENGTH"
    by (rule mod_add_left_eq)
  also have "\<dots> = fifo_w q" using n assms(1) by (simp add: fifo_ok_def)
  finally have "((fifo_r q + n) mod NET_READ_DATA_LENGTH + (nat (fifo_length q) - n)) mod NET_READ_DATA_LENGTH = fifo_w q" .
  then show "fifo_ok (recv_data_fifo_pop q (int n))"
    using assms(1) n by (simp add: fifo_ok_def recv_data_fifo_pop_def r len)
  show "fifo_contents (recv_data_fifo_pop q (int n)) = drop n (fifo_contents q)"
    using ring_drop [OF fifo_ok_r [OF assms(1)], of n "nat (fifo_length q)"] assms
    by (simp add: fifo_contents_def recv_data_fifo_pop_def r len fifo_ok_def)
qed

lemma fifo_top: "fifo_ok q \<Longrightarrow> fifo_contents q = b # bs \<Longrightarrow> recv_data_fifo_top q = b"
  by (cases "nat (fifo_length q)")
    (auto simp: fifo_contents_def recv_data_fifo_top_def ring_Suc [OF fifo_ok_r])

text \<open>The four shifted summands do not overlap, so their sum is the big-endian value.\<close>

lemma shift_in_byte:
  fixes x :: "32 word" and b :: byte
  shows "ucast b OR push_bit 8 x = push_bit 8 x + ucast b"
proof -
  have "\<not> bit (push_bit 8 x) n \<or> \<not> bit (ucast b :: 32 word) n" for n
    using bit_imp_le_length [of b n] by (auto simp: bit_simps)
  then show ?thesis by (simp add: disjunctive_add or.commute)
qed

lemma be_word_4:
  "(be_word [a, b, c, d] :: 32 word) =
     push_bit 24 (ucast a) + push_bit 16 (ucast b) + push_bit 8 (ucast c) + ucast d"
  by (simp add: be_word_def shift_in_byte) (simp add: push_bit_eq_mult algebra_simps)

lemma fifo_top_int:
  assumes "fifo_ok q" "4 \<le> length (fifo_contents q)"
  shows "top_int_loop 4 (fifo_data q) (fifo_r q) 0 = be_word (take 4 (fifo_contents q))"
proof -
  let ?N = "NET_READ_DATA_LENGTH" and ?r = "fifo_r q"
  have r: "?r < ?N" "length (fifo_data q) = ?N" using assms(1) by (simp_all add: fifo_ok_def)
  have l: "(?r + i) mod length (fifo_data q) < length (fifo_data q)" for i using r(2) by simp
  have "take 4 (fifo_contents q) = ring (fifo_data q) ?r 4"
    unfolding fifo_contents_def using ring_take [of ?r "fifo_data q" 4] r assms(2)
    by (simp add: length_fifo_contents)
  moreover have "ring (fifo_data q) ?r 4 = [fifo_data q ! ?r, fifo_data q ! ((?r + 1) mod ?N), fifo_data q ! ((?r + 2) mod ?N),
      fifo_data q ! ((?r + 3) mod ?N)]"
    using r by (simp add: ring_def upt_rec) (simp add: numeral_3_eq_3)
  moreover have nxt: "ring_next ?N ?r = (?r + 1) mod ?N" "ring_next ?N ((?r + 1) mod ?N) = (?r + 2) mod ?N"
      "ring_next ?N ((?r + 2) mod ?N) = (?r + 3) mod ?N"
    using r by (simp_all add: ring_next_mod mod_simps numeral_3_eq_3)
  ultimately show ?thesis
    by (simp add: be_word_4 numeral_eq_Suc nxt [unfolded numeral_eq_Suc])
qed

interpretation client_fifo: byte_stream fifo_ok fifo_contents "\<lambda>q. nat (recv_data_fifo_length q)"
  "\<lambda>n q. int n + recv_data_fifo_length q \<le> int NET_READ_DATA_LENGTH"
  "\<lambda>bs q. recv_data_fifo_push q bs (int (length bs))" "\<lambda>n q. Some (recv_data_fifo_pop q (int n))"
  "\<lambda>q. top_int_loop 4 (fifo_data q) (fifo_r q) 0"
  by unfold_locales
    (simp_all add: recv_data_fifo_length_def length_fifo_contents fifo_push_ok fifo_pop_ok fifo_top_int)

lemma fifo_top_header:
  "fifo_ok q \<Longrightarrow> 4 \<le> recv_data_fifo_length q \<Longrightarrow> recv_data_fifo_top_int q = header (fifo_contents q)"
  using client_fifo.peek_header [of q] by (simp add: recv_data_fifo_top_int_def)

end
