(* ===== verification/C_Heap.thy ===== *)
theory C_Heap
  imports P2P_Prelude
begin

text \<open>
  The heap of the C client (\<^verbatim>\<open>API/C\<close>): what \<^verbatim>\<open>malloc\<close>, \<^verbatim>\<open>calloc\<close> and \<^verbatim>\<open>free\<close> do with the blocks the
  client allocates. An address is a number, 0 is \<^verbatim>\<open>NULL\<close>. A block holds one object: a byte array,
  a \<^verbatim>\<open>recv_data_t\<close>, a list node, an array of pointers or a \<^verbatim>\<open>recv_data_buf_t\<close>. Addresses are handed
  out in increasing order; which allocations fail is given by the field \<open>oom\<close>, so every
  \<^verbatim>\<open>== NULL\<close> branch of the sources can be taken. Reading or freeing an address that holds no block
  (a dangling pointer) is \<open>None\<close>.
\<close>

type_synonym addr = nat

datatype cobj =
  CBytes bytes
| CRecv int addr
| CNode addr addr addr
| CPtrs "addr list"
| CRecvBuf int addr

record cheap =
  store :: "addr \<rightharpoonup> cobj"
  fresh :: addr
  oom :: "nat \<Rightarrow> bool"

lemma cheap_update_swap [simp]: "h\<lparr>fresh := n, store := s\<rparr> = h\<lparr>store := s, fresh := n\<rparr>" for h :: cheap
  by simp

definition cheap_ok :: "cheap \<Rightarrow> bool" where
  "cheap_ok h \<longleftrightarrow> 0 < fresh h \<and> (\<forall>p. store h p \<noteq> None \<longrightarrow> 0 < p \<and> p < fresh h)"

text \<open>Allocation of a block of \<open>n\<close> bytes; a negative \<open>n\<close> is a \<^verbatim>\<open>size_t\<close> beyond any object and fails.\<close>

definition alloc :: "int \<Rightarrow> cobj \<Rightarrow> cheap \<Rightarrow> addr \<times> cheap" where
  "alloc n obj h =
     (if n < 0 \<or> oom h (fresh h) then (0, h\<lparr>fresh := fresh h + 1\<rparr>)
      else (fresh h, h\<lparr>store := (store h)(fresh h \<mapsto> obj), fresh := fresh h + 1\<rparr>))"

definition free :: "addr \<Rightarrow> cheap \<Rightarrow> cheap option" where
  "free p h = (if p = 0 then Some h
               else if store h p = None then None
               else Some (h\<lparr>store := (store h)(p := None)\<rparr>))"

section \<open>List nodes\<close>

definition node_data :: "cheap \<Rightarrow> addr \<Rightarrow> addr option" where
  "node_data h p = (case store h p of Some (CNode d n q) \<Rightarrow> Some d | _ \<Rightarrow> None)"

definition node_next :: "cheap \<Rightarrow> addr \<Rightarrow> addr option" where
  "node_next h p = (case store h p of Some (CNode d n q) \<Rightarrow> Some n | _ \<Rightarrow> None)"

definition node_prev :: "cheap \<Rightarrow> addr \<Rightarrow> addr option" where
  "node_prev h p = (case store h p of Some (CNode d n q) \<Rightarrow> Some q | _ \<Rightarrow> None)"

definition set_next :: "addr \<Rightarrow> addr \<Rightarrow> cheap \<Rightarrow> cheap option" where
  "set_next p v h = (case store h p of
     Some (CNode d n q) \<Rightarrow> Some (h\<lparr>store := (store h)(p \<mapsto> CNode d v q)\<rparr>) | _ \<Rightarrow> None)"

definition set_prev :: "addr \<Rightarrow> addr \<Rightarrow> cheap \<Rightarrow> cheap option" where
  "set_prev p v h = (case store h p of
     Some (CNode d n q) \<Rightarrow> Some (h\<lparr>store := (store h)(p \<mapsto> CNode d n v)\<rparr>) | _ \<Rightarrow> None)"

definition set_data :: "addr \<Rightarrow> addr \<Rightarrow> cheap \<Rightarrow> cheap option" where
  "set_data p v h = (case store h p of
     Some (CNode d n q) \<Rightarrow> Some (h\<lparr>store := (store h)(p \<mapsto> CNode v n q)\<rparr>) | _ \<Rightarrow> None)"

definition is_node :: "cheap \<Rightarrow> addr \<Rightarrow> bool" where
  "is_node h p \<longleftrightarrow> (\<exists>d n q. store h p = Some (CNode d n q))"

lemma is_node_iff:
  "is_node h p \<longleftrightarrow> (\<exists>v. node_next h p = Some v)" "is_node h p \<longleftrightarrow> (\<exists>v. node_prev h p = Some v)"
  "is_node h p \<longleftrightarrow> (\<exists>v. node_data h p = Some v)"
  by (auto simp: is_node_def node_next_def node_prev_def node_data_def split: option.splits cobj.splits)

text \<open>
  Heaps that differ in the links between nodes only. The writes succeed on a node, change one
  link and nothing else.
\<close>

definition relink :: "cheap \<Rightarrow> cheap \<Rightarrow> bool" where
  "relink h h' \<longleftrightarrow> node_data h' = node_data h \<and> (\<forall>a. \<not> is_node h a \<longrightarrow> store h' a = store h a) \<and>
     fresh h' = fresh h \<and> oom h' = oom h \<and> dom (store h') = dom (store h)"

lemma relink_node: "relink h h' \<Longrightarrow> is_node h' p = is_node h p"
  by (simp add: relink_def is_node_iff(3))

lemma relink_trans: "relink h h' \<Longrightarrow> relink h' h'' \<Longrightarrow> relink h h''"
  by (simp add: relink_def is_node_iff(3))

lemma relink_ok: "relink h h' \<Longrightarrow> cheap_ok h' = cheap_ok h"
  by (auto simp: relink_def cheap_ok_def dom_def set_eq_iff)

lemma set_next_spec:
  assumes "is_node h p"
  shows "\<exists>h'. set_next p v h = Some h' \<and> node_next h' = (node_next h)(p \<mapsto> v) \<and>
    node_prev h' = node_prev h \<and> relink h h'"
  using assms
  by (auto simp: is_node_def set_next_def node_next_def node_prev_def node_data_def relink_def fun_eq_iff)

lemma set_prev_spec:
  assumes "is_node h p"
  shows "\<exists>h'. set_prev p v h = Some h' \<and> node_prev h' = (node_prev h)(p \<mapsto> v) \<and>
    node_next h' = node_next h \<and> relink h h'"
  using assms
  by (auto simp: is_node_def set_prev_def node_next_def node_prev_def node_data_def relink_def fun_eq_iff)

text \<open>Allocation and release.\<close>

lemma alloc_spec:
  assumes "cheap_ok h" "0 \<le> n" "\<not> oom h (fresh h)"
  shows "alloc n obj h = (fresh h, h\<lparr>store := (store h)(fresh h \<mapsto> obj), fresh := fresh h + 1\<rparr>)"
    and "store h (fresh h) = None" "fresh h \<noteq> 0"
    and "cheap_ok (h\<lparr>store := (store h)(fresh h \<mapsto> obj), fresh := fresh h + 1\<rparr>)"
  using assms by (auto simp: alloc_def cheap_ok_def intro: less_SucI)

lemma alloc_ok: "cheap_ok h \<Longrightarrow> alloc n obj h = (p, h') \<Longrightarrow> cheap_ok h'"
  by (fastforce simp: alloc_def cheap_ok_def less_Suc_eq split: if_splits)

lemma free_live:
  "cheap_ok h \<Longrightarrow> p \<in> dom (store h) \<Longrightarrow> free p h = Some (h\<lparr>store := (store h)(p := None)\<rparr>)"
  by (auto simp: free_def cheap_ok_def)

lemma free_ok: "cheap_ok h \<Longrightarrow> free p h = Some h' \<Longrightarrow> cheap_ok h'"
  by (auto simp: free_def cheap_ok_def split: if_splits)

lemma free_dangling: "p \<noteq> 0 \<Longrightarrow> store h p = None \<Longrightarrow> free p h = None"
  by (simp add: free_def)

end
