(* ===== verification/Queue_Spec.thy ===== *)
theory Queue_Spec
  imports P2P_Prelude
begin

text \<open>
  The contract of a first-in first-out queue, as a locale: \<open>holds s n ms\<close> says that the state \<open>s\<close>
  contains the elements \<open>ms\<close> and has room for \<open>n\<close> more insertions. From the two laws it follows
  that any schedule of insertions and removals behaves like the same schedule on a list. The
  locale is interpreted on the send ring and on the message list of the C client.
\<close>

datatype 'm qop = Enq 'm | Deq

fun run_ops :: "('m \<Rightarrow> 's \<Rightarrow> 's option) \<Rightarrow> ('s \<Rightarrow> ('m \<times> 's) option) \<Rightarrow> 'm qop list \<Rightarrow> 's \<Rightarrow> ('m list \<times> 's) option" where
  "run_ops enq deq [] s = Some ([], s)"
| "run_ops enq deq (Enq m # ops) s =
     (case enq m s of None \<Rightarrow> None | Some s' \<Rightarrow> run_ops enq deq ops s')"
| "run_ops enq deq (Deq # ops) s =
     (case deq s of None \<Rightarrow> None
      | Some (m, s') \<Rightarrow> map_option (\<lambda>(out, s''). (m # out, s'')) (run_ops enq deq ops s'))"

fun list_deq :: "'m list \<Rightarrow> ('m \<times> 'm list) option" where
  "list_deq [] = None"
| "list_deq (m # ms) = Some (m, ms)"

abbreviation list_ops :: "'m qop list \<Rightarrow> 'm list \<Rightarrow> ('m list \<times> 'm list) option" where
  "list_ops \<equiv> run_ops (\<lambda>m ms. Some (ms @ [m])) list_deq"

fun inputs :: "'m qop list \<Rightarrow> 'm list" where
  "inputs [] = []"
| "inputs (Enq m # ops) = m # inputs ops"
| "inputs (Deq # ops) = inputs ops"

lemma list_ops_order: "list_ops ops ms = Some (out, ms') \<Longrightarrow> out @ ms' = ms @ inputs ops"
proof (induction ops arbitrary: ms out)
  case (Cons x ops)
  then show ?case by (cases x; cases ms) auto
qed simp

locale fifo_queue =
  fixes holds :: "'s \<Rightarrow> nat \<Rightarrow> 'm list \<Rightarrow> bool"
    and elem_ok :: "'m \<Rightarrow> bool"
    and enq :: "'m \<Rightarrow> 's \<Rightarrow> 's option"
    and deq :: "'s \<Rightarrow> ('m \<times> 's) option"
  assumes enq: "holds s (Suc n) ms \<Longrightarrow> elem_ok m \<Longrightarrow> \<exists>s'. enq m s = Some s' \<and> holds s' n (ms @ [m])"
    and deq: "holds s n (m # ms) \<Longrightarrow> \<exists>s'. deq s = Some (m, s') \<and> holds s' n ms"
begin

lemma simulates_list:
  assumes "holds s (length (inputs ops) + n) ms" "list_ops ops ms = Some (out, ms')" "list_all elem_ok (inputs ops)"
  shows "\<exists>s'. run_ops enq deq ops s = Some (out, s') \<and> holds s' n ms'"
  using assms
proof (induction ops arbitrary: s ms out)
  case Nil
  then show ?case by simp
next
  case (Cons x ops)
  show ?case
  proof (cases x)
    case (Enq m)
    then obtain s1 where "enq m s = Some s1" "holds s1 (length (inputs ops) + n) (ms @ [m])"
      using enq [of s "length (inputs ops) + n" ms m] Cons.prems by auto
    then show ?thesis using Cons.IH [of s1 "ms @ [m]" out] Cons.prems Enq by simp
  next
    case Deq
    then obtain m ms1 out1 where m: "ms = m # ms1" "list_ops ops ms1 = Some (out1, ms')" "out = m # out1"
      using Cons.prems(2) by (cases ms) auto
    obtain s1 where s1: "deq s = Some (m, s1)" "holds s1 (length (inputs ops) + n) ms1"
      using deq [of s "length (inputs ops) + n" m ms1] Cons.prems(1) m(1) Deq by auto
    then show ?thesis using Cons.IH [OF s1(2) m(2)] Cons.prems(3) Deq m(3) by auto
  qed
qed

text \<open>What comes out is what went in, in order, and the rest is still inside.\<close>

lemma first_in_first_out:
  assumes "holds s (length (inputs ops)) []" "list_ops ops [] = Some (out, rest)" "list_all elem_ok (inputs ops)"
  shows "\<exists>s'. run_ops enq deq ops s = Some (out, s') \<and> holds s' 0 rest \<and> inputs ops = out @ rest"
  using simulates_list [of s ops 0 "[]" out rest] list_ops_order [OF assms(2)] assms by auto

end

end
