(* ===== verification/Send_Fifo.thy ===== *)
theory Send_Fifo
  imports C_Heap Queue_Spec "HOL-Library.Monad_Syntax"
begin

text \<open>
  \<^verbatim>\<open>API/C/netWork.h\<close>, \<^verbatim>\<open>net_work_send_command_fifo_t\<close>: the ring of commands between the API functions
  of the C client and its send thread. Each of the 8192 cells holds a pointer to a heap block
  and its size. \<^verbatim>\<open>send_command_fifo_pop\<close> frees the block of a cell and leaves the pointer in place;
  \<^verbatim>\<open>send_command_fifo_push\<close> frees whatever pointer the cell it writes still holds. The ring is a
  correct queue for the first 8192 commands of a client; the next push frees a block a second
  time. The functions are atomic steps here; what the mutex calls of the code achieve is the subject of
  \<open>Send_Fifo_Race\<close>.
\<close>

definition NET_SEND_COMMAND_NUM :: nat where
  "NET_SEND_COMMAND_NUM = 8192"

record net_work_command_t =
  cmd_data :: addr
  cmd_size :: int

record net_work_send_command_fifo_t =
  cmds :: "net_work_command_t list"
  cmd_r :: nat
  cmd_w :: nat
  cmd_num :: int

definition send_command_fifo_init :: "net_work_send_command_fifo_t \<Rightarrow> int \<times> net_work_send_command_fifo_t" where
  "send_command_fifo_init fifo = (0, fifo\<lparr>cmd_r := 0, cmd_w := 0, cmd_num := 0\<rparr>)"

definition send_command_fifo_push ::
  "net_work_send_command_fifo_t \<Rightarrow> addr \<Rightarrow> int \<Rightarrow> cheap \<Rightarrow> (net_work_send_command_fifo_t \<times> cheap) option" where
  "send_command_fifo_push fifo data sz h = do {
     h \<leftarrow> (if cmd_data (cmds fifo ! cmd_w fifo) \<noteq> 0 then free (cmd_data (cmds fifo ! cmd_w fifo)) h else Some h);
     Some (fifo\<lparr>cmds := (cmds fifo)[cmd_w fifo := \<lparr>cmd_data = data, cmd_size = sz\<rparr>],
                cmd_w := ring_next NET_SEND_COMMAND_NUM (cmd_w fifo),
                cmd_num := cmd_num fifo + 1\<rparr>, h) }"

definition send_command_fifo_empty :: "net_work_send_command_fifo_t \<Rightarrow> bool" where
  "send_command_fifo_empty fifo \<longleftrightarrow> cmd_num fifo = 0"

definition send_command_fifo_length :: "net_work_send_command_fifo_t \<Rightarrow> int" where
  "send_command_fifo_length fifo = cmd_num fifo"

definition send_command_fifo_full :: "net_work_send_command_fifo_t \<Rightarrow> bool" where
  "send_command_fifo_full fifo \<longleftrightarrow> cmd_num fifo = int NET_SEND_COMMAND_NUM"

definition send_command_fifo_pop ::
  "net_work_send_command_fifo_t \<Rightarrow> cheap \<Rightarrow> (net_work_send_command_fifo_t \<times> cheap) option" where
  "send_command_fifo_pop fifo h = do {
     h \<leftarrow> free (cmd_data (cmds fifo ! cmd_r fifo)) h;
     Some (fifo\<lparr>cmd_r := ring_next NET_SEND_COMMAND_NUM (cmd_r fifo), cmd_num := cmd_num fifo - 1\<rparr>, h) }"

definition send_command_fifo_top :: "net_work_send_command_fifo_t \<Rightarrow> net_work_command_t" where
  "send_command_fifo_top fifo = cmds fifo ! cmd_r fifo"

partial_function (option) send_command_fifo_deinit ::
  "net_work_send_command_fifo_t \<Rightarrow> cheap \<Rightarrow> (net_work_send_command_fifo_t \<times> cheap) option" where
  "send_command_fifo_deinit fifo h =
     (if send_command_fifo_empty fifo then Some (fifo, h)
      else do {
        (fifo, h) \<leftarrow> send_command_fifo_pop fifo h;
        send_command_fifo_deinit fifo h })"

section \<open>The ring as a queue of commands\<close>

text \<open>
  \<open>sq h f p es\<close>: \<open>p\<close> commands have been popped, \<open>es\<close> are pending (block and bytes), and the ring
  has not been written around yet. Cells before \<open>p\<close> hold dangling pointers, cells behind the
  pending ones hold \<^verbatim>\<open>NULL\<close>.
\<close>

definition sq :: "cheap \<Rightarrow> net_work_send_command_fifo_t \<Rightarrow> nat \<Rightarrow> (addr \<times> bytes) list \<Rightarrow> bool" where
  "sq h f p es \<longleftrightarrow>
     cheap_ok h \<and> length (cmds f) = NET_SEND_COMMAND_NUM \<and> p + length es \<le> NET_SEND_COMMAND_NUM \<and>
     cmd_num f = int (length es) \<and> cmd_r f = p mod NET_SEND_COMMAND_NUM \<and>
     cmd_w f = (p + length es) mod NET_SEND_COMMAND_NUM \<and> distinct (map fst es) \<and>
     (\<forall>i < length es. cmds f ! (p + i) = \<lparr>cmd_data = fst (es ! i), cmd_size = int (length (snd (es ! i)))\<rparr> \<and>
        store h (fst (es ! i)) = Some (CBytes (snd (es ! i)))) \<and>
     (\<forall>i < p. 0 < cmd_data (cmds f ! i) \<and> cmd_data (cmds f ! i) < fresh h \<and>
        store h (cmd_data (cmds f ! i)) = None) \<and>
     (\<forall>i. p + length es \<le> i \<and> i < NET_SEND_COMMAND_NUM \<longrightarrow> cmd_data (cmds f ! i) = 0)"

lemma NET_SEND_COMMAND_NUM_pos [simp]: "0 < NET_SEND_COMMAND_NUM"
  by (simp add: NET_SEND_COMMAND_NUM_def)

lemma sqD:
  assumes "sq h f p es"
  shows "cheap_ok h" "length (cmds f) = NET_SEND_COMMAND_NUM" "p + length es \<le> NET_SEND_COMMAND_NUM"
    "cmd_num f = int (length es)" "cmd_r f = p mod NET_SEND_COMMAND_NUM"
    "cmd_w f = (p + length es) mod NET_SEND_COMMAND_NUM" "distinct (map fst es)"
    "\<And>i. i < length es \<Longrightarrow> cmds f ! (p + i) = \<lparr>cmd_data = fst (es ! i), cmd_size = int (length (snd (es ! i)))\<rparr>"
    "\<And>i. i < length es \<Longrightarrow> store h (fst (es ! i)) = Some (CBytes (snd (es ! i)))"
    "\<And>i. i < p \<Longrightarrow> 0 < cmd_data (cmds f ! i) \<and> cmd_data (cmds f ! i) < fresh h \<and> store h (cmd_data (cmds f ! i)) = None"
    "\<And>i. p + length es \<le> i \<Longrightarrow> i < NET_SEND_COMMAND_NUM \<Longrightarrow> cmd_data (cmds f ! i) = 0"
  using assms by (auto simp: sq_def)

text \<open>The ring only depends on its own blocks; freed addresses stay free because they are not reused.\<close>

lemma sq_cong:
  assumes "sq h f p es" "cheap_ok h'" "fresh h \<le> fresh h'"
    and "\<And>a m. (a, m) \<in> set es \<Longrightarrow> store h' a = store h a"
    and "\<And>a. a < fresh h \<Longrightarrow> store h a = None \<Longrightarrow> store h' a = None"
  shows "sq h' f p es"
proof -
  have "store h' (fst (es ! i)) = store h (fst (es ! i))" if "i < length es" for i
    using assms(4) [of "fst (es ! i)" "snd (es ! i)"] that by simp
  then show ?thesis using assms by (auto simp: sq_def)
qed

lemma send_fifo_init_ok:
  assumes "cheap_ok h" "cmds f = replicate NET_SEND_COMMAND_NUM \<lparr>cmd_data = 0, cmd_size = 0\<rparr>"
  shows "sq h (snd (send_command_fifo_init f)) 0 []"
  using assms by (simp add: sq_def send_command_fifo_init_def)

lemma send_fifo_push_ok:
  assumes sq: "sq h f p es" and room: "p + length es < NET_SEND_COMMAND_NUM"
    and blk: "store h a = Some (CBytes m)" "a \<notin> fst ` set es"
  shows "\<exists>f'. send_command_fifo_push f a (int (length m)) h = Some (f', h) \<and> sq h f' p (es @ [(a, m)])"
proof -
  note q = sqD [OF sq]
  let ?k = "p + length es"
  let ?c = "\<lparr>cmd_data = a, cmd_size = int (length m)\<rparr>"
  let ?f = "f\<lparr>cmds := (cmds f)[?k := ?c], cmd_w := ring_next NET_SEND_COMMAND_NUM ?k, cmd_num := cmd_num f + 1\<rparr>"
  have w: "cmd_w f = ?k" using q(6) room by simp
  have "send_command_fifo_push f a (int (length m)) h = Some (?f, h)"
    using q(11) [of ?k] room by (simp add: send_command_fifo_push_def w)
  moreover have "sq h ?f p (es @ [(a, m)])"
    unfolding sq_def
  proof (intro conjI allI impI)
    show "cmd_w ?f = (p + length (es @ [(a, m)])) mod NET_SEND_COMMAND_NUM"
      using room by (simp add: ring_next_mod)
    fix i assume "i < length (es @ [(a, m)])"
    then have i: "i < length es \<or> i = length es" by auto
    then show "cmds ?f ! (p + i) = \<lparr>cmd_data = fst ((es @ [(a, m)]) ! i),
        cmd_size = int (length (snd ((es @ [(a, m)]) ! i)))\<rparr>"
      using q(2,8) room by (auto simp: nth_append)
    show "store h (fst ((es @ [(a, m)]) ! i)) = Some (CBytes (snd ((es @ [(a, m)]) ! i)))"
      using i q(9) blk(1) by (auto simp: nth_append)
  qed (use q room blk in \<open>auto simp: nth_list_update\<close>)
  ultimately show ?thesis by blast
qed

lemma send_fifo_top: "sq h f p ((a, m) # es) \<Longrightarrow>
    send_command_fifo_top f = \<lparr>cmd_data = a, cmd_size = int (length m)\<rparr> \<and> store h a = Some (CBytes m)"
  using sqD(3,5) [of h f p "(a, m) # es"] sqD(8,9) [of h f p "(a, m) # es" 0]
  by (auto simp: send_command_fifo_top_def)

lemma send_fifo_pop_ok:
  assumes sq: "sq h f p ((a, m) # es)"
  shows "\<exists>f'. send_command_fifo_pop f h = Some (f', h\<lparr>store := (store h)(a := None)\<rparr>) \<and>
     sq (h\<lparr>store := (store h)(a := None)\<rparr>) f' (Suc p) es"
proof -
  note q = sqD [OF sq]
  have p: "p < NET_SEND_COMMAND_NUM" "cmd_r f = p" using q(3,5) by auto
  have a: "cmds f ! p = \<lparr>cmd_data = a, cmd_size = int (length m)\<rparr>" "store h a = Some (CBytes m)"
    using q(8,9) [of 0] by simp_all
  have a': "0 < a" "a < fresh h" using q(1) a(2) by (auto simp: cheap_ok_def)
  let ?h = "h\<lparr>store := (store h)(a := None)\<rparr>"
  let ?f = "f\<lparr>cmd_r := ring_next NET_SEND_COMMAND_NUM p, cmd_num := cmd_num f - 1\<rparr>"
  have fr: "free a h = Some ?h" by (rule free_live) (use q(1) a(2) in auto)
  then have "send_command_fifo_pop f h = Some (?f, ?h)" by (simp add: send_command_fifo_pop_def p a(1))
  moreover have "sq ?h ?f (Suc p) es"
    unfolding sq_def
  proof (intro conjI allI impI)
    show "cheap_ok ?h" by (rule free_ok [OF q(1) fr])
    show "cmd_r ?f = Suc p mod NET_SEND_COMMAND_NUM" using p(1) by (simp add: ring_next_mod)
    fix i assume i: "i < length es"
    show "cmds ?f ! (Suc p + i) = \<lparr>cmd_data = fst (es ! i), cmd_size = int (length (snd (es ! i)))\<rparr>"
      using q(8) [of "Suc i"] i by simp
    show "store ?h (fst (es ! i)) = Some (CBytes (snd (es ! i)))"
      using q(9) [of "Suc i"] q(7) i nth_mem [OF i] by auto
  next
    fix i assume "i < Suc p"
    then consider "i < p" | "i = p" by linarith
    then show "0 < cmd_data (cmds ?f ! i)" "cmd_data (cmds ?f ! i) < fresh ?h"
      "store ?h (cmd_data (cmds ?f ! i)) = None"
      using q(10) [of i] a a' by (cases; auto)+
  qed (use q in auto)
  ultimately show ?thesis by blast
qed

text \<open>
  Writing around: once 8192 commands have been pushed and at least one popped, the cell to be
  written holds the pointer of the first command, whose block was freed when it was sent.
\<close>

lemma send_fifo_push_around:
  assumes sq: "sq h f p es" and around: "p + length es = NET_SEND_COMMAND_NUM" "0 < p"
  shows "send_command_fifo_push f a n h = None"
proof -
  note q = sqD [OF sq]
  have "cmd_w f = 0" using q(6) around(1) by simp
  then show ?thesis using q(10) [OF around(2)] by (simp add: send_command_fifo_push_def free_dangling)
qed

text \<open>A full ring from which nothing was taken: the oldest command is freed and overwritten unsent.\<close>

lemma send_fifo_push_full:
  assumes sq: "sq h f 0 ((b, m) # es)" and full: "length ((b, m) # es) = NET_SEND_COMMAND_NUM"
  shows "\<exists>f'. send_command_fifo_push f a n h = Some (f', h\<lparr>store := (store h)(b := None)\<rparr>) \<and>
     send_command_fifo_top f' = \<lparr>cmd_data = a, cmd_size = n\<rparr> \<and> cmd_num f' = int NET_SEND_COMMAND_NUM + 1"
proof -
  note q = sqD [OF sq]
  have w: "cmd_w f = 0" "cmd_r f = 0" using q(5,6) full by simp_all
  have b: "cmds f ! 0 = \<lparr>cmd_data = b, cmd_size = int (length m)\<rparr>" "store h b = Some (CBytes m)"
    using q(8,9) [of 0] by simp_all
  have "free b h = Some (h\<lparr>store := (store h)(b := None)\<rparr>)" "b \<noteq> 0"
    using free_live [OF q(1)] b(2) q(1) by (auto simp: cheap_ok_def)
  then show ?thesis
    using q(2,4) full by (simp add: send_command_fifo_push_def w b(1) send_command_fifo_top_def)
qed

lemma send_fifo_deinit_ok:
  assumes "sq h f p es"
  shows "\<exists>f' h'. send_command_fifo_deinit f h = Some (f', h') \<and> cmd_num f' = 0 \<and>
     h' = h\<lparr>store := (store h) |` (- fst ` set es)\<rparr> \<and> cheap_ok h'"
  using assms
proof (induction es arbitrary: h f p)
  case Nil
  have "(store h) |` (- fst ` set []) = store h" by (simp add: restrict_map_def fun_eq_iff)
  then show ?case
    using sqD(1,4) [OF Nil.prems] by (simp add: send_command_fifo_deinit.simps [of f h] send_command_fifo_empty_def)
next
  case (Cons e es)
  obtain a m where e: "e = (a, m)" by (cases e)
  let ?h = "h\<lparr>store := (store h)(a := None)\<rparr>"
  obtain f1 where f1: "send_command_fifo_pop f h = Some (f1, ?h)" "sq ?h f1 (Suc p) es"
    using send_fifo_pop_ok Cons.prems e by blast
  have ne: "\<not> send_command_fifo_empty f"
    using sqD(4) [OF Cons.prems] by (simp add: send_command_fifo_empty_def)
  have r: "?h\<lparr>store := store ?h |` (- fst ` set es)\<rparr> = h\<lparr>store := store h |` (- fst ` set (e # es))\<rparr>"
    by (auto simp: e restrict_map_def fun_eq_iff)
  have "send_command_fifo_deinit f h = send_command_fifo_deinit f1 ?h"
    using f1(1) ne by (simp add: send_command_fifo_deinit.simps [of f h])
  then show ?case using Cons.IH [OF f1(2)] unfolding r by metis
qed

section \<open>The ring implements the queue contract\<close>

text \<open>Entering a command as the API does it, and taking one out as the send thread does it.\<close>

definition enqueue_command ::
  "bytes \<Rightarrow> net_work_send_command_fifo_t \<times> cheap \<Rightarrow> (net_work_send_command_fifo_t \<times> cheap) option" where
  "enqueue_command m = (\<lambda>(fifo, h).
     let (a, h) = alloc (int (length m)) (CBytes m) h in
     if a = 0 then None else send_command_fifo_push fifo a (int (length m)) h)"

definition dequeue_command ::
  "net_work_send_command_fifo_t \<times> cheap \<Rightarrow> (bytes \<times> net_work_send_command_fifo_t \<times> cheap) option" where
  "dequeue_command = (\<lambda>(fifo, h).
     case store h (cmd_data (send_command_fifo_top fifo)) of
       Some (CBytes m) \<Rightarrow> map_option (Pair m) (send_command_fifo_pop fifo h)
     | _ \<Rightarrow> None)"

definition commands :: "net_work_send_command_fifo_t \<times> cheap \<Rightarrow> nat \<Rightarrow> bytes list \<Rightarrow> bool" where
  "commands s n ms \<longleftrightarrow> (\<forall>k. \<not> oom (snd s) k) \<and>
     (\<exists>p es. sq (snd s) (fst s) p es \<and> map snd es = ms \<and> p + length es + n \<le> NET_SEND_COMMAND_NUM)"

lemma enqueue_command_ok:
  assumes "commands s (Suc n) ms"
  shows "\<exists>s'. enqueue_command m s = Some s' \<and> commands s' n (ms @ [m])"
proof -
  obtain f h where s: "s = (f, h)" by (cases s)
  obtain p es where q: "sq h f p es" "map snd es = ms" "p + length es + Suc n \<le> NET_SEND_COMMAND_NUM" "\<forall>k. \<not> oom h k"
    using assms by (auto simp: commands_def s)
  let ?d = "fresh h"
  let ?h = "h\<lparr>store := (store h)(?d \<mapsto> CBytes m), fresh := ?d + 1\<rparr>"
  have ok: "cheap_ok h" by (rule sqD(1) [OF q(1)])
  have ok1: "cheap_ok ?h" and d: "?d \<noteq> 0" using ok by (auto simp: cheap_ok_def less_Suc_eq)
  have old: "a < ?d" if "(a, x) \<in> set es" for a x
    using sqD(9) [OF q(1)] that ok by (fastforce simp: in_set_conv_nth cheap_ok_def)
  have "sq ?h f p es" by (rule sq_cong [OF q(1) ok1]) (use old in fastforce)+
  then obtain f' where f': "send_command_fifo_push f ?d (int (length m)) ?h = Some (f', ?h)" "sq ?h f' p (es @ [(?d, m)])"
    using send_fifo_push_ok [of ?h f p es ?d m] old q(3) by fastforce
  have "enqueue_command m s = Some (f', ?h)"
    using q(4) d f'(1) by (simp add: enqueue_command_def s alloc_def)
  moreover have "commands (f', ?h) n (ms @ [m])"
    using f'(2) q(2-4) unfolding commands_def by (intro conjI exI [of _ p] exI [of _ "es @ [(?d, m)]"]) auto
  ultimately show ?thesis by blast
qed

lemma dequeue_command_ok:
  assumes "commands s n (m # ms)"
  shows "\<exists>s'. dequeue_command s = Some (m, s') \<and> commands s' n ms"
proof -
  obtain f h where s: "s = (f, h)" by (cases s)
  obtain p es where q: "sq h f p es" "map snd es = m # ms" "p + length es + n \<le> NET_SEND_COMMAND_NUM" "\<forall>k. \<not> oom h k"
    using assms by (auto simp: commands_def s)
  obtain a es' where es: "es = (a, m) # es'" "map snd es' = ms" using q(2) by (cases es) auto
  have top: "send_command_fifo_top f = \<lparr>cmd_data = a, cmd_size = int (length m)\<rparr>" "store h a = Some (CBytes m)"
    using send_fifo_top q(1) es(1) by auto
  let ?h = "h\<lparr>store := (store h)(a := None)\<rparr>"
  obtain f' where f': "send_command_fifo_pop f h = Some (f', ?h)" "sq ?h f' (Suc p) es'"
    using send_fifo_pop_ok q(1) es(1) by blast
  have "dequeue_command s = Some (m, f', ?h)" using top f'(1) by (simp add: dequeue_command_def s)
  moreover have "commands (f', ?h) n ms"
    using f'(2) es q(3,4) unfolding commands_def by (intro conjI exI [of _ "Suc p"] exI [of _ es']) auto
  ultimately show ?thesis by blast
qed

interpretation send_ring: fifo_queue commands "\<lambda>_. True" enqueue_command dequeue_command
  by unfold_locales (use enqueue_command_ok dequeue_command_ok in auto)

end
