(* ===== verification/Recv_Data_List.thy ===== *)
theory Recv_Data_List
  imports C_Heap "HOL-Library.Monad_Syntax"
begin

text \<open>
  \<^verbatim>\<open>API/C/netWork.h\<close>, \<^verbatim>\<open>recv_data_list_t\<close>: the circular doubly linked list of received messages. A
  list is the address of its head node, which is embedded in the client structure. Every
  operation holds the mutex of the list from its first to its last access, so each is one
  atomic function on the heap. The list is shown to be a queue of messages:
  \<^verbatim>\<open>recv_data_list_add\<close> enters at the back, \<^verbatim>\<open>recv_data_list_return_data\<close> takes from the front,
  \<^verbatim>\<open>recv_data_list_deinit\<close> releases every block, and none of them touches a dangling pointer.
\<close>

text \<open>\<^verbatim>\<open>pthread_mutex_init\<close> returns 0; the head node's \<^verbatim>\<open>recv_data\<close> is \<^verbatim>\<open>NULL\<close> from \<^verbatim>\<open>calloc\<close>.\<close>

definition recv_data_list_init :: "addr \<Rightarrow> cheap \<Rightarrow> int \<times> cheap" where
  "recv_data_list_init list h = (0, h\<lparr>store := (store h)(list \<mapsto> CNode 0 list list)\<rparr>)"

definition free_recv_data_t :: "addr \<Rightarrow> cheap \<Rightarrow> cheap option" where
  "free_recv_data_t recv_data h =
     (case store h recv_data of
        Some (CRecv len data) \<Rightarrow> do {
          h \<leftarrow> (if data \<noteq> 0 then free data h else Some h);
          free recv_data h }
      | _ \<Rightarrow> None)"

definition recv_data_list_add :: "addr \<Rightarrow> addr \<Rightarrow> cheap \<Rightarrow> cheap option" where
  "recv_data_list_add list node h = do {
     prev \<leftarrow> node_prev h list;
     let next = list;
     h \<leftarrow> set_prev next node h;
     h \<leftarrow> set_next node next h;
     h \<leftarrow> set_prev node prev h;
     set_next prev node h }"

text \<open>Unlinking a node and freeing it, as both functions below do.\<close>

definition unlink_node :: "addr \<Rightarrow> cheap \<Rightarrow> cheap option" where
  "unlink_node node h = do {
     prev \<leftarrow> node_prev h node;
     next \<leftarrow> node_next h node;
     h \<leftarrow> set_next prev next h;
     next \<leftarrow> node_next h node;
     prev \<leftarrow> node_prev h node;
     h \<leftarrow> set_prev next prev h;
     free node h }"

definition recv_data_list_return_data :: "addr \<Rightarrow> cheap \<Rightarrow> (addr \<times> cheap) option" where
  "recv_data_list_return_data list h = do {
     node \<leftarrow> node_next h list;
     if node = list then Some (0, h)
     else do {
       data \<leftarrow> node_data h node;
       h \<leftarrow> unlink_node node h;
       Some (data, h) } }"

text \<open>The \<^verbatim>\<open>while\<close> loop of \<^verbatim>\<open>recv_data_list_deinit\<close>; on a corrupted list it need not end.\<close>

partial_function (option) recv_data_list_deinit :: "addr \<Rightarrow> cheap \<Rightarrow> cheap option" where
  "recv_data_list_deinit list h = do {
     node \<leftarrow> node_next h list;
     if node = list then Some h
     else do {
       data \<leftarrow> node_data h node;
       h \<leftarrow> free_recv_data_t data h;
       h \<leftarrow> unlink_node node h;
       recv_data_list_deinit list h } }"

section \<open>The list as a queue of messages\<close>

fun links :: "cheap \<Rightarrow> addr \<Rightarrow> addr list \<Rightarrow> addr \<Rightarrow> bool" where
  "links h p [] q \<longleftrightarrow> node_next h p = Some q \<and> node_prev h q = Some p"
| "links h p (x # xs) q \<longleftrightarrow> node_next h p = Some x \<and> node_prev h x = Some p \<and> links h x xs q"

text \<open>An entry: list node, \<^verbatim>\<open>recv_data_t\<close>, byte block, and the bytes.\<close>

type_synonym entry = "addr \<times> addr \<times> addr \<times> bytes"

fun e_node :: "entry \<Rightarrow> addr" where "e_node (n, r, b, m) = n"
fun e_recv :: "entry \<Rightarrow> addr" where "e_recv (n, r, b, m) = r"
fun e_block :: "entry \<Rightarrow> addr" where "e_block (n, r, b, m) = b"
fun e_msg :: "entry \<Rightarrow> bytes" where "e_msg (n, r, b, m) = m"

fun e_addrs :: "entry \<Rightarrow> addr list" where "e_addrs (n, r, b, m) = [n, r, b]"

fun holds_msg :: "cheap \<Rightarrow> addr \<Rightarrow> addr \<Rightarrow> bytes \<Rightarrow> bool" where
  "holds_msg h r b m \<longleftrightarrow> store h r = Some (CRecv (int (length m)) b) \<and> store h b = Some (CBytes m)"

definition entry_ok :: "cheap \<Rightarrow> entry \<Rightarrow> bool" where
  "entry_ok h e \<longleftrightarrow> node_data h (e_node e) = Some (e_recv e) \<and> holds_msg h (e_recv e) (e_block e) (e_msg e)"

definition rq :: "cheap \<Rightarrow> addr \<Rightarrow> entry list \<Rightarrow> bool" where
  "rq h list es \<longleftrightarrow> cheap_ok h \<and> links h list (map e_node es) list \<and>
     distinct (list # concat (map e_addrs es)) \<and> (\<forall>e\<in>set es. entry_ok h e)"

definition msgs :: "entry list \<Rightarrow> bytes list" where
  "msgs es = map e_msg es"

lemma links_cong:
  assumes "node_next h' p = node_next h p" "node_prev h' q = node_prev h q"
    "\<And>x. x \<in> set xs \<Longrightarrow> node_next h' x = node_next h x \<and> node_prev h' x = node_prev h x"
  shows "links h' p xs q = links h p xs q"
  using assms by (induction xs arbitrary: p) auto

lemma links_snoc:
  "links h p (xs @ [x]) q \<longleftrightarrow> links h p xs x \<and> node_next h x = Some q \<and> node_prev h q = Some x"
  by (induction xs arbitrary: p) auto

lemma links_last_next: "links h p xs q \<Longrightarrow> node_next h (last (p # xs)) = Some q \<and> node_prev h q = Some (last (p # xs))"
  by (induction xs arbitrary: p) auto

lemma e_addrs_mem: "e_node e \<in> set (e_addrs e)" "e_recv e \<in> set (e_addrs e)" "e_block e \<in> set (e_addrs e)"
  by (cases e; simp)+

lemma rq_node: "rq h list es \<Longrightarrow> is_node h list" "rq h list es \<Longrightarrow> e \<in> set es \<Longrightarrow> is_node h (e_node e)"
  by (cases es; auto simp: rq_def is_node_iff(1)) (auto simp: rq_def is_node_iff(3) entry_ok_def)

lemma rq_distinct: "rq h list es \<Longrightarrow> distinct (list # map e_node es)"
proof -
  have "distinct (concat (map e_addrs es)) \<Longrightarrow> distinct (map e_node es)"
  proof (induction es)
    case (Cons e es)
    then have "e_node e \<notin> e_node ` set es" using e_addrs_mem(1) by fastforce
    then show ?case using Cons by simp
  qed simp
  then show "rq h list es \<Longrightarrow> distinct (list # map e_node es)"
    using e_addrs_mem(1) by (fastforce simp: rq_def)
qed

lemma entry_ok_cong:
  "(\<And>a. a \<in> set (e_addrs e) \<Longrightarrow> store h' a = store h a) \<Longrightarrow> entry_ok h' e = entry_ok h e"
  by (cases e) (simp add: entry_ok_def node_data_def)

lemma entry_ok_relink:
  assumes "relink h h'" "entry_ok h e"
  shows "entry_ok h' e"
proof -
  have "\<not> is_node h (e_recv e)" "\<not> is_node h (e_block e)"
    using assms(2) by (auto simp: entry_ok_def is_node_def)
  then show ?thesis using assms by (simp add: entry_ok_def relink_def)
qed

lemma links_redirect:
  assumes "links h p xs q" "\<forall>x\<in>set (butlast (p # xs)). node_next h' x = node_next h x"
    "\<forall>x\<in>set xs. node_prev h' x = node_prev h x"
    "node_next h' (last (p # xs)) = Some q'" "node_prev h' q' = Some (last (p # xs))"
  shows "links h' p xs q'"
  using assms by (induction xs arbitrary: p) (auto split: if_splits)

lemma recv_data_list_add_ok:
  assumes rq: "rq h list es" and e: "entry_ok h (n, r, b, m)"
    and new: "distinct [n, r, b]" "set [n, r, b] \<inter> set (list # concat (map e_addrs es)) = {}"
  shows "\<exists>h'. recv_data_list_add list n h = Some h' \<and> rq h' list (es @ [(n, r, b, m)]) \<and> relink h h'"
proof -
  let ?xs = "map e_node es" and ?l = "last (list # map e_node es)"
  have lk: "links h list ?xs list" using rq by (simp add: rq_def)
  have prev: "node_prev h list = Some ?l" using links_last_next [OF lk] by simp
  have nodes: "is_node h list" "is_node h n" "is_node h ?l"
    using rq_node(1) [OF rq] e links_last_next [OF lk] is_node_iff(1,3) by (auto simp: entry_ok_def)
  have fr: "n \<notin> set (list # ?xs)" using new(2) e_addrs_mem(1) by fastforce
  obtain h1 where h1: "set_prev list n h = Some h1" "node_prev h1 = (node_prev h)(list \<mapsto> n)"
      "node_next h1 = node_next h" "relink h h1"
    using set_prev_spec [OF nodes(1)] by blast
  obtain h2 where h2: "set_next n list h1 = Some h2" "node_next h2 = (node_next h1)(n \<mapsto> list)"
      "node_prev h2 = node_prev h1" "relink h1 h2"
    using set_next_spec [of h1 n] nodes(2) relink_node [OF h1(4)] by blast
  have r2: "relink h h2" by (rule relink_trans [OF h1(4) h2(4)])
  obtain h3 where h3: "set_prev n ?l h2 = Some h3" "node_prev h3 = (node_prev h2)(n \<mapsto> ?l)"
      "node_next h3 = node_next h2" "relink h2 h3"
    using set_prev_spec [of h2 n] nodes(2) relink_node [OF r2] by blast
  have r3: "relink h h3" by (rule relink_trans [OF r2 h3(4)])
  obtain h4 where h4: "set_next ?l n h3 = Some h4" "node_next h4 = (node_next h3)(?l \<mapsto> n)"
      "node_prev h4 = node_prev h3" "relink h3 h4"
    using set_next_spec [of h3 ?l] nodes(3) relink_node [OF r3] by blast
  have r4: "relink h h4" by (rule relink_trans [OF r3 h4(4)])
  have dn: "distinct (list # ?xs)" by (rule rq_distinct [OF rq])
  have ln: "?l \<in> set (list # ?xs)" by (rule last_in_set) simp
  have nx: "node_next h4 = (node_next h)(n \<mapsto> list, ?l \<mapsto> n)" by (simp add: h4 h3 h2 h1)
  have pv: "node_prev h4 = (node_prev h)(list \<mapsto> n, n \<mapsto> ?l)" by (simp add: h4 h3 h2 h1)
  have notlast: "?l \<notin> set (butlast (list # ?xs))"
    using dn by (metis append_butlast_last_id distinct_butlast not_distinct_conv_prefix list.distinct(1))
  have sub: "set (butlast (list # ?xs)) \<subseteq> set (list # ?xs)" by (meson in_set_butlastD subsetI)
  have "links h4 list ?xs n"
  proof (rule links_redirect [OF lk])
    show "\<forall>x\<in>set (butlast (list # ?xs)). node_next h4 x = node_next h x"
      using fr notlast sub by (auto simp del: butlast.simps simp: nx)
    show "\<forall>x\<in>set ?xs. node_prev h4 x = node_prev h x" using fr dn by (auto simp: pv)
    show "node_next h4 ?l = Some n" by (simp add: nx)
    show "node_prev h4 n = Some ?l" by (simp add: pv)
  qed
  moreover have "node_next h4 n = Some list" "node_prev h4 list = Some n"
    using fr ln by (metis fun_upd_apply nx) (use fr in \<open>simp add: pv\<close>)
  ultimately have "links h4 list (?xs @ [n]) list" by (simp only: links_snoc simp_thms)
  moreover have "\<forall>x\<in>set (es @ [(n, r, b, m)]). entry_ok h4 x"
    using rq e entry_ok_relink [OF r4] by (auto simp: rq_def)
  ultimately have "rq h4 list (es @ [(n, r, b, m)])"
    using rq new relink_ok [OF r4] by (auto simp: rq_def)
  moreover have "recv_data_list_add list n h = Some h4"
    by (simp add: recv_data_list_add_def prev h1(1) h2(1) h3(1) h4(1) del: last.simps)
  ultimately show ?thesis using r4 by blast
qed

text \<open>Unlinking the front node.\<close>

lemma unlink_front:
  assumes ok: "cheap_ok h" and lk: "links h list (x # xs) list" and dn: "distinct (list # x # xs)"
  shows "\<exists>h'. unlink_node x h = Some h' \<and> links h' list xs list \<and> cheap_ok h' \<and>
    (\<forall>a. a \<noteq> x \<longrightarrow> node_data h' a = node_data h a) \<and>
    (\<forall>a. \<not> is_node h a \<longrightarrow> store h' a = store h a) \<and>
    dom (store h') = dom (store h) - {x} \<and> fresh h' = fresh h \<and> oom h' = oom h"
proof -
  let ?q = "hd (xs @ [list])"
  have l: "node_next h list = Some x" "node_prev h x = Some list" "node_next h x = Some ?q"
    using lk by (cases xs; simp)+
  have "node_prev h ?q = Some x" using lk by (cases xs) simp_all
  then have q: "is_node h list" "is_node h ?q" using l(1) is_node_iff(1,2) by blast+
  have ne: "x \<noteq> list" "?q \<noteq> x" using dn by (cases xs; auto)+
  obtain h1 where h1: "set_next list ?q h = Some h1" "node_next h1 = (node_next h)(list \<mapsto> ?q)"
      "node_prev h1 = node_prev h" "relink h h1"
    using set_next_spec [OF q(1)] by blast
  obtain h2 where h2: "set_prev ?q list h1 = Some h2" "node_prev h2 = (node_prev h1)(?q \<mapsto> list)"
      "node_next h2 = node_next h1" "relink h1 h2"
    using set_prev_spec [of h1 ?q] q(2) relink_node [OF h1(4)] by blast
  have r: "relink h h2" by (rule relink_trans [OF h1(4) h2(4)])
  let ?h = "h2\<lparr>store := (store h2)(x := None)\<rparr>"
  have nx: "node_next ?h = (node_next h)(list \<mapsto> ?q, x := None)"
    using h2(3) h1(2) by (auto simp: node_next_def fun_eq_iff)
  have pv: "node_prev ?h = (node_prev h)(?q \<mapsto> list, x := None)"
    using h2(2) h1(3) by (auto simp: node_prev_def fun_eq_iff)
  have xd: "x \<in> dom (store h2)" using r l(3) by (auto simp: relink_def node_next_def split: option.splits)
  have ok2: "cheap_ok h2" using ok relink_ok [OF r] by simp
  then have f: "free x h2 = Some ?h" using free_live xd by blast
  have "unlink_node x h = Some ?h"
    using h1 h2 l ne f by (simp add: unlink_node_def)
  moreover have "links ?h list xs list"
  proof (cases xs)
    case Nil
    then show ?thesis using ne by (simp add: nx pv)
  next
    case (Cons y ys)
    have "links ?h y ys list = links h y ys list"
      by (rule links_cong) (use dn Cons in \<open>auto simp: nx pv\<close>)
    then show ?thesis using Cons ne lk dn by (auto simp: nx pv)
  qed
  moreover have "node_data ?h a = node_data h a" if "a \<noteq> x" for a
    using r that unfolding relink_def by (metis (mono_tags, lifting) cheap.select_convs(1) cheap.surjective
        cheap.update_convs(1) fun_upd_other node_data_def)
  moreover have "store ?h a = store h a" if "\<not> is_node h a" for a
    using r that l(3) by (auto simp: relink_def is_node_iff(1))
  moreover have "dom (store ?h) = dom (store h) - {x}" using r by (auto simp: relink_def)
  ultimately show ?thesis using free_ok [OF ok2 f] r by (auto simp: relink_def)
qed

lemma rq_tail:
  assumes "rq h list (e # es)" "links h' list (map e_node es) list" "cheap_ok h'"
    and "\<And>a. a \<noteq> e_node e \<Longrightarrow> node_data h' a = node_data h a"
    and "\<And>a. \<not> is_node h a \<Longrightarrow> a \<notin> set (e_addrs e) \<Longrightarrow> store h' a = store h a"
  shows "rq h' list es"
proof -
  have "entry_ok h' x" if x: "x \<in> set es" for x
  proof -
    have k: "entry_ok h x" using assms(1) x by (simp add: rq_def)
    have "set (e_addrs x) \<inter> set (e_addrs e) = {}" using assms(1) x by (auto simp: rq_def)
    then have "e_node x \<noteq> e_node e" "e_recv x \<notin> set (e_addrs e)" "e_block x \<notin> set (e_addrs e)"
      using e_addrs_mem by (metis IntI empty_iff)+
    then show ?thesis using k assms(4,5) by (auto simp: entry_ok_def is_node_def)
  qed
  then show ?thesis using assms(1-3) by (auto simp: rq_def)
qed

lemma recv_data_list_return_data_empty: "rq h list [] \<Longrightarrow> recv_data_list_return_data list h = Some (0, h)"
  by (simp add: rq_def recv_data_list_return_data_def)

lemma recv_data_list_return_data_ok:
  assumes rq: "rq h list (e # es)"
  shows "\<exists>h'. recv_data_list_return_data list h = Some (e_recv e, h') \<and> rq h' list es \<and>
    holds_msg h' (e_recv e) (e_block e) (e_msg e) \<and> (\<forall>a. \<not> is_node h a \<longrightarrow> store h' a = store h a) \<and>
    dom (store h') = dom (store h) - {e_node e} \<and> fresh h' = fresh h \<and> oom h' = oom h"
proof -
  have lk: "links h list (e_node e # map e_node es) list" and ok: "cheap_ok h"
    and d: "node_data h (e_node e) = Some (e_recv e)" and m: "holds_msg h (e_recv e) (e_block e) (e_msg e)"
    using rq by (auto simp: rq_def entry_ok_def)
  have dn: "distinct (list # e_node e # map e_node es)" using rq_distinct [OF rq] by simp
  obtain h' where h': "unlink_node (e_node e) h = Some h'" "links h' list (map e_node es) list" "cheap_ok h'"
      "\<forall>a. a \<noteq> e_node e \<longrightarrow> node_data h' a = node_data h a"
      "\<forall>a. \<not> is_node h a \<longrightarrow> store h' a = store h a"
      "dom (store h') = dom (store h) - {e_node e}" "fresh h' = fresh h" "oom h' = oom h"
    using unlink_front [OF ok lk dn] by blast
  have "rq h' list es" using rq_tail [OF rq h'(2,3)] h'(4,5) by blast
  moreover have "holds_msg h' (e_recv e) (e_block e) (e_msg e)"
    using m h'(5) by (auto simp: is_node_def)
  moreover have "recv_data_list_return_data list h = Some (e_recv e, h')"
    using lk dn d h'(1) by (simp add: recv_data_list_return_data_def)
  ultimately show ?thesis using h'(5-8) by blast
qed

text \<open>Releasing a message: both blocks are gone, nothing else is touched.\<close>

lemma free_recv_data_t_ok:
  assumes "cheap_ok h" "holds_msg h r b m"
  shows "\<exists>h'. free_recv_data_t r h = Some h' \<and> cheap_ok h' \<and>
    h' = h\<lparr>store := (store h)(b := None, r := None)\<rparr>"
proof -
  have b: "b \<noteq> 0" "b \<in> dom (store h)" "r \<noteq> b" "r \<noteq> 0" using assms by (auto simp: cheap_ok_def)
  then show ?thesis using assms by (auto simp: free_recv_data_t_def free_def cheap_ok_def)
qed

lemma recv_data_list_deinit_ok:
  assumes "rq h list es"
  shows "\<exists>h'. recv_data_list_deinit list h = Some h' \<and> rq h' list [] \<and>
    dom (store h') = dom (store h) - set (concat (map e_addrs es)) \<and>
    (\<forall>a. \<not> is_node h a \<longrightarrow> a \<notin> set (concat (map e_addrs es)) \<longrightarrow> store h' a = store h a) \<and>
    fresh h' = fresh h \<and> oom h' = oom h"
  using assms
proof (induction es arbitrary: h)
  case Nil
  then show ?case by (simp add: recv_data_list_deinit.simps [of list h]) (simp add: rq_def)
next
  case (Cons e es)
  obtain n r b m where e: "e = (n, r, b, m)" by (cases e)
  have lk: "links h list (n # map e_node es) list" and ok: "cheap_ok h"
    and d: "node_data h n = Some r" and m: "holds_msg h r b m" and dist: "distinct [list, n, r, b]"
    using Cons.prems by (auto simp: rq_def entry_ok_def e)
  have dn: "distinct (list # n # map e_node es)" using rq_distinct [OF Cons.prems] e by simp
  let ?h1 = "h\<lparr>store := (store h)(b := None, r := None)\<rparr>"
  have h1: "free_recv_data_t r h = Some ?h1" "cheap_ok ?h1" using free_recv_data_t_ok [OF ok m] by auto
  have nn: "\<not> is_node h r" "\<not> is_node h b" using m by (auto simp: is_node_def)
  have f1: "node_next ?h1 = node_next h" "node_prev ?h1 = node_prev h" "node_data ?h1 = node_data h"
    using m by (auto simp: node_next_def node_prev_def node_data_def fun_eq_iff)
  have lk1: "links ?h1 list (n # map e_node es) list"
    using lk links_cong [of ?h1 list h list "n # map e_node es"] f1 by metis
  obtain h2 where h2: "unlink_node n ?h1 = Some h2" "links h2 list (map e_node es) list" "cheap_ok h2"
      "\<forall>a. a \<noteq> n \<longrightarrow> node_data h2 a = node_data ?h1 a"
      "\<forall>a. \<not> is_node ?h1 a \<longrightarrow> store h2 a = store ?h1 a"
      "dom (store h2) = dom (store ?h1) - {n}" "fresh h2 = fresh ?h1" "oom h2 = oom ?h1"
    using unlink_front [OF h1(2) lk1 dn] by blast
  have keep: "store h2 a = store h a" if "\<not> is_node h a" "a \<notin> set (e_addrs e)" for a
    using that h2(5) f1(3) by (simp add: e is_node_iff(3))
  then have "rq h2 list es" using rq_tail [OF Cons.prems h2(2,3)] h2(4) f1(3) e by auto
  from Cons.IH [OF this] obtain h3 where h3: "recv_data_list_deinit list h2 = Some h3" "rq h3 list []"
      "dom (store h3) = dom (store h2) - set (concat (map e_addrs es))" "fresh h3 = fresh h2" "oom h3 = oom h2"
      "\<forall>a. \<not> is_node h2 a \<longrightarrow> a \<notin> set (concat (map e_addrs es)) \<longrightarrow> store h3 a = store h2 a"
    by blast
  have "recv_data_list_deinit list h = Some h3"
    using lk dn d h1(1) h2(1) h3(1) by (simp add: recv_data_list_deinit.simps [of list h])
  moreover have "dom (store h3) = dom (store h) - set (concat (map e_addrs (e # es)))"
    using h3(3) h2(6) by (auto simp: e)
  moreover have "store h3 a = store h a" if "\<not> is_node h a" "a \<notin> set (concat (map e_addrs (e # es)))" for a
    using keep [OF that(1)] h3(6) that by (simp add: is_node_def)
  ultimately show ?case using h3(2,4,5) h2(7,8) by simp
qed

lemma recv_data_list_init_ok:
  assumes "cheap_ok h" "0 < list" "list < fresh h"
  shows "rq (snd (recv_data_list_init list h)) list []"
  using assms by (auto simp: rq_def recv_data_list_init_def cheap_ok_def node_next_def node_prev_def)

text \<open>The queue does not depend on blocks allocated later.\<close>

lemma rq_addr: "rq h list es \<Longrightarrow> e \<in> set es \<Longrightarrow> a \<in> set (e_addrs e) \<Longrightarrow> a < fresh h"
proof -
  assume a: "rq h list es" "e \<in> set es" "a \<in> set (e_addrs e)"
  then have "entry_ok h e" "cheap_ok h" by (simp_all add: rq_def)
  then show "a < fresh h"
    using a(3) by (cases e) (auto simp: entry_ok_def cheap_ok_def node_data_def split: option.splits)
qed

lemma rq_cong:
  assumes rq: "rq h list es" and ok: "cheap_ok h'" and eq: "\<And>a. a < fresh h \<Longrightarrow> store h' a = store h a"
  shows "rq h' list es"
proof -
  have ok0: "cheap_ok h" using rq by (simp add: rq_def)
  have old: "is_node h a \<Longrightarrow> a < fresh h" for a using ok0 by (auto simp: is_node_def cheap_ok_def)
  have f: "a < fresh h \<Longrightarrow> node_next h' a = node_next h a \<and> node_prev h' a = node_prev h a" for a
    using eq by (simp add: node_next_def node_prev_def)
  have "links h' list (map e_node es) list = links h list (map e_node es) list"
    by (rule links_cong) (use f old rq_node [OF rq] in auto)
  moreover have "entry_ok h' e" if "e \<in> set es" for e
    using entry_ok_cong [of e h' h] eq rq_addr [OF rq that] rq that by (auto simp: rq_def)
  ultimately show ?thesis using rq ok by (simp add: rq_def)
qed

end
