(* ===== verification/Client_Types.thy ===== *)
theory Client_Types
  imports Recv_Fifo Send_Fifo Recv_Data_List
begin

text \<open>
  The constants of \<^verbatim>\<open>API/C/netWork.h\<close> and \<^verbatim>\<open>API/C/stupidP2P.h\<close>, the client structure
  \<^verbatim>\<open>stupid_p2p_t\<close> and the state of the client module: the client structures by address, the heap,
  the two static counters of \<^verbatim>\<open>stupidP2P.c\<close> and the state \<open>'o\<close> of the operating system.
\<close>

section \<open>Protocol constants\<close>

definition NET_PACKAGE_LENGTH :: int where
  [const_simps]: "NET_PACKAGE_LENGTH = 0x04"

definition NET_CALL_BACK_MASK :: byte where
  [const_simps]: "NET_CALL_BACK_MASK = 0x80"

definition NET_REGISTER_DEVICE :: byte where
  [const_simps]: "NET_REGISTER_DEVICE = 0x01"

definition REGISTER_DEVICE_CALL_BACK :: byte where
  [const_simps]: "REGISTER_DEVICE_CALL_BACK = NET_CALL_BACK_MASK OR NET_REGISTER_DEVICE"

definition NET_SUBSCRIBE_DEVICE :: byte where
  [const_simps]: "NET_SUBSCRIBE_DEVICE = 0x02"

definition SUBSCRIBE_DEVICE_CALL_BACK :: byte where
  [const_simps]: "SUBSCRIBE_DEVICE_CALL_BACK = NET_CALL_BACK_MASK OR NET_SUBSCRIBE_DEVICE"

definition NET_SEND_DATA :: byte where
  [const_simps]: "NET_SEND_DATA = 0x03"

definition SEND_DATA_CALL_BACK :: byte where
  [const_simps]: "SEND_DATA_CALL_BACK = NET_CALL_BACK_MASK OR NET_SEND_DATA"

definition NET_UNREGISTER_DEVICE :: byte where
  [const_simps]: "NET_UNREGISTER_DEVICE = 0x04"

definition UNREGISTER_DEVICE_CALL_BACK :: byte where
  [const_simps]: "UNREGISTER_DEVICE_CALL_BACK = NET_CALL_BACK_MASK OR NET_UNREGISTER_DEVICE"

definition NET_UNSUBSCRIBE_DEVICE :: byte where
  [const_simps]: "NET_UNSUBSCRIBE_DEVICE = 0x05"

definition UNSUBSCRIBE_DEVICE_CALL_BACK :: byte where
  [const_simps]: "UNSUBSCRIBE_DEVICE_CALL_BACK = NET_CALL_BACK_MASK OR NET_UNSUBSCRIBE_DEVICE"

definition NET_CHECK_DEVICE_ALIVE :: byte where
  [const_simps]: "NET_CHECK_DEVICE_ALIVE = 0x06"

definition CKECK_DEVICE_ALIVE_CALL_BACK :: byte where
  [const_simps]: "CKECK_DEVICE_ALIVE_CALL_BACK = NET_CALL_BACK_MASK OR NET_CHECK_DEVICE_ALIVE"

definition NET_HEART_BEAT :: byte where
  [const_simps]: "NET_HEART_BEAT = 0x07"

definition HEART_BEAT_CALL_BACK :: byte where
  [const_simps]: "HEART_BEAT_CALL_BACK = NET_CALL_BACK_MASK OR NET_HEART_BEAT"

definition NET_EXEC_FAIL :: byte where
  [const_simps]: "NET_EXEC_FAIL = 0x00"

definition NET_EXEC_SUCCESS :: byte where
  [const_simps]: "NET_EXEC_SUCCESS = 0x01"

definition CALL_BACK_SUCCESS :: byte where
  [const_simps]: "CALL_BACK_SUCCESS = 0x01"

definition CALL_BACK_NOT_RECEIVE :: byte where
  [const_simps]: "CALL_BACK_NOT_RECEIVE = 0xff"

text \<open>
  The error codes: the unsigned enumerators, 0x80000001 and the following, returned as
  \<^verbatim>\<open>int32_t\<close>.
\<close>

datatype p2p_error =
  STUPID_P2P_NO_ERROR | STUPID_P2P_ERROR_COMMOND | STUPID_P2P_BAD_PARAM
| STUPID_P2P_MEMORY_ERROR | STUPID_P2P_RESTARTING | STUPID_P2P_NET_ERROR

fun error_value :: "p2p_error \<Rightarrow> 32 word" where
  "error_value STUPID_P2P_NO_ERROR = 0"
| "error_value STUPID_P2P_ERROR_COMMOND = 0x80000001"
| "error_value STUPID_P2P_BAD_PARAM = 0x80000002"
| "error_value STUPID_P2P_MEMORY_ERROR = 0x80000003"
| "error_value STUPID_P2P_RESTARTING = 0x80000004"
| "error_value STUPID_P2P_NET_ERROR = 0x80000005"

definition int32_of_error :: "p2p_error \<Rightarrow> int" where
  "int32_of_error e = sint (error_value e)"

text \<open>Errors are negative and pairwise different, so they cannot be taken for a client descriptor.\<close>

lemma int32_of_error_simps [simp]:
  "int32_of_error STUPID_P2P_NO_ERROR = 0"
  "int32_of_error STUPID_P2P_ERROR_COMMOND = - 2147483647"
  "int32_of_error STUPID_P2P_BAD_PARAM = - 2147483646"
  "int32_of_error STUPID_P2P_MEMORY_ERROR = - 2147483645"
  "int32_of_error STUPID_P2P_RESTARTING = - 2147483644"
  "int32_of_error STUPID_P2P_NET_ERROR = - 2147483643"
  by (simp_all add: int32_of_error_def)

lemma int32_of_error_inj: "int32_of_error e = int32_of_error e' \<Longrightarrow> e = e'"
  by (cases e; cases e'; simp)

lemma int32_of_error_nonpos: "int32_of_error e \<le> 0"
  by (cases e) simp_all

section \<open>The status flags\<close>

record realtime_command_status_t =
  register_flag :: byte
  subscribe_flag :: byte
  send_data_flag :: byte
  unregister_flag :: byte
  unsubscribe_flag :: byte
  check_alive_flag :: byte
  heart_beat_flag :: byte
  heart_beat_not_receive_num :: byte

text \<open>A pointer \<^verbatim>\<open>uint8_t *flag\<close> to one of the flags.\<close>

datatype flag = Register | Subscribe | Send_data | Unregister | Unsubscribe | Check_alive | Heart_beat

fun read_flag :: "flag \<Rightarrow> realtime_command_status_t \<Rightarrow> byte" where
  "read_flag Register st = register_flag st"
| "read_flag Subscribe st = subscribe_flag st"
| "read_flag Send_data st = send_data_flag st"
| "read_flag Unregister st = unregister_flag st"
| "read_flag Unsubscribe st = unsubscribe_flag st"
| "read_flag Check_alive st = check_alive_flag st"
| "read_flag Heart_beat st = heart_beat_flag st"

fun write_flag :: "flag \<Rightarrow> byte \<Rightarrow> realtime_command_status_t \<Rightarrow> realtime_command_status_t" where
  "write_flag Register v st = st\<lparr>register_flag := v\<rparr>"
| "write_flag Subscribe v st = st\<lparr>subscribe_flag := v\<rparr>"
| "write_flag Send_data v st = st\<lparr>send_data_flag := v\<rparr>"
| "write_flag Unregister v st = st\<lparr>unregister_flag := v\<rparr>"
| "write_flag Unsubscribe v st = st\<lparr>unsubscribe_flag := v\<rparr>"
| "write_flag Check_alive v st = st\<lparr>check_alive_flag := v\<rparr>"
| "write_flag Heart_beat v st = st\<lparr>heart_beat_flag := v\<rparr>"

lemma read_write_flag [simp]: "read_flag f (write_flag g v st) = (if f = g then v else read_flag f st)"
  by (cases f; cases g; simp)

lemma write_flag_num [simp]: "heart_beat_not_receive_num (write_flag f v st) = heart_beat_not_receive_num st"
  by (cases f) simp_all

section \<open>The client structure and the module state\<close>

record sockaddr_in =
  sin_family :: int
  sin_port :: "16 word"
  sin_addr :: "32 word"

text \<open>The thread ids are opaque; \<open>recv_data_list\<close> is the address of the embedded list head.\<close>

record stupid_p2p_t =
  fd :: int
  socket_fd :: int
  server_addr :: sockaddr_in
  recv_fifo :: net_work_recv_data_fifo_t
  send_fifo :: net_work_send_command_fifo_t
  recv_data_list :: addr
  receive_id :: nat
  send_id :: nat
  check_net_id :: nat
  need_to_restart_flag :: int
  command_status :: realtime_command_status_t
  next_client :: addr

record 'o p2p_module =
  clients :: "addr \<rightharpoonup> stupid_p2p_t"
  heap :: cheap
  g_fd_start :: int
  g_init_signal_flag :: int
  os :: 'o

text \<open>Reading and writing a client structure through a pointer.\<close>

definition set_client :: "addr \<Rightarrow> stupid_p2p_t \<Rightarrow> 'o p2p_module \<Rightarrow> 'o p2p_module" where
  "set_client p c w = w\<lparr>clients := (clients w)(p \<mapsto> c)\<rparr>"

lemma set_client_simps [simp]:
  "clients (set_client p c w) = (clients w)(p \<mapsto> c)" "heap (set_client p c w) = heap w"
  "g_fd_start (set_client p c w) = g_fd_start w"
  "g_init_signal_flag (set_client p c w) = g_init_signal_flag w" "os (set_client p c w) = os w"
  "set_client p c (w\<lparr>heap := h\<rparr>) = (set_client p c w)\<lparr>heap := h\<rparr>"
  "set_client p c (w\<lparr>g_fd_start := n\<rparr>) = (set_client p c w)\<lparr>g_fd_start := n\<rparr>"
  "set_client p c (w\<lparr>os := x\<rparr>) = (set_client p c w)\<lparr>os := x\<rparr>"
  "set_client p c (set_client p c' w) = set_client p c w"
  by (simp_all add: set_client_def)

text \<open>
  A healthy client: its receive ring, its pending commands and its received messages are
  well-formed, on the one heap they share.
\<close>

definition client_ok :: "cheap \<Rightarrow> stupid_p2p_t \<Rightarrow> nat \<Rightarrow> (addr \<times> bytes) list \<Rightarrow> entry list \<Rightarrow> bool" where
  "client_ok h c p cs es \<longleftrightarrow> fifo_ok (recv_fifo c) \<and> sq h (send_fifo c) p cs \<and>
     rq h (recv_data_list c) es \<and> fst ` set cs \<inter> set (concat (map e_addrs es)) = {}"

text \<open>
  Heaps that differ by new blocks and by links between nodes: everything else that was there
  is still there, and what was free is still free.
\<close>

definition grows :: "cheap \<Rightarrow> cheap \<Rightarrow> bool" where
  "grows h h' \<longleftrightarrow> cheap_ok h' \<and> fresh h \<le> fresh h' \<and> oom h' = oom h \<and>
     (\<forall>a < fresh h. \<not> is_node h a \<longrightarrow> store h' a = store h a) \<and>
     (\<forall>a < fresh h. is_node h a \<longrightarrow> is_node h' a)"

lemma grows_refl: "cheap_ok h \<Longrightarrow> grows h h"
  by (simp add: grows_def)

lemma grows_trans:
  assumes "grows h h'" "grows h' h''"
  shows "grows h h''"
proof -
  have "is_node h' a \<longleftrightarrow> is_node h a" if "a < fresh h" for a
    using assms(1) that by (auto simp: grows_def is_node_def)
  then show ?thesis using assms by (auto simp: grows_def)
qed

lemma grows_relink: "cheap_ok h \<Longrightarrow> relink h h' \<Longrightarrow> grows h h'"
  using relink_ok relink_node by (auto simp: grows_def relink_def)

lemma grows_sq:
  assumes "grows h h'" "sq h f p cs"
  shows "sq h' f p cs"
proof (rule sq_cong [OF assms(2)])
  show "cheap_ok h'" "fresh h \<le> fresh h'" using assms(1) by (simp_all add: grows_def)
  fix a m assume "(a, m) \<in> set cs"
  then have "store h a = Some (CBytes m)" using sqD(9) [OF assms(2)] by (metis fst_conv in_set_conv_nth snd_conv)
  then show "store h' a = store h a"
    using assms sqD(1) [OF assms(2)] by (auto simp: grows_def cheap_ok_def is_node_def)
next
  fix a assume "a < fresh h" "store h a = None"
  then show "store h' a = None" using assms(1) by (auto simp: grows_def is_node_def)
qed

end
