(* ===== verification/Client_List.thy ===== *)
theory Client_List
  imports Client_Types
begin

text \<open>
  \<^verbatim>\<open>API/C/stupidP2P.c\<close>, the list of clients: a singly linked list behind the static node
  \<^verbatim>\<open>stupid_p2p_head\<close>. Each operation holds the read-write lock from its first to its last access,
  so each is one atomic function on the module state; the pointer loops are
  \<open>partial_function\<close>s and are shown to end on a well-formed list. \<^verbatim>\<open>find_stupid_p2p\<close> returns the
  first node with the descriptor; \<^verbatim>\<open>add_stupid_p2p_to_list\<close> appends; \<^verbatim>\<open>remove_stupid_p2p\<close> unlinks and
  frees a node, except when it is the last one, which its loop never looks at.
\<close>

text \<open>The address of the static node; \<^verbatim>\<open>free\<close> on it is undefined.\<close>

definition stupid_p2p_head :: addr where
  [const_simps]: "stupid_p2p_head = 1"

partial_function (option) last_client :: "(addr \<rightharpoonup> stupid_p2p_t) \<Rightarrow> addr \<Rightarrow> addr option" where
  "last_client m p = do {
     c \<leftarrow> m p;
     if next_client c \<noteq> 0 then last_client m (next_client c) else Some p }"

definition add_stupid_p2p_to_list :: "addr \<Rightarrow> 'o p2p_module \<Rightarrow> (int \<times> 'o p2p_module) option" where
  "add_stupid_p2p_to_list node w = do {
     let ret = g_fd_start w + 1;
     let w = w\<lparr>g_fd_start := ret\<rparr>;
     p \<leftarrow> last_client (clients w) stupid_p2p_head;
     c \<leftarrow> clients w p;
     Some (ret, set_client p (c\<lparr>next_client := node\<rparr>) w) }"

partial_function (option) remove_loop ::
  "int \<Rightarrow> addr \<Rightarrow> addr \<Rightarrow> (addr \<rightharpoonup> stupid_p2p_t) \<Rightarrow> (addr \<rightharpoonup> stupid_p2p_t) option" where
  "remove_loop f prev p m = do {
     c \<leftarrow> m p;
     if next_client c \<noteq> 0 then
       if fd c = f then do {
         c' \<leftarrow> m prev;
         let m' = m(prev \<mapsto> c'\<lparr>next_client := next_client c\<rparr>);
         if p = stupid_p2p_head then None else Some (m'(p := None)) }
       else remove_loop f p (next_client c) m
     else Some m }"

definition remove_stupid_p2p :: "int \<Rightarrow> 'o p2p_module \<Rightarrow> 'o p2p_module option" where
  "remove_stupid_p2p f w = do {
     m \<leftarrow> remove_loop f stupid_p2p_head stupid_p2p_head (clients w);
     Some (w\<lparr>clients := m\<rparr>) }"

partial_function (option) find_loop :: "int \<Rightarrow> addr \<Rightarrow> (addr \<rightharpoonup> stupid_p2p_t) \<Rightarrow> addr option" where
  "find_loop f p m =
     (if p \<noteq> 0 then do {
        c \<leftarrow> m p;
        if fd c = f then Some p else find_loop f (next_client c) m }
      else Some p)"

definition find_stupid_p2p :: "int \<Rightarrow> 'o p2p_module \<Rightarrow> addr option" where
  "find_stupid_p2p f w = find_loop f stupid_p2p_head (clients w)"

section \<open>Well-formed client lists\<close>

fun chain :: "(addr \<rightharpoonup> stupid_p2p_t) \<Rightarrow> addr \<Rightarrow> addr list \<Rightarrow> bool" where
  "chain m p [] \<longleftrightarrow> p = 0"
| "chain m p (x # xs) \<longleftrightarrow> p = x \<and> x \<noteq> 0 \<and> (\<exists>c. m x = Some c \<and> chain m (next_client c) xs)"

definition fd_of :: "(addr \<rightharpoonup> stupid_p2p_t) \<Rightarrow> addr \<Rightarrow> int" where
  "fd_of m p = (case m p of Some c \<Rightarrow> fd c | None \<Rightarrow> 0)"

definition client_list :: "(addr \<rightharpoonup> stupid_p2p_t) \<Rightarrow> addr list \<Rightarrow> bool" where
  "client_list m ps \<longleftrightarrow> chain m stupid_p2p_head (stupid_p2p_head # ps) \<and> distinct (stupid_p2p_head # ps)"

text \<open>The list depends on the links of its nodes only.\<close>

lemma chain_cong:
  assumes "\<And>x. x \<in> set xs \<Longrightarrow> map_option next_client (m' x) = map_option next_client (m x)"
  shows "chain m' p xs = chain m p xs"
  using assms
proof (induction xs arbitrary: p)
  case (Cons x xs)
  have e: "map_option next_client (m' x) = map_option next_client (m x)" using Cons.prems by simp
  have IH: "chain m' q xs = chain m q xs" for q using Cons by simp
  show ?case using e IH by (cases "m x"; cases "m' x") auto
qed simp

lemma client_list_set:
  assumes "client_list m ps" "m p = Some c" "next_client c' = next_client c"
  shows "client_list (m(p \<mapsto> c')) ps"
proof -
  have "chain (m(p \<mapsto> c')) stupid_p2p_head (stupid_p2p_head # ps) = chain m stupid_p2p_head (stupid_p2p_head # ps)"
    by (rule chain_cong) (use assms in auto)
  then show ?thesis using assms(1) by (simp only: client_list_def)
qed

lemma client_list_other:
  assumes "p \<notin> set (stupid_p2p_head # ps)"
  shows "client_list (m(p \<mapsto> c)) ps = client_list m ps"
proof -
  have "chain (m(p \<mapsto> c)) stupid_p2p_head (stupid_p2p_head # ps) = chain m stupid_p2p_head (stupid_p2p_head # ps)"
    by (rule chain_cong) (use assms in auto)
  then show ?thesis by (simp only: client_list_def)
qed

lemma client_list_mem: "client_list m ps \<Longrightarrow> p \<in> set (stupid_p2p_head # ps) \<Longrightarrow> \<exists>c. m p = Some c"
proof -
  have "chain m q xs \<Longrightarrow> p \<in> set xs \<Longrightarrow> \<exists>c. m p = Some c" for q xs
    by (induction xs arbitrary: q) auto
  then show "client_list m ps \<Longrightarrow> p \<in> set (stupid_p2p_head # ps) \<Longrightarrow> \<exists>c. m p = Some c"
    unfolding client_list_def by blast
qed

lemma last_client_chain: "chain m p (p # xs) \<Longrightarrow> last_client m p = Some (last (p # xs))"
proof (induction xs arbitrary: p)
  case Nil
  then show ?case by (auto simp: last_client.simps [of m p])
next
  case (Cons x xs)
  then obtain c where c: "m p = Some c" "next_client c = x" "x \<noteq> 0" "chain m x (x # xs)" by auto
  then show ?case using Cons.IH [of x] by (simp add: last_client.simps [of m p])
qed

lemma chain_append:
  assumes "chain m p (p # xs)" "distinct (p # xs)" "last (p # xs) = l" "m l = Some c"
    and "m n = Some d" "next_client d = 0" "n \<notin> set (p # xs)" "n \<noteq> 0"
  shows "chain (m(l \<mapsto> c\<lparr>next_client := n\<rparr>)) p ((p # xs) @ [n])"
  using assms
proof (induction xs arbitrary: p)
  case Nil
  then show ?case by auto
next
  case (Cons x xs)
  then obtain e where e: "m p = Some e" "next_client e = x" "p \<noteq> 0" "chain m x (x # xs)" by auto
  have l: "last (x # xs) = l" using Cons.prems(3) by simp
  then have ne: "p \<noteq> l" using Cons.prems(2) last_in_set [of "x # xs"] by auto
  have "chain (m(l \<mapsto> c\<lparr>next_client := n\<rparr>)) x ((x # xs) @ [n])"
    by (rule Cons.IH [OF e(4)]) (use Cons.prems l in auto)
  moreover have "(m(l \<mapsto> c\<lparr>next_client := n\<rparr>)) p = Some e" using ne e(1) by simp
  moreover have "(p # x # xs) @ [n] = p # ((x # xs) @ [n])" by simp
  ultimately show ?case using e(2,3) chain.simps(2) by metis
qed

lemma add_stupid_p2p_ok:
  assumes cl: "client_list (clients w) ps" and n: "clients w n = Some d" "next_client d = 0"
    and new: "n \<notin> set (stupid_p2p_head # ps)" "n \<noteq> 0"
  shows "\<exists>w' c. add_stupid_p2p_to_list n w = Some (g_fd_start w + 1, w') \<and>
     clients w (last (stupid_p2p_head # ps)) = Some c \<and>
     w' = (set_client (last (stupid_p2p_head # ps)) (c\<lparr>next_client := n\<rparr>) w)\<lparr>g_fd_start := g_fd_start w + 1\<rparr> \<and>
     client_list (clients w') (ps @ [n])"
proof -
  let ?l = "last (stupid_p2p_head # ps)"
  have "?l \<in> set (stupid_p2p_head # ps)" by (rule last_in_set) simp
  then obtain c where c: "clients w ?l = Some c" using client_list_mem [OF cl] by blast
  let ?w = "(set_client ?l (c\<lparr>next_client := n\<rparr>) w)\<lparr>g_fd_start := g_fd_start w + 1\<rparr>"
  have ch: "chain (clients w) stupid_p2p_head (stupid_p2p_head # ps)" "distinct (stupid_p2p_head # ps)"
    using cl by (simp_all add: client_list_def)
  have "chain (clients ?w) stupid_p2p_head ((stupid_p2p_head # ps) @ [n])"
    using chain_append [OF ch refl c n new] by simp
  then have "client_list (clients ?w) (ps @ [n])"
    unfolding client_list_def using ch(2) new(1) by auto
  moreover have "add_stupid_p2p_to_list n w = Some (g_fd_start w + 1, ?w)"
    using last_client_chain [OF ch(1)] c by (simp add: add_stupid_p2p_to_list_def Let_def del: last.simps)
  ultimately show ?thesis using c by blast
qed

lemma find_loop_chain:
  "chain m p xs \<Longrightarrow> find_loop f p m = Some (case find (\<lambda>x. fd_of m x = f) xs of Some x \<Rightarrow> x | None \<Rightarrow> 0)"
proof (induction xs arbitrary: p)
  case Nil
  then show ?case by (simp add: find_loop.simps [of f 0 m])
next
  case (Cons x xs)
  then obtain c where "p = x" "x \<noteq> 0" "m x = Some c" "chain m (next_client c) xs" by auto
  then show ?case using Cons.IH [of "next_client c"]
    by (simp add: find_loop.simps [of f x m] fd_of_def)
qed

lemma find_stupid_p2p_ok:
  "client_list (clients w) ps \<Longrightarrow>
     find_stupid_p2p f w = Some (case find (\<lambda>x. fd_of (clients w) x = f) (stupid_p2p_head # ps) of Some x \<Rightarrow> x | None \<Rightarrow> 0)"
  unfolding find_stupid_p2p_def client_list_def using find_loop_chain by blast

lemma find_stupid_p2p_first:
  assumes cl: "client_list (clients w) (ys @ p # zs)" and f: "fd_of (clients w) p = f"
    and first: "\<forall>y\<in>set (stupid_p2p_head # ys). fd_of (clients w) y \<noteq> f"
  shows "find_stupid_p2p f w = Some p"
proof -
  have "find (\<lambda>x. fd_of (clients w) x = f) (xs @ p # zs) = Some p" if "\<forall>y\<in>set xs. fd_of (clients w) y \<noteq> f" for xs
    using that f by (induction xs) auto
  from this [OF first] show ?thesis using find_stupid_p2p_ok [OF cl, of f] by simp
qed

lemma client_list_nz: "client_list m ps \<Longrightarrow> p \<in> set ps \<Longrightarrow> p \<noteq> 0"
proof -
  have "chain m q zs \<Longrightarrow> p \<in> set zs \<Longrightarrow> p \<noteq> 0" for q zs by (induction zs arbitrary: q) auto
  then show "client_list m ps \<Longrightarrow> p \<in> set ps \<Longrightarrow> p \<noteq> 0" unfolding client_list_def by (meson list.set_intros(2))
qed

lemma fd_of_set: "m p = Some c \<Longrightarrow> fd c' = fd c \<Longrightarrow> fd_of (m(p \<mapsto> c')) x = fd_of m x"
  by (simp add: fd_of_def)

lemma remove_loop_absent:
  "chain m p (p # xs) \<Longrightarrow> \<forall>x\<in>set (butlast (p # xs)). fd_of m x \<noteq> f \<Longrightarrow> remove_loop f q p m = Some m"
proof (induction xs arbitrary: p q)
  case Nil
  then show ?case by (auto simp: remove_loop.simps [of f q p m])
next
  case (Cons x xs)
  then obtain c where c: "m p = Some c" "next_client c = x" "x \<noteq> 0" "chain m x (x # xs)" by auto
  have "fd c \<noteq> f" using Cons.prems(2) c(1) by (auto simp: fd_of_def)
  then show ?case using Cons.IH [OF c(4), of p] Cons.prems(2) c by (simp add: remove_loop.simps [of f q p m])
qed

text \<open>Removing a node that has a successor.\<close>

lemma remove_loop_present:
  assumes "chain m q (q # ys @ p # x # xs)" "distinct (stupid_p2p_head # ys @ p # x # xs)" "q \<notin> set (ys @ p # x # xs)"
    and "\<forall>y\<in>set ys. fd_of m y \<noteq> f" "fd_of m p = f" "m q = Some d"
  shows "\<exists>m'. remove_loop f q (next_client d) m = Some m' \<and> chain m' q (q # ys @ x # xs) \<and> m' p = None \<and>
     (\<forall>a. a \<notin> set (q # ys) \<longrightarrow> a \<noteq> p \<longrightarrow> m' a = m a)"
  using assms
proof (induction ys arbitrary: q d)
  case Nil
  then obtain c where c: "next_client d = p" "m p = Some c" "next_client c = x" "x \<noteq> 0" "chain m x (x # xs)" "fd c = f"
    by (auto simp: fd_of_def)
  let ?m = "m(q \<mapsto> d\<lparr>next_client := x\<rparr>, p := None)"
  have "chain ?m x (x # xs) = chain m x (x # xs)"
    by (rule chain_cong) (use Nil.prems in auto)
  moreover have "remove_loop f q p m = Some ?m"
    using c Nil.prems by (auto simp: remove_loop.simps [of f q p m])
  moreover have "q \<noteq> 0" "q \<noteq> p" using Nil.prems by auto
  ultimately show ?case using c by auto
next
  case (Cons y ys)
  then obtain c where c: "next_client d = y" "m y = Some c" "y \<noteq> 0" "chain m y (y # ys @ p # x # xs)" "fd c \<noteq> f"
    by (auto simp: fd_of_def)
  have nz: "next_client c \<noteq> 0" using c(2,4) by (cases ys) auto
  obtain m' where m': "remove_loop f y (next_client c) m = Some m'" "chain m' y (y # ys @ x # xs)" "m' p = None"
      "\<forall>a. a \<notin> set (y # ys) \<longrightarrow> a \<noteq> p \<longrightarrow> m' a = m a"
    using Cons.IH [OF c(4) _ _ _ _ c(2)] Cons.prems by auto
  have "remove_loop f q y m = Some m'"
    using c(2,5) nz m'(1) by (simp add: remove_loop.simps [of f q y m])
  moreover have "m' q = Some d" using m'(4) Cons.prems(3,6) by auto
  ultimately show ?case using c(1) m' Cons.prems(1) by auto
qed

lemma remove_stupid_p2p_ok:
  assumes cl: "client_list (clients w) (ys @ p # x # xs)"
    and f: "\<forall>y\<in>set (stupid_p2p_head # ys). fd_of (clients w) y \<noteq> f" "fd_of (clients w) p = f"
  shows "\<exists>w'. remove_stupid_p2p f w = Some w' \<and> client_list (clients w') (ys @ x # xs) \<and>
     clients w' p = None \<and> heap w' = heap w"
proof -
  let ?h = stupid_p2p_head
  have ch: "chain (clients w) ?h (?h # ys @ p # x # xs)" "distinct (?h # ys @ p # x # xs)"
    using cl by (simp_all add: client_list_def)
  obtain d where d: "clients w ?h = Some d" using client_list_mem [OF cl, of ?h] by auto
  have nz: "next_client d \<noteq> 0" using ch(1) d by (cases ys) auto
  obtain m' where m': "remove_loop f ?h (next_client d) (clients w) = Some m'" "chain m' ?h (?h # ys @ x # xs)" "m' p = None"
    using remove_loop_present [OF ch _ _ f(2) d] f(1) ch(2) by auto
  have "remove_loop f ?h ?h (clients w) = Some m'"
    using d nz f(1) m'(1) by (simp add: remove_loop.simps [of f ?h ?h] fd_of_def)
  then show ?thesis
    using m' ch(2) by (auto simp: remove_stupid_p2p_def client_list_def)
qed

text \<open>Removing the last node does nothing.\<close>

lemma remove_stupid_p2p_last:
  assumes cl: "client_list (clients w) ps" and f: "\<forall>y\<in>set (butlast (stupid_p2p_head # ps)). fd_of (clients w) y \<noteq> f"
  shows "remove_stupid_p2p f w = Some w"
  using remove_loop_absent [OF _ f] cl by (simp add: remove_stupid_p2p_def client_list_def)

end
