(* ===== verification/Net_Command.thy ===== *)
theory Net_Command
  imports Client_Types "HOL-Library.Sublist"
begin

text \<open>
  \<^verbatim>\<open>API/C/netWork.c\<close>: the parser of the C client. \<^verbatim>\<open>parse_recv_net_command\<close> takes complete packages off
  the receive ring, copies each into the array \<^verbatim>\<open>command[2048]\<close> on the stack, and acts on it:
  received data becomes an entry of the message list, a callback sets a status flag. \<open>None\<close>
  is a write behind the array, an overflow of \<^verbatim>\<open>command_length + 4\<close>, or a dangling pointer. The
  parser is shown to implement \<open>split_frames\<close> followed by \<open>handle\<close> as long as the peer sends
  packages of 1 to 2048 bytes.
\<close>

definition COMMAND_SIZE :: nat where
  [const_simps]: "COMMAND_SIZE = 2048"

text \<open>The hexadecimal dump of \<^verbatim>\<open>to_hex\<close>, as character codes with the terminating zero.\<close>

definition hex_table :: bytes where
  "hex_table = map of_char ''0123456789ABCDEF''"

fun to_hex :: "bytes \<Rightarrow> bytes" where
  "to_hex [] = [0]"
| "to_hex (b # bs) = hex_table ! unat (drop_bit 4 b) # hex_table ! unat (b AND 0x0F) # to_hex bs"

text \<open>The copy loop: \<open>command[i] = *top; pop(1)\<close> for \<open>k\<close> more bytes.\<close>

fun read_command ::
  "nat \<Rightarrow> nat \<Rightarrow> bytes \<Rightarrow> net_work_recv_data_fifo_t \<Rightarrow> (bytes \<times> net_work_recv_data_fifo_t) option" where
  "read_command i 0 command fifo = Some (command, fifo)"
| "read_command i (Suc k) command fifo =
     (if i < COMMAND_SIZE
      then read_command (Suc i) k (command[i := recv_data_fifo_top fifo]) (recv_data_fifo_pop fifo 1)
      else None)"

text \<open>The \<^verbatim>\<open>SEND_DATA\<close> case: three allocations, each with its \<^verbatim>\<open>NULL\<close> branch.\<close>

definition recv_data_command :: "addr \<Rightarrow> bytes \<Rightarrow> int \<Rightarrow> cheap \<Rightarrow> cheap option" where
  "recv_data_command list command command_length h =
     (let n = command_length - 1;
          (data, h) = alloc n (CBytes (replicate (nat n) 0)) h in
      if data = 0 then Some h
      else
        let h = h\<lparr>store := (store h)(data \<mapsto> CBytes (take (nat n) (drop 1 command)))\<rparr>;
            (recv_data, h) = alloc 16 (CRecv 0 0) h in
        if recv_data = 0 then free data h
        else
          let h = h\<lparr>store := (store h)(recv_data \<mapsto> CRecv n data)\<rparr>;
              (node, h) = alloc 24 (CNode 0 0 0) h in
          if node = 0 then do { h \<leftarrow> free data h; free recv_data h }
          else do {
            h \<leftarrow> set_data node recv_data h;
            recv_data_list_add list node h })"

text \<open>The flag a callback code sets.\<close>

definition callback_flag :: "byte \<Rightarrow> flag option" where
  "callback_flag b =
     (if b = REGISTER_DEVICE_CALL_BACK then Some Register
      else if b = SUBSCRIBE_DEVICE_CALL_BACK then Some Subscribe
      else if b = SEND_DATA_CALL_BACK then Some Send_data
      else if b = UNREGISTER_DEVICE_CALL_BACK then Some Unregister
      else if b = UNSUBSCRIBE_DEVICE_CALL_BACK then Some Unsubscribe
      else if b = CKECK_DEVICE_ALIVE_CALL_BACK then Some Check_alive
      else if b = HEART_BEAT_CALL_BACK then Some Heart_beat
      else None)"

definition exec_command :: "bytes \<Rightarrow> int \<Rightarrow> stupid_p2p_t \<Rightarrow> cheap \<Rightarrow> (stupid_p2p_t \<times> cheap) option" where
  "exec_command command command_length c h =
     (if command ! 0 = NET_SEND_DATA then
        map_option (Pair c) (recv_data_command (recv_data_list c) command command_length h)
      else (case callback_flag (command ! 0) of
              Some f \<Rightarrow> Some (c\<lparr>command_status := write_flag f
                  (if command ! 1 = NET_EXEC_SUCCESS then NET_EXEC_SUCCESS else NET_EXEC_FAIL)
                  (command_status c)\<rparr>, h)
            | None \<Rightarrow> Some (c, h)))"

lemma read_command_length:
  "read_command i k command fifo = Some (command', fifo') \<Longrightarrow> fifo_length fifo' = fifo_length fifo - int k"
  by (induction i k command fifo rule: read_command.induct)
    (auto simp: recv_data_fifo_pop_def split: if_splits)

lemma exec_command_fifo: "exec_command command n c h = Some (c', h') \<Longrightarrow> recv_fifo c' = recv_fifo c"
  by (auto simp: exec_command_def split: if_splits option.splits)

function parse_loop :: "bytes \<Rightarrow> stupid_p2p_t \<Rightarrow> cheap \<Rightarrow> (stupid_p2p_t \<times> cheap) option" where
  "parse_loop command c h =
     (if recv_data_fifo_length (recv_fifo c) \<ge> NET_PACKAGE_LENGTH then
        let command_length = recv_data_fifo_top_int (recv_fifo c) in
        if command_length + 4 \<ge> 2 ^ 31 then None
        else if recv_data_fifo_length (recv_fifo c) \<ge> command_length + 4 then
          (case read_command 0 (nat command_length) command (recv_data_fifo_pop (recv_fifo c) 4) of
             None \<Rightarrow> None
           | Some (command', fifo) \<Rightarrow>
               (case exec_command command' command_length (c\<lparr>recv_fifo := fifo\<rparr>) h of
                  None \<Rightarrow> None
                | Some (c', h') \<Rightarrow> parse_loop command' c' h'))
        else Some (c, h)
      else Some (c, h))"
  by pat_completeness auto
termination
  by (relation "measure (\<lambda>(command, c, h). nat (fifo_length (recv_fifo c)))")
    (auto simp: recv_data_fifo_length_def const_simps recv_data_fifo_pop_def
      dest!: read_command_length exec_command_fifo)

declare parse_loop.simps [simp del]

definition parse_recv_net_command :: "addr \<Rightarrow> 'o p2p_module \<Rightarrow> 'o p2p_module option" where
  "parse_recv_net_command p w =
     (if p = 0 then Some w
      else do {
        c \<leftarrow> clients w p;
        (c, h) \<leftarrow> parse_loop (replicate COMMAND_SIZE 0) c (heap w);
        Some ((set_client p c w)\<lparr>heap := h\<rparr>) })"

section \<open>What the parser does\<close>

lemma blit_Cons:
  "i < length xs \<Longrightarrow> blit (xs[i := b]) (Suc i) bs = blit xs i (b # bs)"
  by (simp add: blit_def take_Suc_conv_app_nth)

lemma read_command_ok:
  assumes "fifo_ok q" "k \<le> length (fifo_contents q)" "i + k \<le> COMMAND_SIZE" "length command = COMMAND_SIZE"
  shows "\<exists>q'. read_command i k command q = Some (blit command i (take k (fifo_contents q)), q') \<and>
     fifo_ok q' \<and> fifo_contents q' = drop k (fifo_contents q)"
  using assms
proof (induction k arbitrary: i command q)
  case 0
  then show ?case by (simp add: blit_def)
next
  case (Suc k)
  obtain b bs where b: "fifo_contents q = b # bs" using Suc.prems(2) by (cases "fifo_contents q") auto
  have q1: "fifo_ok (recv_data_fifo_pop q 1)" "fifo_contents (recv_data_fifo_pop q 1) = bs"
    using fifo_pop_ok [OF Suc.prems(1), of 1] b by simp_all
  have "\<exists>q'. read_command (Suc i) k (command[i := b]) (recv_data_fifo_pop q 1) =
      Some (blit (command[i := b]) (Suc i) (take k bs), q') \<and> fifo_ok q' \<and> fifo_contents q' = drop k bs"
    using Suc.IH [OF q1(1), of "Suc i" "command[i := b]"] Suc.prems b q1(2) by simp
  then show ?case
    using Suc.prems(3,4) fifo_top [OF Suc.prems(1) b] b by (simp add: blit_Cons)
qed

text \<open>
  Received data: if memory is available the message is entered at the end of the list; in
  every case the list stays well-formed and nothing else on the heap changes.
\<close>

lemma recv_data_command_ok:
  assumes rq: "rq h list es" and n: "1 \<le> n"
    and m: "m = take (nat (n - 1)) (drop 1 command)" and len: "length m = nat (n - 1)"
  shows "\<exists>h' es'. recv_data_command list command n h = Some h' \<and> rq h' list es' \<and> grows h h' \<and>
     (es' = es \<and> (\<exists>k. oom h k) \<or> (\<exists>e. es' = es @ [e] \<and> e_msg e = m \<and> (\<forall>a\<in>set (e_addrs e). fresh h \<le> a)))"
proof -
  let ?d = "fresh h"
  have ok: "cheap_ok h" and n0: "\<not> n - 1 < 0" using rq n by (simp_all add: rq_def)
  have d: "?d \<noteq> 0" using ok by (simp add: cheap_ok_def)
  have keep: "rq h' list es \<and> grows h h'"
    if "fresh h \<le> fresh h'" "oom h' = oom h" "\<And>a. a < fresh h \<Longrightarrow> store h' a = store h a" "cheap_ok h'" for h'
    using rq_cong [OF rq that(4,3)] that by (auto simp: grows_def is_node_def)
  let ?h1 = "h\<lparr>store := (store h)(?d \<mapsto> CBytes m), fresh := ?d + 1\<rparr>"
  let ?h2 = "h\<lparr>store := (store h)(?d \<mapsto> CBytes m, ?d + 1 \<mapsto> CRecv (n - 1) ?d), fresh := ?d + 2\<rparr>"
  let ?h3 = "h\<lparr>store := (store h)(?d \<mapsto> CBytes m, ?d + 1 \<mapsto> CRecv (n - 1) ?d, ?d + 2 \<mapsto> CNode (?d + 1) 0 0), fresh := ?d + 3\<rparr>"
  note unf = recv_data_command_def alloc_def Let_def m [symmetric]
  consider (1) "oom h ?d" | (2) "\<not> oom h ?d" "oom h (?d + 1)" | (3) "\<not> oom h ?d" "\<not> oom h (?d + 1)" "oom h (?d + 2)"
    | (4) "\<not> oom h ?d" "\<not> oom h (?d + 1)" "\<not> oom h (?d + 2)" by blast
  then show ?thesis
  proof cases
    case 1
    let ?h = "h\<lparr>fresh := ?d + 1\<rparr>"
    have "recv_data_command list command n h = Some ?h" using 1 by (simp add: unf)
    moreover have "rq ?h list es \<and> grows h ?h" by (rule keep) (use ok in \<open>auto simp: cheap_ok_def less_Suc_eq\<close>)
    ultimately show ?thesis using 1 by blast
  next
    case 2
    let ?h = "h\<lparr>store := (store h)(?d := None), fresh := ?d + 2\<rparr>"
    have "recv_data_command list command n h = Some ?h" using 2 n0 d by (simp add: unf free_def)
    moreover have "rq ?h list es \<and> grows h ?h" by (rule keep) (use ok in \<open>auto simp: cheap_ok_def less_Suc_eq\<close>)
    ultimately show ?thesis using 2 by blast
  next
    case 3
    let ?h = "h\<lparr>store := (store h)(?d := None, ?d + 1 := None), fresh := ?d + 3\<rparr>"
    have "recv_data_command list command n h = Some ?h"
      using 3 n0 d by (simp add: unf free_def numeral_3_eq_3 fun_upd_twist)
    moreover have "rq ?h list es \<and> grows h ?h" by (rule keep) (use ok in \<open>auto simp: cheap_ok_def less_Suc_eq numeral_3_eq_3\<close>)
    ultimately show ?thesis using 3 by blast
  next
    case 4
    have ok3: "cheap_ok ?h3" using ok by (auto simp: cheap_ok_def less_Suc_eq numeral_3_eq_3)
    have r3: "rq ?h3 list es" "grows h ?h3" using keep [of ?h3] ok3 by auto
    have e: "entry_ok ?h3 (?d + 2, ?d + 1, ?d, m)" using len n by (simp add: entry_ok_def node_data_def)
    have l: "list < ?d" using rq_node(1) [OF rq] ok by (auto simp: is_node_def cheap_ok_def)
    have "x < ?d" if "x \<in> set (concat (map e_addrs es))" for x using rq_addr [OF rq] that by auto
    then have new: "set [?d + 2, ?d + 1, ?d] \<inter> set (list # concat (map e_addrs es)) = {}" using l by fastforce
    obtain h' where h': "recv_data_list_add list (?d + 2) ?h3 = Some h'"
        "rq h' list (es @ [(?d + 2, ?d + 1, ?d, m)])" "relink ?h3 h'"
      using recv_data_list_add_ok [OF r3(1) e _ new] by auto
    have "grows h h'" by (rule grows_trans [OF r3(2) grows_relink [OF ok3 h'(3)]])
    moreover have "recv_data_command list command n h = Some h'"
      using 4 n0 d h'(1) by (simp add: recv_data_command_def alloc_def Let_def m set_data_def numeral_3_eq_3)
    ultimately show ?thesis using h'(2) by fastforce
  qed
qed

text \<open>The effect of one package on the status flags, and the data it delivers.\<close>

definition package_ok :: "int \<Rightarrow> bool" where
  "package_ok len \<longleftrightarrow> 1 \<le> len \<and> len \<le> 2048"

definition acceptable :: "bytes \<Rightarrow> bool" where
  "acceptable m \<longleftrightarrow> (callback_flag (hd m) \<noteq> None \<longrightarrow> 2 \<le> length m)"

definition handle_status :: "bytes \<Rightarrow> realtime_command_status_t \<Rightarrow> realtime_command_status_t" where
  "handle_status m st =
     (case callback_flag (hd m) of
        Some f \<Rightarrow> write_flag f (if m ! 1 = 1 then 1 else 0) st
      | None \<Rightarrow> st)"

definition received :: "bytes \<Rightarrow> bytes list" where
  "received m = (if hd m = 3 then [tl m] else [])"

lemma callback_flag_data [simp]: "callback_flag 3 = None"
  by (simp add: callback_flag_def const_simps)

lemma exec_command_ok:
  assumes ok: "client_ok h c p cs es" and m: "m \<noteq> []" "acceptable m"
  shows "\<exists>c' h' es' ds. exec_command (m @ stale) (int (length m)) c h = Some (c', h') \<and>
     client_ok h' c' p cs es' \<and> grows h h' \<and> c' = c\<lparr>command_status := handle_status m (command_status c)\<rparr> \<and>
     msgs es' = msgs es @ ds \<and> subseq ds (received m) \<and> ((\<forall>k. \<not> oom h k) \<longrightarrow> ds = received m)"
proof (cases "hd m = 3")
  case True
  have h0: "(m @ stale) ! 0 = NET_SEND_DATA" using m True by (cases m) (auto simp: const_simps)
  have t: "tl m = take (nat (int (length m) - 1)) (drop 1 (m @ stale))" using m by (cases m) auto
  have rq: "rq h (recv_data_list c) es" using ok by (simp add: client_ok_def)
  have l: "1 \<le> int (length m)" "length (tl m) = nat (int (length m) - 1)" using m by (cases m; simp)+
  obtain h' es' where h': "recv_data_command (recv_data_list c) (m @ stale) (int (length m)) h = Some h'"
      "rq h' (recv_data_list c) es'" "grows h h'"
      "es' = es \<and> (\<exists>k. oom h k) \<or> (\<exists>e. es' = es @ [e] \<and> e_msg e = tl m \<and> (\<forall>a\<in>set (e_addrs e). fresh h \<le> a))"
    using recv_data_command_ok [OF rq l(1) t l(2)] by blast
  have "store h a = Some (CBytes x)" if "(a, x) \<in> set cs" for a x
    using ok sqD(9) that unfolding client_ok_def by (metis fst_conv in_set_conv_nth snd_conv)
  then have "a < fresh h" if "a \<in> fst ` set cs" for a
    using ok that by (fastforce simp: client_ok_def rq_def cheap_ok_def)
  then have dis: "fst ` set cs \<inter> set (concat (map e_addrs es')) = {}"
    using h'(4) ok by (fastforce simp: client_ok_def)
  have s: "handle_status m (command_status c) = command_status c" using True by (simp add: handle_status_def)
  have "client_ok h' c p cs es'"
    using ok h'(2) dis grows_sq [OF h'(3)] by (simp add: client_ok_def)
  moreover have "exec_command (m @ stale) (int (length m)) c h = Some (c, h')"
    using h0 h'(1) by (simp add: exec_command_def)
  moreover have "\<exists>ds. msgs es' = msgs es @ ds \<and> subseq ds (received m) \<and> ((\<forall>k. \<not> oom h k) \<longrightarrow> ds = received m)"
    using h'(4) True by (auto simp: msgs_def received_def)
  ultimately show ?thesis using h'(3) s by fastforce
next
  case False
  have h0: "(m @ stale) ! 0 = hd m" using m by (cases m) auto
  have cf: "(m @ stale) ! 1 = m ! 1" if "callback_flag (hd m) = Some f" for f
    using that m(2) by (simp add: acceptable_def nth_append)
  have "exec_command (m @ stale) (int (length m)) c h =
      Some (c\<lparr>command_status := handle_status m (command_status c)\<rparr>, h)"
    using False cf by (auto simp: exec_command_def h0 handle_status_def const_simps split: option.splits)
  moreover have "client_ok h (c\<lparr>command_status := handle_status m (command_status c)\<rparr>) p cs es" "cheap_ok h"
    using ok by (auto simp: client_ok_def rq_def)
  ultimately show ?thesis
    using False grows_refl by (auto simp: received_def)
qed

text \<open>
  The parser on a stream whose packages have 1 to 2048 bytes: every complete package is handled
  in order, an incomplete one stays in the ring.
\<close>

lemma parse_loop_ok:
  assumes "client_ok h c p cs es" "length command = COMMAND_SIZE"
    and "split_frames package_ok (fifo_contents (recv_fifo c)) = (ms, rest, False)" "\<forall>m\<in>set ms. acceptable m"
  shows "\<exists>c' h' es' ds q. parse_loop command c h = Some (c', h') \<and> client_ok h' c' p cs es' \<and> grows h h' \<and>
     c' = c\<lparr>recv_fifo := q, command_status := fold handle_status ms (command_status c)\<rparr> \<and>
     fifo_contents q = rest \<and> msgs es' = msgs es @ ds \<and> subseq ds (concat (map received ms)) \<and>
     ((\<forall>k. \<not> oom h k) \<longrightarrow> ds = concat (map received ms))"
  using assms
proof (induction ms arbitrary: command c h es)
  case Nil
  let ?bs = "fifo_contents (recv_fifo c)"
  have q: "fifo_ok (recv_fifo c)" "cheap_ok h" using Nil.prems(1) by (auto simp: client_ok_def rq_def)
  have len: "recv_data_fifo_length (recv_fifo c) = int (length ?bs)"
    using q(1) by (simp add: recv_data_fifo_length_def length_fifo_contents fifo_ok_def)
  have rest: "rest = ?bs" and stop: "length ?bs < 4 \<or> 4 \<le> length ?bs \<and> 0 \<le> header ?bs \<and> package_ok (header ?bs)
      \<and> length ?bs < 4 + nat (header ?bs)"
    using split_frames_Nil [OF Nil.prems(3)] by auto
  have "parse_loop command c h = Some (c, h)"
    using stop fifo_top_header [OF q(1)]
    by (auto simp: parse_loop.simps [of command c h] len const_simps Let_def package_ok_def)
  moreover have "c = c\<lparr>recv_fifo := recv_fifo c, command_status := fold handle_status [] (command_status c)\<rparr>"
    by simp
  ultimately show ?case using Nil.prems(1) rest grows_refl [OF q(2)]
    by (intro exI [of _ c] exI [of _ h] exI [of _ es] exI [of _ "[]"] exI [of _ "recv_fifo c"]) simp
next
  case (Cons m ms)
  let ?bs = "fifo_contents (recv_fifo c)"
  have q: "fifo_ok (recv_fifo c)" using Cons.prems(1) by (auto simp: client_ok_def)
  have len: "recv_data_fifo_length (recv_fifo c) = int (length ?bs)"
    using q by (simp add: recv_data_fifo_length_def length_fifo_contents fifo_ok_def)
  let ?n = "nat (header ?bs)"
  have full: "4 \<le> length ?bs" "package_ok (header ?bs)" "4 + ?n \<le> length ?bs" "m = take ?n (drop 4 ?bs)"
      "split_frames package_ok (drop (4 + ?n) ?bs) = (ms, rest, False)"
    using split_frames_Cons [OF Cons.prems(3)] by auto
  have top: "recv_data_fifo_top_int (recv_fifo c) = header ?bs"
    using fifo_top_header [OF q] full(1) len by simp
  have lm: "length m = ?n" "m \<noteq> []" "int (length m) = header ?bs" "?n \<le> COMMAND_SIZE"
    using full by (auto simp: package_ok_def const_simps)
  have q1: "fifo_ok (recv_data_fifo_pop (recv_fifo c) 4)" "fifo_contents (recv_data_fifo_pop (recv_fifo c) 4) = drop 4 ?bs"
    using fifo_pop_ok [OF q full(1)] by simp_all
  have le: "?n \<le> length (fifo_contents (recv_data_fifo_pop (recv_fifo c) 4))" using full(3) q1(2) by simp
  have cp: "blit command 0 (take ?n (drop 4 ?bs)) = m @ drop ?n command"
    using full(3) by (simp add: blit_def full(4))
  obtain q2 where q2: "read_command 0 ?n command (recv_data_fifo_pop (recv_fifo c) 4) = Some (m @ drop ?n command, q2)"
      "fifo_ok q2" "fifo_contents q2 = drop (4 + ?n) ?bs"
    using read_command_ok [OF q1(1) le, of 0 command] lm(4) Cons.prems(2)
    by (auto simp: q1(2) cp add.commute)
  let ?c1 = "c\<lparr>recv_fifo := q2\<rparr>"
  have am: "acceptable m" and am': "\<forall>m\<in>set ms. acceptable m" using Cons.prems(4) by simp_all
  have c1: "client_ok h ?c1 p cs es" using Cons.prems(1) q2(2) by (simp add: client_ok_def)
  obtain c2 h2 es2 ds1 where s: "exec_command (m @ drop ?n command) (int (length m)) ?c1 h = Some (c2, h2)"
      "client_ok h2 c2 p cs es2" "grows h h2" "c2 = ?c1\<lparr>command_status := handle_status m (command_status ?c1)\<rparr>"
      "msgs es2 = msgs es @ ds1" "subseq ds1 (received m)" "(\<forall>k. \<not> oom h k) \<longrightarrow> ds1 = received m"
    using exec_command_ok [OF c1 lm(2) am, of "drop ?n command"] by blast
  have sf: "split_frames package_ok (fifo_contents (recv_fifo c2)) = (ms, rest, False)"
    using full(5) q2(3) s(4) by simp
  have "length (m @ drop ?n command) = COMMAND_SIZE" using lm Cons.prems(2) by simp
  from Cons.IH [OF s(2) this sf] am' obtain c' h' es' ds q' where
    r: "parse_loop (m @ drop ?n command) c2 h2 = Some (c', h')" "client_ok h' c' p cs es'" "grows h2 h'"
      "c' = c2\<lparr>recv_fifo := q', command_status := fold handle_status ms (command_status c2)\<rparr>"
      "fifo_contents q' = rest" "msgs es' = msgs es2 @ ds" "subseq ds (concat (map received ms))"
      "(\<forall>k. \<not> oom h2 k) \<longrightarrow> ds = concat (map received ms)" by blast
  have "parse_loop command c h = Some (c', h')"
    using full(1-3) q2(1) s(1) r(1) lm
    by (simp add: parse_loop.simps [of command c h] top len const_simps Let_def package_ok_def)
  moreover have "grows h h'" by (rule grows_trans [OF s(3) r(3)])
  moreover have "c' = c\<lparr>recv_fifo := q', command_status := fold handle_status (m # ms) (command_status c)\<rparr>"
    using r(4) s(4) by simp
  moreover have "msgs es' = msgs es @ (ds1 @ ds)" "subseq (ds1 @ ds) (concat (map received (m # ms)))"
    using r(6,7) s(5,6) by (simp_all add: list_emb_append_mono)
  moreover have "(\<forall>k. \<not> oom h k) \<longrightarrow> ds1 @ ds = concat (map received (m # ms))"
    using r(8) s(3,7) by (simp add: grows_def)
  ultimately show ?case using r(2,5) by blast
qed

section \<open>Packages the parser does not expect\<close>

text \<open>A complete package of more than 2048 bytes is copied behind the array.\<close>

lemma read_command_overrun:
  "i \<le> COMMAND_SIZE \<Longrightarrow> COMMAND_SIZE < i + k \<Longrightarrow> read_command i k command q = None"
  by (induction k arbitrary: i command q) auto

lemma parse_loop_oversized:
  assumes ok: "fifo_ok (recv_fifo c)" and full: "4 + nat (header bs) \<le> length bs" "2048 < header bs"
    and bs: "fifo_contents (recv_fifo c) = bs"
  shows "parse_loop command c h = None"
proof -
  have len: "recv_data_fifo_length (recv_fifo c) = int (length bs)"
    using ok by (simp add: recv_data_fifo_length_def length_fifo_contents fifo_ok_def bs [symmetric])
  have top: "recv_data_fifo_top_int (recv_fifo c) = header bs"
    using fifo_top_header [OF ok] full len bs by simp
  have "read_command 0 (nat (header bs)) command q = None" for q
    using full(2) by (intro read_command_overrun) (auto simp: const_simps)
  moreover have "header bs + 4 \<le> int (length bs)" using full by linarith
  ultimately show ?thesis
    using full(2) by (simp add: parse_loop.simps [of command c h] top len const_simps Let_def)
qed

text \<open>An empty package runs the previous command again, from what the array still holds.\<close>

lemma parse_loop_empty:
  assumes ok: "fifo_ok (recv_fifo c)" and bs: "4 \<le> length (fifo_contents (recv_fifo c))"
    "header (fifo_contents (recv_fifo c)) = 0"
  shows "parse_loop command c h =
     (case exec_command command 0 (c\<lparr>recv_fifo := recv_data_fifo_pop (recv_fifo c) 4\<rparr>) h of
        None \<Rightarrow> None | Some (c', h') \<Rightarrow> parse_loop command c' h')"
proof -
  have len: "recv_data_fifo_length (recv_fifo c) = int (length (fifo_contents (recv_fifo c)))"
    using ok by (simp add: recv_data_fifo_length_def length_fifo_contents fifo_ok_def)
  have top: "recv_data_fifo_top_int (recv_fifo c) = 0"
    using fifo_top_header [OF ok] bs len by simp
  show ?thesis using bs by (simp add: parse_loop.simps [of command c h] top len const_simps)
qed

section \<open>The message list implements the queue contract\<close>

definition enqueue_message :: "addr \<Rightarrow> bytes \<Rightarrow> cheap \<Rightarrow> cheap option" where
  "enqueue_message list m h = recv_data_command list (NET_SEND_DATA # m) (int (length m) + 1) h"

definition dequeue_message :: "addr \<Rightarrow> cheap \<Rightarrow> (bytes \<times> cheap) option" where
  "dequeue_message list h =
     (case recv_data_list_return_data list h of
        None \<Rightarrow> None
      | Some (r, h') \<Rightarrow>
          (case store h' r of
             Some (CRecv n b) \<Rightarrow> (case store h' b of Some (CBytes m) \<Rightarrow> Some (m, h') | _ \<Rightarrow> None)
           | _ \<Rightarrow> None))"

definition messages :: "addr \<Rightarrow> cheap \<Rightarrow> nat \<Rightarrow> bytes list \<Rightarrow> bool" where
  "messages list h n ms \<longleftrightarrow> (\<forall>k. \<not> oom h k) \<and> (\<exists>es. rq h list es \<and> msgs es = ms)"

lemma enqueue_message_ok:
  assumes "messages list h n ms"
  shows "\<exists>h'. enqueue_message list m h = Some h' \<and> messages list h' n' (ms @ [m])"
proof -
  obtain es where es: "rq h list es" "msgs es = ms" and mem: "\<forall>k. \<not> oom h k"
    using assms by (auto simp: messages_def)
  obtain h' es' where h': "recv_data_command list (NET_SEND_DATA # m) (int (length m) + 1) h = Some h'"
      "rq h' list es'" "grows h h'" "\<exists>e. es' = es @ [e] \<and> e_msg e = m"
    using recv_data_command_ok [OF es(1), of "int (length m) + 1" m "NET_SEND_DATA # m"] mem by auto
  have "messages list h' n' (ms @ [m])"
    using h'(2-4) es(2) mem by (auto simp: messages_def msgs_def grows_def)
  then show ?thesis using h'(1) by (simp add: enqueue_message_def)
qed

lemma dequeue_message_ok:
  assumes "messages list h n (m # ms)"
  shows "\<exists>h'. dequeue_message list h = Some (m, h') \<and> messages list h' n ms"
proof -
  obtain e es where es: "rq h list (e # es)" "e_msg e = m" "msgs es = ms" and mem: "\<forall>k. \<not> oom h k"
    using assms by (auto simp: messages_def msgs_def)
  obtain h' where h': "recv_data_list_return_data list h = Some (e_recv e, h')" "rq h' list es"
      "holds_msg h' (e_recv e) (e_block e) (e_msg e)" "oom h' = oom h"
    using recv_data_list_return_data_ok [OF es(1)] by blast
  have "dequeue_message list h = Some (m, h')" using h'(1,3) es(2) by (simp add: dequeue_message_def)
  then show ?thesis using h'(2,4) es(3) mem by (auto simp: messages_def)
qed

interpretation message_list: fifo_queue "messages list" "\<lambda>_. True" "enqueue_message list" "dequeue_message list" for list
  by unfold_locales (use enqueue_message_ok dequeue_message_ok in auto)

end
