(* ===== verification/Client_Api.thy ===== *)
theory Client_Api
  imports Client_List Net_Command Muduo_Endian
begin

text \<open>
  \<^verbatim>\<open>API/C/stupidP2P.c\<close>: the three threads of a client and the functions of the API, on the module
  state. A thread is its loop body: one function for one pass (\<open>recv_step\<close>, \<open>send_step\<close>,
  \<open>check_net_step\<close>), so that the interleaving of the threads is an explicit sequence of steps.
  Sockets, threads and \<^verbatim>\<open>inet_pton\<close> belong to the operating system and are the parameter \<open>os_api\<close>
  on a state \<open>'o\<close>. While \<^verbatim>\<open>waitting_flag_and_return\<close> sleeps, the other threads run: their effect
  during the \<open>i\<close>-th sleep is the parameter \<open>env i\<close>. \<open>None\<close> is undefined behaviour.
\<close>

record 'o os_api =
  os_socket :: "'o \<Rightarrow> int \<times> 'o"
  os_connect :: "int \<Rightarrow> sockaddr_in \<Rightarrow> 'o \<Rightarrow> int \<times> 'o"
  os_close :: "int \<Rightarrow> 'o \<Rightarrow> 'o"
  os_send :: "int \<Rightarrow> bytes \<Rightarrow> 'o \<Rightarrow> int \<times> 'o"
  os_recv :: "int \<Rightarrow> nat \<Rightarrow> 'o \<Rightarrow> int \<times> bytes \<times> int \<times> 'o"
  os_pton :: "bytes \<Rightarrow> 32 word option"
  os_thread :: "'o \<Rightarrow> int \<times> nat \<times> 'o"
  os_cancel :: "nat \<Rightarrow> 'o \<Rightarrow> 'o"
  os_join :: "nat \<Rightarrow> 'o \<Rightarrow> 'o"
  os_signal :: "'o \<Rightarrow> 'o"

text \<open>\<^verbatim>\<open>os_recv fd n\<close>: the result, the bytes stored, and \<^verbatim>\<open>errno\<close> after the call.\<close>

definition EINTR :: int where
  "EINTR = 4"

definition check_module_init :: "'o os_api \<Rightarrow> 'o p2p_module \<Rightarrow> 'o p2p_module" where
  "check_module_init api w =
     (if g_init_signal_flag w = 0 then w\<lparr>os := os_signal api (os w), g_init_signal_flag := 1\<rparr> else w)"

section \<open>Sending a command and waiting for its callback\<close>

text \<open>The loop of \<^verbatim>\<open>waitting_flag_and_return\<close>; the first argument is \<open>300 - repeat\<close>.\<close>

fun wait_loop :: "nat \<Rightarrow> (nat \<Rightarrow> 'o p2p_module \<Rightarrow> 'o p2p_module) \<Rightarrow> addr \<Rightarrow> flag \<Rightarrow> 'o p2p_module \<Rightarrow> 'o p2p_module option" where
  "wait_loop 0 env p f w = (case clients w p of None \<Rightarrow> None | Some c \<Rightarrow> Some w)"
| "wait_loop (Suc n) env p f w =
     (case clients w p of
        None \<Rightarrow> None
      | Some c \<Rightarrow>
          if read_flag f (command_status c) \<noteq> CALL_BACK_NOT_RECEIVE then Some w
          else wait_loop n env p f (env (300 - Suc n) w))"

definition waitting_flag_and_return ::
  "(nat \<Rightarrow> 'o p2p_module \<Rightarrow> 'o p2p_module) \<Rightarrow> addr \<Rightarrow> flag option \<Rightarrow> 'o p2p_module \<Rightarrow> (p2p_error \<times> 'o p2p_module) option" where
  "waitting_flag_and_return env p flag w =
     (case flag of
        None \<Rightarrow> Some (STUPID_P2P_BAD_PARAM, w)
      | Some f \<Rightarrow> do {
          w \<leftarrow> wait_loop 300 env p f w;
          c \<leftarrow> clients w p;
          Some (if read_flag f (command_status c) = CALL_BACK_SUCCESS then STUPID_P2P_NO_ERROR
                else if read_flag f (command_status c) = CALL_BACK_NOT_RECEIVE then STUPID_P2P_NET_ERROR
                else STUPID_P2P_ERROR_COMMOND, w) })"

definition command_flag :: "byte \<Rightarrow> flag option" where
  "command_flag command =
     (if command = NET_REGISTER_DEVICE then Some Register
      else if command = NET_SUBSCRIBE_DEVICE then Some Subscribe
      else if command = NET_SEND_DATA then Some Send_data
      else if command = NET_UNREGISTER_DEVICE then Some Unregister
      else if command = NET_UNSUBSCRIBE_DEVICE then Some Unsubscribe
      else if command = NET_CHECK_DEVICE_ALIVE then Some Check_alive
      else if command = NET_HEART_BEAT then Some Heart_beat
      else None)"

text \<open>
  \<^verbatim>\<open>need_to_send\<close> up to the wait: an error, or the client and the flag to wait for. With
  \<open>length = -1\<close> the block has no room for the command byte, which is undefined; a smaller length
  makes \<^verbatim>\<open>malloc\<close> fail; a length beyond the bytes of \<^verbatim>\<open>data\<close> reads out of bounds.
\<close>

definition post_command ::
  "int \<Rightarrow> byte \<Rightarrow> bytes \<Rightarrow> int \<Rightarrow> 'o p2p_module \<Rightarrow> ((p2p_error + addr \<times> flag) \<times> 'o p2p_module) option" where
  "post_command f command data len w =
     (if len > 256 \<or> f \<le> 0 then Some (Inl STUPID_P2P_BAD_PARAM, w)
      else do {
        p \<leftarrow> find_stupid_p2p f w;
        if p = 0 then Some (Inl STUPID_P2P_ERROR_COMMOND, w)
        else do {
          c \<leftarrow> clients w p;
          if need_to_restart_flag c = 1 then Some (Inl STUPID_P2P_RESTARTING, w)
          else
            let (send_data, h) = alloc (len + 1) (CBytes (replicate (nat (len + 1)) 0)) (heap w) in
            if send_data = 0 then Some (Inl STUPID_P2P_MEMORY_ERROR, w\<lparr>heap := h\<rparr>)
            else do {
              assert_that (0 \<le> len \<and> nat len \<le> length data);
              let h = h\<lparr>store := (store h)(send_data \<mapsto> CBytes (command # take (nat len) data))\<rparr>;
              (case command_flag command of
                 None \<Rightarrow> do {
                   h \<leftarrow> free send_data h;
                   Some (Inl STUPID_P2P_BAD_PARAM, w\<lparr>heap := h\<rparr>) }
               | Some flag \<Rightarrow> do {
                   let c = c\<lparr>command_status := write_flag flag CALL_BACK_NOT_RECEIVE (command_status c)\<rparr>;
                   (fifo, h) \<leftarrow> send_command_fifo_push (send_fifo c) send_data (len + 1) h;
                   Some (Inr (p, flag), (set_client p (c\<lparr>send_fifo := fifo\<rparr>) w)\<lparr>heap := h\<rparr>) }) } } })"

definition need_to_send ::
  "(nat \<Rightarrow> 'o p2p_module \<Rightarrow> 'o p2p_module) \<Rightarrow> int \<Rightarrow> byte \<Rightarrow> bytes \<Rightarrow> int \<Rightarrow> 'o p2p_module \<Rightarrow> (p2p_error \<times> 'o p2p_module) option" where
  "need_to_send env f command data len w = do {
     (r, w) \<leftarrow> post_command f command data len w;
     (case r of
        Inl e \<Rightarrow> Some (e, w)
      | Inr (p, flag) \<Rightarrow> waitting_flag_and_return env p (Some flag) w) }"

section \<open>The threads\<close>

text \<open>One pass of \<^verbatim>\<open>_stupid_p2p_recv_func\<close>; \<open>buf\<close> is its 4096 byte array.\<close>

definition recv_step :: "'o os_api \<Rightarrow> addr \<Rightarrow> bytes \<Rightarrow> 'o p2p_module \<Rightarrow> (bytes \<times> 'o p2p_module) option" where
  "recv_step api p buf w = do {
     c \<leftarrow> clients w p;
     if need_to_restart_flag c \<noteq> 0 then Some (buf, w)
     else
       let (ret, bs, errno, o') = os_recv api (socket_fd c) (length buf) (os w);
           buf = blit buf 0 bs;
           w = w\<lparr>os := o'\<rparr> in
       if ret \<le> 0 \<and> errno \<noteq> EINTR then Some (buf, set_client p (c\<lparr>need_to_restart_flag := 1\<rparr>) w)
       else do {
         w \<leftarrow> (if ret + recv_data_fifo_length (recv_fifo c) > int NET_READ_DATA_LENGTH then Some w
               else do {
                 fifo \<leftarrow> recv_data_fifo_push (recv_fifo c) buf ret;
                 Some (set_client p (c\<lparr>recv_fifo := fifo\<rparr>) w) });
         w \<leftarrow> parse_recv_net_command p w;
         Some (buf, w) } }"

definition prepend_length_to_buf_s :: "bytes \<Rightarrow> int \<Rightarrow> bytes \<Rightarrow> int \<Rightarrow> bytes option" where
  "prepend_length_to_buf_s dst dst_length src src_length = do {
     let n = (if src_length > dst_length - 4 then dst_length - 4 else src_length);
     assert_that (0 \<le> n \<and> nat n \<le> length src \<and> 4 + nat n \<le> length dst);
     let head = map (\<lambda>i. ucast (drop_bit (8 * (3 - i)) (word_of_int n :: 32 word))) [0..<4];
     Some (blit (blit dst 0 head) 4 (take (nat n) src)) }"

text \<open>
  One pass of the inner loop of \<^verbatim>\<open>_stupid_p2p_send_func\<close>; \<open>buf\<close> is its 2048 byte array. The
  \<^verbatim>\<open>send\<close> reads \<^verbatim>\<open>command->size + 4\<close> bytes of it.
\<close>

definition send_step :: "'o os_api \<Rightarrow> addr \<Rightarrow> bytes \<Rightarrow> 'o p2p_module \<Rightarrow> (bytes \<times> 'o p2p_module) option" where
  "send_step api p buf w = do {
     c \<leftarrow> clients w p;
     if send_command_fifo_empty (send_fifo c) then Some (buf, w)
     else if need_to_restart_flag c \<noteq> 0 then Some (buf, w)
     else do {
       let command = send_command_fifo_top (send_fifo c);
       src \<leftarrow> (case store (heap w) (cmd_data command) of Some (CBytes bs) \<Rightarrow> Some bs | _ \<Rightarrow> None);
       buf \<leftarrow> prepend_length_to_buf_s buf (int (length buf)) src (cmd_size command);
       assert_that (0 \<le> cmd_size command + 4 \<and> nat (cmd_size command + 4) \<le> length buf);
       let (ret, o') = os_send api (socket_fd c) (take (nat (cmd_size command + 4)) buf) (os w);
       (fifo, h) \<leftarrow> send_command_fifo_pop (send_fifo c) (heap w);
       Some (buf, (set_client p (c\<lparr>send_fifo := fifo\<rparr>) w)\<lparr>heap := h, os := o'\<rparr>) } }"

definition start_connection :: "'o os_api \<Rightarrow> addr \<Rightarrow> 'o p2p_module \<Rightarrow> (p2p_error \<times> 'o p2p_module) option" where
  "start_connection api p w = do {
     c \<leftarrow> clients w p;
     let (s, o1) = os_socket api (os w);
     let c = c\<lparr>socket_fd := s\<rparr>;
     let w = (set_client p c w)\<lparr>os := o1\<rparr>;
     if s < 0 then Some (STUPID_P2P_ERROR_COMMOND, w)
     else
       let (r, o2) = os_connect api s (server_addr c) (os w) in
       if r \<noteq> 0 then Some (STUPID_P2P_ERROR_COMMOND, w\<lparr>os := os_close api s o2\<rparr>)
       else Some (STUPID_P2P_NO_ERROR, w\<lparr>os := o2\<rparr>) }"

text \<open>
  One pass of \<^verbatim>\<open>_stupid_p2p_check_net_func\<close>. The condition \<^verbatim>\<open>ret = STUPID_P2P_NET_ERROR\<close> of the
  second branch is an assignment and always true: every error counts as a missed heart beat.
\<close>

definition heart_beat_max :: nat where
  "heart_beat_max = 3"

definition count_heart_beat :: "p2p_error \<Rightarrow> stupid_p2p_t \<Rightarrow> stupid_p2p_t" where
  "count_heart_beat ret c =
     (let num = heart_beat_not_receive_num (command_status c);
          c = c\<lparr>command_status := (command_status c)
                  \<lparr>heart_beat_not_receive_num := (if ret = STUPID_P2P_NO_ERROR then 0 else num + 1)\<rparr>\<rparr> in
      if unat (heart_beat_not_receive_num (command_status c)) \<ge> heart_beat_max
      then c\<lparr>need_to_restart_flag := 1\<rparr> else c)"

text \<open>The part of a pass that restarts the connection; the result tells whether the pass goes on.\<close>

definition check_restart :: "'o os_api \<Rightarrow> addr \<Rightarrow> 'o p2p_module \<Rightarrow> (bool \<times> 'o p2p_module) option" where
  "check_restart api p w = do {
     c \<leftarrow> clients w p;
     if need_to_restart_flag c \<noteq> 0 then do {
       let w = w\<lparr>os := os_close api (socket_fd c) (os w)\<rparr>;
       (ret, w) \<leftarrow> start_connection api p w;
       if ret \<noteq> STUPID_P2P_NO_ERROR then Some (False, w)
       else do {
         c \<leftarrow> clients w p;
         Some (True, set_client p (c\<lparr>need_to_restart_flag := 0,
             command_status := (command_status c)\<lparr>heart_beat_not_receive_num := 0\<rparr>\<rparr>) w) } }
     else Some (True, w) }"

definition check_net_step ::
  "'o os_api \<Rightarrow> (nat \<Rightarrow> 'o p2p_module \<Rightarrow> 'o p2p_module) \<Rightarrow> addr \<Rightarrow> 'o p2p_module \<Rightarrow> 'o p2p_module option" where
  "check_net_step api env p w = do {
     (going, w) \<leftarrow> check_restart api p w;
     if \<not> going then Some w
     else do {
       c \<leftarrow> clients w p;
       (ret, w) \<leftarrow> need_to_send env (fd c) NET_HEART_BEAT [] 0 w;
       c \<leftarrow> clients w p;
       Some (set_client p (count_heart_beat ret c) w) } }"

section \<open>Creating and destroying a client\<close>

text \<open>A structure from \<^verbatim>\<open>calloc\<close>; \<open>list\<close> is the address of its embedded list head.\<close>

definition client_zero :: "addr \<Rightarrow> stupid_p2p_t" where
  "client_zero list =
     \<lparr>fd = 0, socket_fd = 0, server_addr = \<lparr>sin_family = 0, sin_port = 0, sin_addr = 0\<rparr>,
      recv_fifo = \<lparr>fifo_data = replicate NET_READ_DATA_LENGTH 0, fifo_r = 0, fifo_w = 0, fifo_length = 0\<rparr>,
      send_fifo = \<lparr>cmds = replicate NET_SEND_COMMAND_NUM \<lparr>cmd_data = 0, cmd_size = 0\<rparr>, cmd_r = 0, cmd_w = 0, cmd_num = 0\<rparr>,
      recv_data_list = list, receive_id = 0, send_id = 0, check_net_id = 0, need_to_restart_flag = 0,
      command_status = \<lparr>register_flag = 0, subscribe_flag = 0, send_data_flag = 0, unregister_flag = 0,
        unsubscribe_flag = 0, check_alive_flag = 0, heart_beat_flag = 0, heart_beat_not_receive_num = 0\<rparr>,
      next_client = 0\<rparr>"

lemma client_zero_simps [simp]:
  "recv_data_list (client_zero l) = l" "next_client (client_zero l) = 0" "need_to_restart_flag (client_zero l) = 0"
  by (simp_all add: client_zero_def)

text \<open>
  The block of a client takes two addresses: the structure and, behind it, the list head inside
  it. The structure itself is kept in \<open>clients\<close>.
\<close>

definition alloc_client :: "'o p2p_module \<Rightarrow> addr \<times> 'o p2p_module" where
  "alloc_client w =
     (let h = heap w; p = fresh h in
      if oom h p then (0, w\<lparr>heap := h\<lparr>fresh := p + 2\<rparr>\<rparr>)
      else (p, (set_client p (client_zero (p + 1)) w)\<lparr>heap := h\<lparr>fresh := p + 2\<rparr>\<rparr>))"

definition AF_INET :: int where
  "AF_INET = 2"

definition htons :: "int \<Rightarrow> 16 word" where
  "htons port = bswap 2 (word_of_int port)"

text \<open>The part of \<^verbatim>\<open>stupid_p2p_init\<close> that creates the three threads; an error undoes the earlier ones.\<close>

definition start_threads :: "'o os_api \<Rightarrow> addr \<Rightarrow> 'o p2p_module \<Rightarrow> (p2p_error \<times> 'o p2p_module) option" where
  "start_threads api p w = do {
     c \<leftarrow> clients w p;
     let (r1, t1, o1) = os_thread api (os w);
     let c = c\<lparr>receive_id := t1\<rparr>;
     if r1 \<noteq> 0 then
       Some (STUPID_P2P_ERROR_COMMOND, (set_client p c w)\<lparr>os := os_close api (socket_fd c) o1\<rparr>)
     else
       let (r2, t2, o2) = os_thread api o1; c = c\<lparr>send_id := t2\<rparr> in
       if r2 \<noteq> 0 then
         Some (STUPID_P2P_ERROR_COMMOND, (set_client p c w)
           \<lparr>os := os_close api (socket_fd c) (os_join api t1 (os_cancel api t1 o2))\<rparr>)
       else
         let (r3, t3, o3) = os_thread api o2; c = c\<lparr>check_net_id := t3\<rparr> in
         if r3 \<noteq> 0 then
           Some (STUPID_P2P_ERROR_COMMOND, (set_client p c w)
             \<lparr>os := os_close api (socket_fd c)
                (os_join api t2 (os_cancel api t2 (os_join api t1 (os_cancel api t1 o3))))\<rparr>)
         else Some (STUPID_P2P_NO_ERROR, (set_client p c w)\<lparr>os := o3\<rparr>) }"

text \<open>The second half of \<^verbatim>\<open>stupid_p2p_init\<close>: connect, start the threads, enter the client into the list.\<close>

definition connect_client :: "'o os_api \<Rightarrow> addr \<Rightarrow> 'o p2p_module \<Rightarrow> (int \<times> 'o p2p_module) option" where
  "connect_client api p w = do {
     (ret, w) \<leftarrow> start_connection api p w;
     if ret \<noteq> STUPID_P2P_NO_ERROR then Some (int32_of_error ret, w)
     else do {
       (ret, w) \<leftarrow> start_threads api p w;
       if ret \<noteq> STUPID_P2P_NO_ERROR then Some (int32_of_error ret, w)
       else do {
         (f, w) \<leftarrow> add_stupid_p2p_to_list p w;
         c \<leftarrow> clients w p;
         Some (f, set_client p (c\<lparr>fd := f\<rparr>) w) } } }"

definition stupid_p2p_init :: "'o os_api \<Rightarrow> bytes \<Rightarrow> int \<Rightarrow> 'o p2p_module \<Rightarrow> (int \<times> 'o p2p_module) option" where
  "stupid_p2p_init api server_ip server_port w = do {
     let w = check_module_init api w;
     let (p, w) = alloc_client w;
     if p = 0 then Some (int32_of_error STUPID_P2P_MEMORY_ERROR, w)
     else do {
       c \<leftarrow> clients w p;
       let c = c\<lparr>server_addr := (server_addr c)\<lparr>sin_family := AF_INET, sin_port := htons server_port\<rparr>\<rparr>;
       (case os_pton api server_ip of
          None \<Rightarrow> Some (int32_of_error STUPID_P2P_BAD_PARAM, set_client p c w)
        | Some a \<Rightarrow> do {
            let c = c\<lparr>server_addr := (server_addr c)\<lparr>sin_addr := a\<rparr>,
                      recv_fifo := recv_data_fifo_init (recv_fifo c)\<rparr>;
            let (_, h) = recv_data_list_init (recv_data_list c) (heap w);
            let c = c\<lparr>send_fifo := snd (send_command_fifo_init (send_fifo c))\<rparr>;
            connect_client api p ((set_client p c w)\<lparr>heap := h\<rparr>) }) } }"

definition stupid_p2p_deinit :: "'o os_api \<Rightarrow> int \<Rightarrow> 'o p2p_module \<Rightarrow> 'o p2p_module option" where
  "stupid_p2p_deinit api f w = do {
     p \<leftarrow> find_stupid_p2p f w;
     if p = 0 then Some w
     else do {
       c \<leftarrow> clients w p;
       let o1 = os_cancel api (check_net_id c) (os_cancel api (send_id c) (os_cancel api (receive_id c) (os w)));
       let o2 = os_join api (check_net_id c) (os_join api (send_id c) (os_join api (receive_id c) o1));
       h \<leftarrow> recv_data_list_deinit (recv_data_list c) (heap w);
       (fifo, h) \<leftarrow> send_command_fifo_deinit (send_fifo c) h;
       remove_stupid_p2p (fd c)
         ((set_client p (c\<lparr>send_fifo := fifo\<rparr>) w)\<lparr>heap := h, os := os_close api (socket_fd c) o2\<rparr>) } }"

section \<open>The commands of the API\<close>

definition strnlen :: "bytes \<Rightarrow> nat \<Rightarrow> nat option" where
  "strnlen s n =
     (let k = length (takeWhile (\<lambda>b. b \<noteq> 0) (take n s)) in
      if k < length s \<or> k = n then Some k else None)"

definition with_device_id ::
  "(nat \<Rightarrow> 'o p2p_module \<Rightarrow> 'o p2p_module) \<Rightarrow> int \<Rightarrow> byte \<Rightarrow> bytes \<Rightarrow> 'o p2p_module \<Rightarrow> (p2p_error \<times> 'o p2p_module) option" where
  "with_device_id env f command device_id w = do {
     n \<leftarrow> strnlen device_id 256;
     need_to_send env f command device_id (int n) w }"

definition stupid_p2p_register_device ::
  "(nat \<Rightarrow> 'o p2p_module \<Rightarrow> 'o p2p_module) \<Rightarrow> int \<Rightarrow> bytes \<Rightarrow> 'o p2p_module \<Rightarrow> (p2p_error \<times> 'o p2p_module) option" where
  "stupid_p2p_register_device env f device_id = with_device_id env f NET_REGISTER_DEVICE device_id"

definition stupid_p2p_subscribe_device ::
  "(nat \<Rightarrow> 'o p2p_module \<Rightarrow> 'o p2p_module) \<Rightarrow> int \<Rightarrow> bytes \<Rightarrow> 'o p2p_module \<Rightarrow> (p2p_error \<times> 'o p2p_module) option" where
  "stupid_p2p_subscribe_device env f device_id = with_device_id env f NET_SUBSCRIBE_DEVICE device_id"

definition stupid_p2p_send_data ::
  "(nat \<Rightarrow> 'o p2p_module \<Rightarrow> 'o p2p_module) \<Rightarrow> int \<Rightarrow> bytes \<Rightarrow> int \<Rightarrow> 'o p2p_module \<Rightarrow> (p2p_error \<times> 'o p2p_module) option" where
  "stupid_p2p_send_data env f buf len = need_to_send env f NET_SEND_DATA buf len"

definition stupid_p2p_unregister_device ::
  "(nat \<Rightarrow> 'o p2p_module \<Rightarrow> 'o p2p_module) \<Rightarrow> int \<Rightarrow> 'o p2p_module \<Rightarrow> (p2p_error \<times> 'o p2p_module) option" where
  "stupid_p2p_unregister_device env f = need_to_send env f NET_UNREGISTER_DEVICE [] 0"

definition stupid_p2p_unsubscribe_device ::
  "(nat \<Rightarrow> 'o p2p_module \<Rightarrow> 'o p2p_module) \<Rightarrow> int \<Rightarrow> bytes \<Rightarrow> 'o p2p_module \<Rightarrow> (p2p_error \<times> 'o p2p_module) option" where
  "stupid_p2p_unsubscribe_device env f device_id = with_device_id env f NET_UNSUBSCRIBE_DEVICE device_id"

definition stupid_p2p_check_device_alive ::
  "(nat \<Rightarrow> 'o p2p_module \<Rightarrow> 'o p2p_module) \<Rightarrow> int \<Rightarrow> bytes \<Rightarrow> 'o p2p_module \<Rightarrow> (p2p_error \<times> 'o p2p_module) option" where
  "stupid_p2p_check_device_alive env f device_id = with_device_id env f NET_CHECK_DEVICE_ALIVE device_id"

definition stupid_p2p_heart_beat ::
  "(nat \<Rightarrow> 'o p2p_module \<Rightarrow> 'o p2p_module) \<Rightarrow> int \<Rightarrow> 'o p2p_module \<Rightarrow> (p2p_error \<times> 'o p2p_module) option" where
  "stupid_p2p_heart_beat env f = need_to_send env f NET_HEART_BEAT [] 0"

section \<open>Fetching received messages\<close>

definition max_num :: nat where
  "max_num = 1024"

text \<open>
  The loop of \<^verbatim>\<open>stupid_p2p_recv_data\<close>; \<open>buf\<close> are the pointers stored so far in \<^verbatim>\<open>data_buf[1024]\<close>. The
  bound is tested with \<^verbatim>\<open>>\<close>, so a 1025th message is written behind the array.
\<close>

function collect_data :: "addr \<Rightarrow> addr list \<Rightarrow> cheap \<Rightarrow> (addr list \<times> cheap) option" where
  "collect_data list buf h =
     (case recv_data_list_return_data list h of
        None \<Rightarrow> None
      | Some (recv_data, h') \<Rightarrow>
          if length buf > max_num \<or> recv_data = 0 then Some (buf, h')
          else if length buf \<ge> 1024 then None
          else collect_data list (buf @ [recv_data]) h')"
  by pat_completeness auto
termination
  by (relation "measure (\<lambda>(list, buf, h). 1024 - length buf)") auto

declare collect_data.simps [simp del]

fun free_all :: "addr list \<Rightarrow> cheap \<Rightarrow> cheap option" where
  "free_all [] h = Some h"
| "free_all (p # ps) h = (case free p h of None \<Rightarrow> None | Some h' \<Rightarrow> free_all ps h')"

definition stupid_p2p_recv_data :: "int \<Rightarrow> 'o p2p_module \<Rightarrow> (addr \<times> 'o p2p_module) option" where
  "stupid_p2p_recv_data f w = do {
     p \<leftarrow> find_stupid_p2p f w;
     if p = 0 then Some (0, w)
     else do {
       c \<leftarrow> clients w p;
       let (recv_data_buf, h) = alloc 16 (CRecvBuf 0 0) (heap w);
       if recv_data_buf = 0 then Some (0, w\<lparr>heap := h\<rparr>)
       else do {
         (buf, h) \<leftarrow> collect_data (recv_data_list c) [] h;
         let (arr, h) = alloc (8 * int (length buf)) (CPtrs buf) h;
         if arr = 0 then do {
           h \<leftarrow> free recv_data_buf h;
           h \<leftarrow> free_all buf h;
           Some (0, w\<lparr>heap := h\<rparr>) }
         else
           let h = h\<lparr>store := (store h)(recv_data_buf \<mapsto> CRecvBuf (int (length buf)) arr)\<rparr> in
           Some (recv_data_buf, w\<lparr>heap := h\<rparr>) } } }"

fun free_messages :: "addr list \<Rightarrow> cheap \<Rightarrow> cheap option" where
  "free_messages [] h = Some h"
| "free_messages (r # rs) h =
     (case store h r of
        Some (CRecv len data) \<Rightarrow>
          (case free data h of
             None \<Rightarrow> None
           | Some h1 \<Rightarrow> (case free r h1 of None \<Rightarrow> None | Some h2 \<Rightarrow> free_messages rs h2))
      | _ \<Rightarrow> None)"

definition stupid_p2p_free_recv_data_buf :: "addr \<Rightarrow> cheap \<Rightarrow> cheap option" where
  "stupid_p2p_free_recv_data_buf recv_data_buf h =
     (if recv_data_buf = 0 then Some h
      else (case store h recv_data_buf of
              Some (CRecvBuf num arr) \<Rightarrow>
                (case store h arr of
                   Some (CPtrs ps) \<Rightarrow> do {
                     assert_that (num \<le> int (length ps));
                     h \<leftarrow> free_messages (take (nat num) ps) h;
                     free recv_data_buf h }
                 | _ \<Rightarrow> None)
            | _ \<Rightarrow> None))"

end
