(* ===== verification/Client_Proofs.thy ===== *)
theory Client_Proofs
  imports Client_Api
begin

text \<open>
  The API functions and thread bodies of the C client at work on a healthy client: posting a
  command enters exactly one block into the send ring, the send thread turns it into one frame
  on the socket, the receive thread hands complete packages to the parser and never overruns
  its ring, waiting ends after at most 300 polls, and fetching returns all messages in order.
\<close>

section \<open>Waiting\<close>

definition flag_at :: "'o p2p_module \<Rightarrow> addr \<Rightarrow> flag \<Rightarrow> byte" where
  "flag_at w p f = (case clients w p of Some c \<Rightarrow> read_flag f (command_status c) | None \<Rightarrow> 0)"

definition verdict :: "byte \<Rightarrow> p2p_error" where
  "verdict v = (if v = 1 then STUPID_P2P_NO_ERROR else if v = 0xff then STUPID_P2P_NET_ERROR else STUPID_P2P_ERROR_COMMOND)"

lemma wait_loop_spec:
  assumes "\<And>j. j \<le> 300 \<Longrightarrow> clients (run_env env j w) p \<noteq> None" "i + n = 300"
  shows "\<exists>k. i \<le> k \<and> k \<le> 300 \<and> wait_loop n env p f (run_env env i w) = Some (run_env env k w) \<and>
     (\<forall>j. i \<le> j \<and> j < k \<longrightarrow> flag_at (run_env env j w) p f = 0xff) \<and>
     (k < 300 \<longrightarrow> flag_at (run_env env k w) p f \<noteq> 0xff)"
  using assms(2)
proof (induction n arbitrary: i)
  case 0
  then show ?case using assms(1) [of 300] by (intro exI [of _ 300]) auto
next
  case (Suc n)
  obtain c where c: "clients (run_env env i w) p = Some c" using assms(1) [of i] Suc.prems by auto
  have fl: "flag_at (run_env env i w) p f = read_flag f (command_status c)" using c by (simp add: flag_at_def)
  have i: "300 - Suc n = i" using Suc.prems by simp
  show ?case
  proof (cases "read_flag f (command_status c) = 0xff")
    case False
    then show ?thesis using c Suc.prems fl by (intro exI [of _ i]) (auto simp: const_simps)
  next
    case True
    obtain k where k: "Suc i \<le> k" "k \<le> 300" "wait_loop n env p f (run_env env (Suc i) w) = Some (run_env env k w)"
        "\<forall>j. Suc i \<le> j \<and> j < k \<longrightarrow> flag_at (run_env env j w) p f = 0xff"
        "k < 300 \<longrightarrow> flag_at (run_env env k w) p f \<noteq> 0xff"
      using Suc.IH [of "Suc i"] Suc.prems by auto
    have "wait_loop (Suc n) env p f (run_env env i w) = Some (run_env env k w)"
      using c True k(3) i by (simp add: const_simps)
    moreover have "flag_at (run_env env j w) p f = 0xff" if "i \<le> j \<and> j < k" for j
      using that k(4) fl True by (cases "j = i") auto
    ultimately show ?thesis using k by (intro exI [of _ k]) auto
  qed
qed

lemma waitting_spec:
  assumes "\<And>j. j \<le> 300 \<Longrightarrow> clients (run_env env j w) p \<noteq> None"
  shows "\<exists>k. k \<le> 300 \<and>
     waitting_flag_and_return env p (Some f) w = Some (verdict (flag_at (run_env env k w) p f), run_env env k w) \<and>
     (\<forall>j < k. flag_at (run_env env j w) p f = 0xff) \<and> (k < 300 \<longrightarrow> flag_at (run_env env k w) p f \<noteq> 0xff)"
proof -
  obtain k where k: "k \<le> 300" "wait_loop 300 env p f w = Some (run_env env k w)"
      "\<forall>j < k. flag_at (run_env env j w) p f = 0xff" "k < 300 \<longrightarrow> flag_at (run_env env k w) p f \<noteq> 0xff"
    using wait_loop_spec [OF assms, of 0 300 f] by auto
  obtain c where "clients (run_env env k w) p = Some c" using assms [OF k(1)] by auto
  then have "waitting_flag_and_return env p (Some f) w = Some (verdict (flag_at (run_env env k w) p f), run_env env k w)"
    using k(2) by (simp add: waitting_flag_and_return_def verdict_def flag_at_def const_simps)
  then show ?thesis using k by blast
qed

section \<open>Posting a command\<close>

lemma sq_addr: "sq h f p es \<Longrightarrow> a \<in> fst ` set es \<Longrightarrow> a < fresh h \<and> \<not> is_node h a"
proof -
  assume sq: "sq h f p es" and "a \<in> fst ` set es"
  then obtain i where i: "i < length es" "a = fst (es ! i)" by (auto simp: in_set_conv_nth)
  then have "store h a = Some (CBytes (snd (es ! i)))" using sqD(9) [OF sq] by simp
  then show "a < fresh h \<and> \<not> is_node h a" using sqD(1) [OF sq] by (auto simp: cheap_ok_def is_node_def)
qed

lemma post_command_ok:
  assumes find: "find_stupid_p2p f w = Some p" "p \<noteq> 0" "0 < f" and c: "clients w p = Some c"
    and run: "need_to_restart_flag c \<noteq> 1" and ok: "client_ok (heap w) c k cs es"
    and room: "k + length cs < NET_SEND_COMMAND_NUM" and mem: "\<not> oom (heap w) (fresh (heap w))"
    and len: "len \<le> 256" "len \<le> length data" and fl: "command_flag command = Some flag"
  shows "\<exists>w' c' a. post_command f command data (int len) w = Some (Inr (p, flag), w') \<and>
     w' = (set_client p c' w)\<lparr>heap := heap w'\<rparr> \<and> grows (heap w) (heap w') \<and>
     client_ok (heap w') c' k (cs @ [(a, command # take len data)]) es \<and>
     (\<exists>q. c' = c\<lparr>command_status := write_flag flag 0xff (command_status c), send_fifo := q\<rparr>)"
proof -
  let ?h = "heap w" and ?m = "command # take len data"
  let ?d = "fresh ?h"
  let ?h1 = "?h\<lparr>store := (store ?h)(?d \<mapsto> CBytes ?m), fresh := ?d + 1\<rparr>"
  have sq: "sq ?h (send_fifo c) k cs" and rq: "rq ?h (recv_data_list c) es" and hok: "cheap_ok ?h"
    using ok by (auto simp: client_ok_def rq_def)
  have h1: "cheap_ok ?h1" and d: "?d \<noteq> 0" using hok by (auto simp: cheap_ok_def less_Suc_eq)
  have g: "grows ?h ?h1" using h1 by (auto simp: grows_def is_node_def)
  have "?d \<notin> fst ` set cs" using sq_addr [OF sq] by blast
  then obtain q where q: "send_command_fifo_push (send_fifo c) ?d (int (length ?m)) ?h1 = Some (q, ?h1)"
      "sq ?h1 q k (cs @ [(?d, ?m)])"
    using send_fifo_push_ok [OF grows_sq [OF g sq] room, of ?d ?m] by auto
  have lm: "int (length ?m) = int len + 1" using len by simp
  let ?c = "c\<lparr>command_status := write_flag flag 0xff (command_status c), send_fifo := q\<rparr>"
  have "rq ?h1 (recv_data_list c) es" by (rule rq_cong [OF rq h1]) auto
  moreover have "?d \<notin> set (concat (map e_addrs es))" using rq_addr [OF rq] by fastforce
  ultimately have "client_ok ?h1 ?c k (cs @ [(?d, ?m)]) es" using ok q(2) by (auto simp: client_ok_def)
  moreover have "post_command f command data (int len) w = Some (Inr (p, flag), (set_client p ?c w)\<lparr>heap := ?h1\<rparr>)"
    using find c run len mem fl q(1) d unfolding lm
    by (simp add: post_command_def alloc_def Let_def const_simps)
  ultimately show ?thesis using g
    by (intro exI [of _ "(set_client p ?c w)\<lparr>heap := ?h1\<rparr>"] exI [of _ ?c] exI [of _ ?d]) auto
qed

section \<open>The send thread\<close>

lemma rq_free_bytes:
  assumes rq: "rq h list es" and a: "store h a = Some (CBytes m)" "a \<notin> set (concat (map e_addrs es))"
  shows "rq (h\<lparr>store := (store h)(a := None)\<rparr>) list es"
proof -
  let ?h = "h\<lparr>store := (store h)(a := None)\<rparr>"
  have "links ?h list (map e_node es) list = links h list (map e_node es) list"
    by (rule links_cong) (use a(1) in \<open>auto simp: node_next_def node_prev_def\<close>)
  moreover have "entry_ok ?h e = entry_ok h e" if "e \<in> set es" for e
    by (rule entry_ok_cong) (use a(2) that in auto)
  moreover have "cheap_ok ?h" using rq by (auto simp: rq_def cheap_ok_def)
  ultimately show ?thesis using rq by (simp add: rq_def)
qed

lemma prepend_length_ok:
  assumes "length src + 4 \<le> length dst" "length dst < 2 ^ 31"
  shows "\<exists>dst'. prepend_length_to_buf_s dst (int (length dst)) src (int (length src)) = Some dst' \<and>
     length dst' = length dst \<and> take (length src + 4) dst' = frame src"
proof -
  let ?w = "word_of_nat (length src) :: 32 word"
  have head: "map (\<lambda>i. ucast (drop_bit (8 * (3 - i)) ?w)) [0..<4] = be_bytes 4 ?w"
    by (simp add: be_bytes_4 upt_rec)
  have n: "\<not> int (length src) > int (length dst) - 4" using assms by linarith
  let ?dst = "blit (blit dst 0 (be_bytes 4 ?w)) 4 src"
  have "prepend_length_to_buf_s dst (int (length dst)) src (int (length src)) = Some ?dst"
    using n assms head by (simp add: prepend_length_to_buf_s_def Let_def)
  moreover have "length ?dst = length dst" using assms by (simp add: blit_def)
  moreover have "take (length src + 4) ?dst = frame src" using assms by (simp add: blit_def frame_def)
  ultimately show ?thesis by blast
qed

lemma send_step_ok:
  assumes c: "clients w p = Some c" and ok: "client_ok (heap w) c k ((a, m) # cs) es"
    and run: "need_to_restart_flag c = 0" and m: "length m + 4 \<le> length buf" "length buf < 2 ^ 31"
  shows "\<exists>buf' w' c'. send_step api p buf w = Some (buf', w') \<and> length buf' = length buf \<and>
     w' = (set_client p c' w)\<lparr>heap := (heap w)\<lparr>store := (store (heap w))(a := None)\<rparr>,
            os := snd (os_send api (socket_fd c) (frame m) (os w))\<rparr> \<and>
     client_ok (heap w') c' (Suc k) cs es \<and> (\<exists>q. c' = c\<lparr>send_fifo := q\<rparr>)"
proof -
  let ?h = "heap w"
  have sq: "sq ?h (send_fifo c) k ((a, m) # cs)" and rq: "rq ?h (recv_data_list c) es"
    and dis: "fst ` set ((a, m) # cs) \<inter> set (concat (map e_addrs es)) = {}"
    using ok by (auto simp: client_ok_def)
  have top: "send_command_fifo_top (send_fifo c) = \<lparr>cmd_data = a, cmd_size = int (length m)\<rparr>" "store ?h a = Some (CBytes m)"
    using send_fifo_top [OF sq] by auto
  let ?h1 = "?h\<lparr>store := (store ?h)(a := None)\<rparr>"
  obtain q where q: "send_command_fifo_pop (send_fifo c) ?h = Some (q, ?h1)" "sq ?h1 q (Suc k) cs"
    using send_fifo_pop_ok [OF sq] by blast
  obtain buf' where b: "prepend_length_to_buf_s buf (int (length buf)) m (int (length m)) = Some buf'"
      "length buf' = length buf" "take (length m + 4) buf' = frame m"
    using prepend_length_ok [OF m] by blast
  have ne: "\<not> send_command_fifo_empty (send_fifo c)"
    using sqD(4) [OF sq] by (simp add: send_command_fifo_empty_def)
  have n: "nat (int (length m) + 4) = length m + 4" by simp
  have "a \<notin> set (concat (map e_addrs es))" using dis by simp
  then have "rq ?h1 (recv_data_list c) es" by (rule rq_free_bytes [OF rq top(2)])
  then have "client_ok ?h1 (c\<lparr>send_fifo := q\<rparr>) (Suc k) cs es" using ok q(2) by (auto simp: client_ok_def)
  moreover have "send_step api p buf w = Some (buf', (set_client p (c\<lparr>send_fifo := q\<rparr>) w)\<lparr>heap := ?h1,
      os := snd (os_send api (socket_fd c) (frame m) (os w))\<rparr>)"
    using c ne run top b q(1) m(1)
    by (simp add: send_step_def n split: prod.split)
  ultimately show ?thesis using b(2) by fastforce
qed

section \<open>The receive thread\<close>

text \<open>What is documented of \<^verbatim>\<open>recv\<close>: at most as many bytes as asked for, none on error or at the end.\<close>

definition recv_law :: "'o os_api \<Rightarrow> bool" where
  "recv_law api \<longleftrightarrow> (\<forall>s n o1 ret bs e o2. os_recv api s n o1 = (ret, bs, e, o2) \<longrightarrow> ret \<le> int n \<and> length bs = nat ret)"

lemma fifo_push_prefix:
  "recv_data_fifo_push q (bs @ xs) (int (length bs)) = recv_data_fifo_push q bs (int (length bs))"
  by (simp add: recv_data_fifo_push_def)

lemma incomplete_package_short:
  "split_frames package_ok bs = ([], bs, False) \<Longrightarrow> length bs \<le> 2051"
  using split_frames_Nil [of package_ok bs bs] by (auto simp: package_ok_def)

lemma recv_step_ok:
  assumes c: "clients w p = Some c" "p \<noteq> 0" and ok: "client_ok (heap w) c k cs es"
    and run: "need_to_restart_flag c = 0" and buf: "length buf = 4096"
    and recv: "recv_law api" "os_recv api (socket_fd c) 4096 (os w) = (ret, bs, e, o2)" "0 < ret"
    and idle: "split_frames package_ok (fifo_contents (recv_fifo c)) = ([], fifo_contents (recv_fifo c), False)"
    and stream: "split_frames package_ok (fifo_contents (recv_fifo c) @ bs) = (ms, rest, False)" "\<forall>m\<in>set ms. acceptable m"
  shows "\<exists>w' c' es' ds q. recv_step api p buf w = Some (blit buf 0 bs, w') \<and>
     w' = (set_client p c' w)\<lparr>heap := heap w', os := o2\<rparr> \<and> grows (heap w) (heap w') \<and>
     client_ok (heap w') c' k cs es' \<and>
     c' = c\<lparr>recv_fifo := q, command_status := fold handle_status ms (command_status c)\<rparr> \<and> fifo_contents q = rest \<and>
     msgs es' = msgs es @ ds \<and> subseq ds (concat (map received ms)) \<and>
     ((\<forall>k. \<not> oom (heap w) k) \<longrightarrow> ds = concat (map received ms))"
proof -
  let ?f = "recv_fifo c"
  have "ret \<le> int 4096 \<and> length bs = nat ret" using recv(1,2) unfolding recv_law_def by blast
  then have ret: "ret = int (length bs)" "length bs \<le> 4096" using recv(3) by auto
  have fok: "fifo_ok ?f" using ok by (simp add: client_ok_def)
  then have fl: "recv_data_fifo_length ?f = int (length (fifo_contents ?f))"
    by (simp add: recv_data_fifo_length_def length_fifo_contents fifo_ok_def)
  have fit: "int (length bs) + fifo_length ?f \<le> int NET_READ_DATA_LENGTH"
    using incomplete_package_short [OF idle] ret fl by (simp add: recv_data_fifo_length_def NET_READ_DATA_LENGTH_def)
  obtain q where q: "recv_data_fifo_push ?f bs (int (length bs)) = Some q" "fifo_ok q" "fifo_contents q = fifo_contents ?f @ bs"
    using fifo_push_ok [OF fok fit] by blast
  have b: "blit buf 0 bs = bs @ drop (length bs) buf" by (simp add: blit_def)
  let ?c = "c\<lparr>recv_fifo := q\<rparr>"
  have c1: "client_ok (heap w) ?c k cs es" using ok q(2) by (simp add: client_ok_def)
  have sf: "split_frames package_ok (fifo_contents (recv_fifo ?c)) = (ms, rest, False)" using stream(1) q(3) by simp
  have z: "length (replicate COMMAND_SIZE (0 :: byte)) = COMMAND_SIZE" by simp
  obtain c' h' es' ds q' where r: "parse_loop (replicate COMMAND_SIZE 0) ?c (heap w) = Some (c', h')"
      "client_ok h' c' k cs es'" "grows (heap w) h'"
      "c' = ?c\<lparr>recv_fifo := q', command_status := fold handle_status ms (command_status ?c)\<rparr>"
      "fifo_contents q' = rest" "msgs es' = msgs es @ ds" "subseq ds (concat (map received ms))"
      "(\<forall>k. \<not> oom (heap w) k) \<longrightarrow> ds = concat (map received ms)"
    using parse_loop_ok [OF c1 z sf stream(2)] by blast
  let ?w = "(set_client p c' w)\<lparr>heap := h', os := o2\<rparr>"
  have "recv_step api p buf w = Some (blit buf 0 bs, ?w)"
    using c run recv(2,3) buf fit q(1) r(1) ret(1)
    by (simp add: recv_step_def b fifo_push_prefix recv_data_fifo_length_def parse_recv_net_command_def)
  then show ?thesis using r
    by (intro exI [of _ ?w] exI [of _ c'] exI [of _ es'] exI [of _ ds] exI [of _ q']) simp
qed

section \<open>Fetching messages\<close>

lemma holds_msg_nonnull: "cheap_ok h \<Longrightarrow> holds_msg h r b m \<Longrightarrow> r \<noteq> 0 \<and> \<not> is_node h r \<and> \<not> is_node h b"
  by (auto simp: cheap_ok_def is_node_def)

lemma collect_data_ok:
  assumes "rq h list es" "length buf + length es \<le> 1024"
  shows "\<exists>h'. collect_data list buf h = Some (buf @ map e_recv es, h') \<and> rq h' list [] \<and>
     (\<forall>a. \<not> is_node h a \<longrightarrow> store h' a = store h a) \<and> fresh h' = fresh h \<and> oom h' = oom h \<and>
     dom (store h') = dom (store h) - e_node ` set es"
  using assms
proof (induction es arbitrary: buf h)
  case Nil
  then show ?case
    by (simp add: collect_data.simps [of list buf h] recv_data_list_return_data_empty)
next
  case (Cons e es)
  obtain h1 where h1: "recv_data_list_return_data list h = Some (e_recv e, h1)" "rq h1 list es"
      "\<forall>a. \<not> is_node h a \<longrightarrow> store h1 a = store h a" "dom (store h1) = dom (store h) - {e_node e}"
      "fresh h1 = fresh h" "oom h1 = oom h"
    using recv_data_list_return_data_ok [OF Cons.prems(1)] by blast
  have "holds_msg h (e_recv e) (e_block e) (e_msg e)" "cheap_ok h"
    using Cons.prems(1) by (auto simp: rq_def entry_ok_def)
  then have nz: "e_recv e \<noteq> 0" using holds_msg_nonnull by blast
  obtain h2 where h2: "collect_data list (buf @ [e_recv e]) h1 = Some ((buf @ [e_recv e]) @ map e_recv es, h2)"
      "rq h2 list []" "\<forall>a. \<not> is_node h1 a \<longrightarrow> store h2 a = store h1 a" "fresh h2 = fresh h1" "oom h2 = oom h1"
      "dom (store h2) = dom (store h1) - e_node ` set es"
    using Cons.IH [OF h1(2), of "buf @ [e_recv e]"] Cons.prems(2) by auto
  have "collect_data list buf h = Some (buf @ map e_recv (e # es), h2)"
    using h1(1) nz h2(1) Cons.prems(2) by (simp add: collect_data.simps [of list buf h] max_num_def)
  moreover have "store h2 a = store h a" if "\<not> is_node h a" for a
    using that h1(3) h2(3) by (simp add: is_node_def)
  ultimately show ?case using h1(4-6) h2(2,4-6) by auto
qed

text \<open>With more than 1024 messages waiting the loop writes behind its array.\<close>

lemma collect_data_overrun:
  assumes "rq h list es" "1024 < length buf + length es" "length buf \<le> 1024"
  shows "collect_data list buf h = None"
  using assms
proof (induction es arbitrary: buf h)
  case Nil
  then show ?case by simp
next
  case (Cons e es)
  obtain h1 where h1: "recv_data_list_return_data list h = Some (e_recv e, h1)" "rq h1 list es"
    using recv_data_list_return_data_ok [OF Cons.prems(1)] by blast
  have "holds_msg h (e_recv e) (e_block e) (e_msg e)" "cheap_ok h"
    using Cons.prems(1) by (auto simp: rq_def entry_ok_def)
  then have nz: "e_recv e \<noteq> 0" using holds_msg_nonnull by blast
  then show ?case
    using Cons.IH [OF h1(2), of "buf @ [e_recv e]"] Cons.prems h1(1)
    by (simp add: collect_data.simps [of list buf h] max_num_def)
qed

text \<open>\<^verbatim>\<open>stupid_p2p_recv_data\<close> returns an array with all waiting messages in the order of arrival.\<close>

definition holds_buf :: "cheap \<Rightarrow> addr \<Rightarrow> addr \<Rightarrow> entry list \<Rightarrow> bool" where
  "holds_buf h buf arr es \<longleftrightarrow> buf \<noteq> 0 \<and> store h buf = Some (CRecvBuf (int (length es)) arr) \<and>
     store h arr = Some (CPtrs (map e_recv es)) \<and> (\<forall>e\<in>set es. holds_msg h (e_recv e) (e_block e) (e_msg e))"

lemma recv_data_ok:
  assumes find: "find_stupid_p2p f w = Some p" "p \<noteq> 0" and c: "clients w p = Some c"
    and rq: "rq (heap w) (recv_data_list c) es" and num: "length es \<le> 1024" and mem: "\<And>k. \<not> oom (heap w) k"
  shows "\<exists>buf arr h'. stupid_p2p_recv_data f w = Some (buf, w\<lparr>heap := h'\<rparr>) \<and> holds_buf h' buf arr es \<and>
     rq h' (recv_data_list c) [] \<and> fresh (heap w) \<le> buf \<and> fresh (heap w) \<le> arr \<and> buf \<noteq> arr \<and>
     fresh (heap w) \<le> fresh h' \<and> oom h' = oom (heap w) \<and>
     (\<forall>a < fresh (heap w). \<not> is_node (heap w) a \<longrightarrow> store h' a = store (heap w) a)"
proof -
  let ?h = "heap w" and ?l = "recv_data_list c"
  let ?b = "fresh ?h"
  let ?h1 = "?h\<lparr>store := (store ?h)(?b \<mapsto> CRecvBuf 0 0), fresh := ?b + 1\<rparr>"
  have ok: "cheap_ok ?h" using rq by (simp add: rq_def)
  have ok1: "cheap_ok ?h1" and b0: "?b \<noteq> 0" using ok by (auto simp: cheap_ok_def less_Suc_eq)
  have rq1: "rq ?h1 ?l es" by (rule rq_cong [OF rq ok1]) auto
  obtain h2 where h2: "collect_data ?l [] ?h1 = Some (map e_recv es, h2)" "rq h2 ?l []"
      "\<forall>a. \<not> is_node ?h1 a \<longrightarrow> store h2 a = store ?h1 a" "fresh h2 = ?b + 1" "oom h2 = oom ?h"
    using collect_data_ok [OF rq1, of "[]"] num by auto
  let ?h3 = "h2\<lparr>store := (store h2)(?b + 1 \<mapsto> CPtrs (map e_recv es), ?b \<mapsto> CRecvBuf (int (length es)) (?b + 1)), fresh := ?b + 2\<rparr>"
  have ok3: "cheap_ok ?h3" using h2(2,4) b0 by (auto simp: rq_def cheap_ok_def less_Suc_eq)
  have l: "?l < ?b" using rq_node(1) [OF rq] ok by (auto simp: is_node_def cheap_ok_def)
  have "links ?h3 ?l [] ?l = links h2 ?l [] ?l"
    by (rule links_cong) (use l in \<open>auto simp: node_next_def node_prev_def\<close>)
  then have rq3: "rq ?h3 ?l []" using h2(2) ok3 by (simp add: rq_def)
  have "holds_msg ?h3 (e_recv e) (e_block e) (e_msg e)" if e: "e \<in> set es" for e
  proof -
    have m: "holds_msg ?h (e_recv e) (e_block e) (e_msg e)" using rq e by (auto simp: rq_def entry_ok_def)
    have s: "e_recv e < ?b" "e_block e < ?b" using rq_addr [OF rq e] e_addrs_mem by blast+
    have "\<not> is_node ?h1 (e_recv e)" "\<not> is_node ?h1 (e_block e)" using m s by (auto simp: is_node_def)
    then show ?thesis using m s h2(3) by auto
  qed
  then have "holds_buf ?h3 ?b (?b + 1) es" using b0 by (simp add: holds_buf_def)
  moreover have "stupid_p2p_recv_data f w = Some (?b, w\<lparr>heap := ?h3\<rparr>)"
    using find c mem b0 h2(1,4,5) by (simp add: stupid_p2p_recv_data_def alloc_def Let_def numeral_2_eq_2)
  moreover have "store ?h3 a = store ?h a" if "a < ?b" "\<not> is_node ?h a" for a
    using that h2(3) by (simp add: is_node_def)
  ultimately show ?thesis using rq3 h2(5) by (intro exI [of _ ?b] exI [of _ "?b + 1"] exI [of _ ?h3]) simp
qed

end
