(* ===== verification/Client_System.thy ===== *)
theory Client_System
  imports Client_Proofs
begin

text \<open>
  The C client as a system: the life of a client from \<^verbatim>\<open>stupid_p2p_init\<close> to \<^verbatim>\<open>stupid_p2p_deinit\<close>, the
  restart logic of the check thread, the release of fetched messages, and the interleaving of
  its threads as the step relation \<open>client_step\<close>, on which the locale \<open>invariant_system\<close> is
  interpreted: in every state the threads can reach while the peer sends well-formed packages,
  the two rings and the message list are well-formed and every next step is defined.
\<close>

section \<open>Counting heart beats\<close>

lemma count_heart_beat_errors:
  assumes "STUPID_P2P_NO_ERROR \<notin> set rs" "heart_beat_not_receive_num (command_status c) = 0" "need_to_restart_flag c = 0"
  shows "heart_beat_not_receive_num (command_status (fold count_heart_beat rs c)) = word_of_nat (length rs) \<and>
     need_to_restart_flag (fold count_heart_beat rs c) = (if 3 \<le> length rs then 1 else 0)"
  using assms(1)
proof (induction rs rule: rev_induct)
  case Nil
  then show ?case using assms by simp
next
  case (snoc r rs)
  let ?c = "fold count_heart_beat rs c"
  have r: "r \<noteq> STUPID_P2P_NO_ERROR" using snoc.prems by auto
  have IH: "heart_beat_not_receive_num (command_status ?c) = word_of_nat (length rs)"
      "need_to_restart_flag ?c = (if 3 \<le> length rs then 1 else 0)" using snoc by auto
  have num: "heart_beat_not_receive_num (command_status (count_heart_beat r ?c)) = word_of_nat (length (rs @ [r]))"
    using r IH(1) by (simp add: count_heart_beat_def Let_def)
  have flag: "need_to_restart_flag (count_heart_beat r ?c) =
      (if 3 \<le> unat (word_of_nat (length rs) + 1 :: byte) then 1 else need_to_restart_flag ?c)"
    using r IH(1) by (simp add: count_heart_beat_def Let_def heart_beat_max_def)
  consider "length rs < 2" | "length rs = 2" | "3 \<le> length rs" by linarith
  then have "need_to_restart_flag (count_heart_beat r ?c) = (if 3 \<le> length (rs @ [r]) then 1 else 0)"
  proof cases
    case 1
    then have "length rs = 0 \<or> length rs = 1" by linarith
    then show ?thesis using flag IH(2) by auto
  qed (use flag IH(2) in auto)
  then show ?case using num by simp
qed

lemma count_heart_beat_success:
  "heart_beat_not_receive_num (command_status (count_heart_beat STUPID_P2P_NO_ERROR c)) = 0 \<and>
   need_to_restart_flag (count_heart_beat STUPID_P2P_NO_ERROR c) = need_to_restart_flag c"
  by (simp add: count_heart_beat_def Let_def heart_beat_max_def)

section \<open>Releasing fetched messages\<close>

lemma free_messages_ok:
  assumes "cheap_ok h" "\<forall>e\<in>set es. holds_msg h (e_recv e) (e_block e) (e_msg e)"
    and "distinct (concat (map (\<lambda>e. [e_recv e, e_block e]) es))"
  shows "\<exists>h'. free_messages (map e_recv es) h = Some h' \<and> cheap_ok h' \<and>
     h' = h\<lparr>store := store h |` (- (\<Union>e\<in>set es. {e_recv e, e_block e}))\<rparr>"
  using assms
proof (induction es arbitrary: h)
  case Nil
  then show ?case by (simp add: restrict_map_def)
next
  case (Cons e es)
  let ?r = "e_recv e" and ?b = "e_block e"
  have m: "store h ?r = Some (CRecv (int (length (e_msg e))) ?b)" "store h ?b = Some (CBytes (e_msg e))" "?r \<noteq> ?b"
    using Cons.prems by auto
  have nz: "?r \<noteq> 0" "?b \<noteq> 0" using Cons.prems(1) m(1,2) by (auto simp: cheap_ok_def)
  let ?h = "h\<lparr>store := (store h)(?b := None, ?r := None)\<rparr>"
  have ok: "cheap_ok ?h" using Cons.prems(1) by (auto simp: cheap_ok_def)
  have ms: "\<forall>x\<in>set es. holds_msg ?h (e_recv x) (e_block x) (e_msg x)"
    using Cons.prems(2,3) by auto
  have dis: "distinct (concat (map (\<lambda>e. [e_recv e, e_block e]) es))" using Cons.prems(3) by simp
  obtain h' where h': "free_messages (map e_recv es) ?h = Some h'" "cheap_ok h'"
      "h' = ?h\<lparr>store := store ?h |` (- (\<Union>e\<in>set es. {e_recv e, e_block e}))\<rparr>"
    using Cons.IH [OF ok ms dis] by blast
  have "store ?h |` (- (\<Union>e\<in>set es. {e_recv e, e_block e})) = store h |` (- (\<Union>e\<in>set (e # es). {e_recv e, e_block e}))"
    by (auto simp: restrict_map_def fun_eq_iff)
  then have "h' = h\<lparr>store := store h |` (- (\<Union>e\<in>set (e # es). {e_recv e, e_block e}))\<rparr>" using h'(3) by simp
  moreover have "free_messages (map e_recv (e # es)) h = Some h'"
    using m nz h'(1) by (simp add: free_def)
  ultimately show ?case using h'(2) by blast
qed

lemma free_recv_data_buf_ok:
  assumes ok: "cheap_ok h" and buf: "holds_buf h buf arr es"
    and dis: "distinct (buf # arr # concat (map (\<lambda>e. [e_recv e, e_block e]) es))"
  shows "\<exists>h'. stupid_p2p_free_recv_data_buf buf h = Some h' \<and>
     h' = h\<lparr>store := store h |` (- (insert buf (\<Union>e\<in>set es. {e_recv e, e_block e})))\<rparr>"
proof -
  let ?S = "\<Union>e\<in>set es. {e_recv e, e_block e}"
  let ?h = "h\<lparr>store := store h |` (- ?S)\<rparr>"
  have m: "\<forall>e\<in>set es. holds_msg h (e_recv e) (e_block e) (e_msg e)" using buf by (simp add: holds_buf_def)
  have f: "free_messages (map e_recv es) h = Some ?h" using free_messages_ok [OF ok m] dis by auto
  have "buf \<notin> ?S" using dis by auto
  then have "free buf ?h = Some (?h\<lparr>store := (store ?h)(buf := None)\<rparr>)"
    using buf by (simp add: free_def holds_buf_def restrict_map_def)
  moreover have "(store ?h)(buf := None) = store h |` (- insert buf ?S)"
    by (auto simp: restrict_map_def fun_eq_iff)
  ultimately show ?thesis
    using buf f by (simp add: stupid_p2p_free_recv_data_buf_def holds_buf_def)
qed

section \<open>Creating a client\<close>

text \<open>The server is reachable and threads can be created.\<close>

definition os_up :: "'o os_api \<Rightarrow> bool" where
  "os_up api \<longleftrightarrow> (\<forall>o1. 0 \<le> fst (os_socket api o1) \<and> (\<forall>s a. fst (os_connect api s a o1) = 0) \<and> fst (os_thread api o1) = 0)"

lemma start_connection_up:
  assumes "os_up api" "clients w p = Some c"
  shows "\<exists>s o2. start_connection api p w = Some (STUPID_P2P_NO_ERROR, (set_client p (c\<lparr>socket_fd := s\<rparr>) w)\<lparr>os := o2\<rparr>)"
proof -
  obtain s o1 where 1: "os_socket api (os w) = (s, o1)" by (cases "os_socket api (os w)")
  obtain r o2 where 2: "os_connect api s (server_addr c) o1 = (r, o2)" by (cases "os_connect api s (server_addr c) o1")
  have "0 \<le> s" using assms(1) 1 unfolding os_up_def by (metis fst_conv)
  moreover have "r = 0" using assms(1) 2 unfolding os_up_def by (metis fst_conv)
  ultimately show ?thesis using assms(2) 1 2
    by (intro exI [of _ s] exI [of _ o2]) (simp add: start_connection_def)
qed

lemma start_threads_up:
  assumes "os_up api" "clients w p = Some c"
  shows "\<exists>t1 t2 t3 o3. start_threads api p w =
     Some (STUPID_P2P_NO_ERROR, (set_client p (c\<lparr>receive_id := t1, send_id := t2, check_net_id := t3\<rparr>) w)\<lparr>os := o3\<rparr>)"
proof -
  obtain r1 t1 o1 where 1: "os_thread api (os w) = (r1, t1, o1)" by (cases "os_thread api (os w)")
  obtain r2 t2 o2 where 2: "os_thread api o1 = (r2, t2, o2)" by (cases "os_thread api o1")
  obtain r3 t3 o3 where 3: "os_thread api o2 = (r3, t3, o3)" by (cases "os_thread api o2")
  have "r1 = 0" "r2 = 0" "r3 = 0" using assms(1) 1 2 3 unfolding os_up_def by (metis fst_conv)+
  then show ?thesis using assms(2) 1 2 3
    by (intro exI [of _ t1] exI [of _ t2] exI [of _ t3] exI [of _ o3]) (simp add: start_threads_def)
qed

lemma check_module_init_simps [simp]:
  "clients (check_module_init api w) = clients w" "heap (check_module_init api w) = heap w"
  "g_fd_start (check_module_init api w) = g_fd_start w"
  by (simp_all add: check_module_init_def)

text \<open>A structure fresh from \<^verbatim>\<open>calloc\<close> with its three containers initialised is a healthy client.\<close>

lemma client_zero_ok:
  assumes "cheap_ok h" "0 < list" "fresh h \<le> list"
    and c: "recv_fifo c = recv_data_fifo_init (recv_fifo (client_zero list))"
      "send_fifo c = snd (send_command_fifo_init (send_fifo (client_zero list)))" "recv_data_list c = list"
  shows "client_ok (snd (recv_data_list_init list (h\<lparr>fresh := Suc list\<rparr>))) c 0 [] []"
proof -
  let ?h = "h\<lparr>fresh := Suc list\<rparr>"
  have ok: "cheap_ok ?h" using assms(1,3) by (auto simp: cheap_ok_def less_Suc_eq)
  have rq: "rq (snd (recv_data_list_init list ?h)) list []" by (rule recv_data_list_init_ok [OF ok]) (use assms in auto)
  then have ok1: "cheap_ok (snd (recv_data_list_init list ?h))" by (simp add: rq_def)
  have "fifo_ok (recv_fifo c)" using fifo_init_ok [of "recv_fifo (client_zero list)"] c(1) by (simp add: client_zero_def)
  moreover have "sq (snd (recv_data_list_init list ?h)) (send_fifo c) 0 []"
    using send_fifo_init_ok [OF ok1, of "send_fifo (client_zero list)"] c(2) by (simp add: client_zero_def)
  ultimately show ?thesis using rq c(3) by (simp add: client_ok_def)
qed

lemma connect_client_ok:
  assumes up: "os_up api" and c: "clients w p = Some c" "next_client c = 0" and cl: "client_list (clients w) ps"
    and new: "p \<notin> set (stupid_p2p_head # ps)" "p \<noteq> 0"
  shows "\<exists>w' s t1 t2 t3. connect_client api p w = Some (g_fd_start w + 1, w') \<and>
     client_list (clients w') (ps @ [p]) \<and> heap w' = heap w \<and> g_fd_start w' = g_fd_start w + 1 \<and>
     (\<forall>y. y \<noteq> p \<longrightarrow> fd_of (clients w') y = fd_of (clients w) y) \<and>
     clients w' p = Some (c\<lparr>socket_fd := s, receive_id := t1, send_id := t2, check_net_id := t3, fd := g_fd_start w + 1\<rparr>)"
proof -
  obtain s o2 where con: "start_connection api p w = Some (STUPID_P2P_NO_ERROR, (set_client p (c\<lparr>socket_fd := s\<rparr>) w)\<lparr>os := o2\<rparr>)"
    using start_connection_up [OF up c(1)] by blast
  let ?w2 = "(set_client p (c\<lparr>socket_fd := s\<rparr>) w)\<lparr>os := o2\<rparr>"
  have "clients ?w2 p = Some (c\<lparr>socket_fd := s\<rparr>)" by simp
  from start_threads_up [OF up this] obtain t1 t2 t3 o3 where th: "start_threads api p ?w2 = Some (STUPID_P2P_NO_ERROR,
      (set_client p (c\<lparr>socket_fd := s, receive_id := t1, send_id := t2, check_net_id := t3\<rparr>) ?w2)\<lparr>os := o3\<rparr>)"
    by auto
  let ?c3 = "c\<lparr>socket_fd := s, receive_id := t1, send_id := t2, check_net_id := t3\<rparr>"
  let ?w3 = "(set_client p ?c3 ?w2)\<lparr>os := o3\<rparr>"
  have cl3: "client_list (clients ?w3) ps" using cl client_list_other [OF new(1)] by simp
  have c3: "clients ?w3 p = Some ?c3" "next_client ?c3 = 0" using c(2) by simp_all
  let ?l = "last (stupid_p2p_head # ps)"
  obtain w4 d where w4: "add_stupid_p2p_to_list p ?w3 = Some (g_fd_start w + 1, w4)"
      "w4 = (set_client ?l (d\<lparr>next_client := p\<rparr>) ?w3)\<lparr>g_fd_start := g_fd_start w + 1\<rparr>"
      "client_list (clients w4) (ps @ [p])" "clients ?w3 ?l = Some d"
    using add_stupid_p2p_ok [OF cl3 c3 new] by auto
  have "?l \<in> set (stupid_p2p_head # ps)" by (rule last_in_set) simp
  then have "p \<noteq> ?l" using new(1) by metis
  then have c4: "clients w4 p = Some ?c3" unfolding w4(2) using c3(1) by (simp del: last.simps)
  let ?w5 = "set_client p (?c3\<lparr>fd := g_fd_start w + 1\<rparr>) w4"
  have "connect_client api p w = Some (g_fd_start w + 1, ?w5)"
    using con th w4(1) c4 by (simp add: connect_client_def)
  moreover have "client_list (clients ?w5) (ps @ [p])" using client_list_set [OF w4(3) c4] by simp
  moreover have "heap ?w5 = heap w" "g_fd_start ?w5 = g_fd_start w + 1" using w4(2) by simp_all
  moreover have "fd_of (clients ?w5) y = fd_of (clients w) y" if "y \<noteq> p" for y
    using that w4(2,4) by (cases "y = ?l") (auto simp: fd_of_def simp del: last.simps)
  ultimately show ?thesis by (intro exI [of _ ?w5]) auto
qed

lemma stupid_p2p_init_ok:
  assumes cl: "client_list (clients w) ps" and ok: "cheap_ok (heap w)"
    and old: "\<forall>q\<in>dom (clients w). q < fresh (heap w)" and mem: "\<not> oom (heap w) (fresh (heap w))"
    and up: "os_up api" and ip: "os_pton api server_ip = Some a"
  shows "\<exists>w' c. stupid_p2p_init api server_ip server_port w = Some (g_fd_start w + 1, w') \<and>
     client_list (clients w') (ps @ [fresh (heap w)]) \<and> clients w' (fresh (heap w)) = Some c \<and>
     fd c = g_fd_start w + 1 \<and> need_to_restart_flag c = 0 \<and> fifo_contents (recv_fifo c) = [] \<and>
     client_ok (heap w') c 0 [] [] \<and> g_fd_start w' = g_fd_start w + 1 \<and> oom (heap w') = oom (heap w) \<and>
     (\<forall>y. y \<noteq> fresh (heap w) \<longrightarrow> fd_of (clients w') y = fd_of (clients w) y) \<and>
     sin_port (server_addr c) = htons server_port \<and> sin_addr (server_addr c) = a"
proof -
  let ?p = "fresh (heap w)" and ?w0 = "check_module_init api w"
  let ?z = "client_zero (?p + 1)"
  let ?h = "snd (recv_data_list_init (?p + 1) ((heap w)\<lparr>fresh := ?p + 2\<rparr>))"
  let ?c = "?z\<lparr>server_addr := (server_addr ?z)\<lparr>sin_family := AF_INET, sin_port := htons server_port, sin_addr := a\<rparr>,
      recv_fifo := recv_data_fifo_init (recv_fifo ?z), send_fifo := snd (send_command_fifo_init (send_fifo ?z))\<rparr>"
  let ?w1 = "(set_client ?p ?c ?w0)\<lparr>heap := ?h\<rparr>"
  have p: "?p \<noteq> 0" "0 < ?p + 1" using ok by (auto simp: cheap_ok_def)
  have fresh: "?p \<notin> set (stupid_p2p_head # ps)" using client_list_mem [OF cl] old by blast
  have init: "stupid_p2p_init api server_ip server_port w = connect_client api ?p ?w1"
    using mem p(1) ip by (simp add: stupid_p2p_init_def alloc_client_def Let_def split: prod.split)
  have cl1: "client_list (clients ?w1) ps" using cl client_list_other [OF fresh] by simp
  have c1: "clients ?w1 ?p = Some ?c" "next_client ?c = 0" by simp_all
  obtain w' s t1 t2 t3 where w': "connect_client api ?p ?w1 = Some (g_fd_start w + 1, w')"
      "client_list (clients w') (ps @ [?p])" "heap w' = ?h" "g_fd_start w' = g_fd_start w + 1"
      "\<forall>y. y \<noteq> ?p \<longrightarrow> fd_of (clients w') y = fd_of (clients ?w1) y"
      "clients w' ?p = Some (?c\<lparr>socket_fd := s, receive_id := t1, send_id := t2, check_net_id := t3, fd := g_fd_start w + 1\<rparr>)"
    using connect_client_ok [OF up c1 cl1 fresh p(1)] by auto
  let ?c5 = "?c\<lparr>socket_fd := s, receive_id := t1, send_id := t2, check_net_id := t3, fd := g_fd_start w + 1\<rparr>"
  have "client_ok ?h ?c5 0 [] []"
    using client_zero_ok [OF ok p(2), of ?c5] by (simp add: numeral_2_eq_2)
  moreover have "fifo_contents (recv_fifo ?c5) = []"
    using fifo_init_ok [of "recv_fifo ?z"] by (simp add: client_zero_def)
  moreover have "oom ?h = oom (heap w)" by (simp add: recv_data_list_init_def)
  moreover have "fd_of (clients w') y = fd_of (clients w) y" if "y \<noteq> ?p" for y
    using w'(5) that by (simp add: fd_of_def)
  ultimately show ?thesis using init w'(1-4,6) by (intro exI [of _ w'] exI [of _ ?c5]) simp
qed

section \<open>Destroying a client\<close>

text \<open>The two containers are released completely: no pending command or message is left on the heap.\<close>

lemma release_ok:
  assumes ok: "client_ok h c k cs es"
  shows "\<exists>h1 q h2. recv_data_list_deinit (recv_data_list c) h = Some h1 \<and>
     send_command_fifo_deinit (send_fifo c) h1 = Some (q, h2) \<and>
     dom (store h2) = dom (store h) - set (concat (map e_addrs es)) - fst ` set cs"
proof -
  have sq: "sq h (send_fifo c) k cs" and rq: "rq h (recv_data_list c) es"
    and dis: "fst ` set cs \<inter> set (concat (map e_addrs es)) = {}" using ok by (auto simp: client_ok_def)
  obtain h1 where h1: "recv_data_list_deinit (recv_data_list c) h = Some h1" "rq h1 (recv_data_list c) []"
      "dom (store h1) = dom (store h) - set (concat (map e_addrs es))"
      "\<forall>a. \<not> is_node h a \<longrightarrow> a \<notin> set (concat (map e_addrs es)) \<longrightarrow> store h1 a = store h a" "fresh h1 = fresh h"
    using recv_data_list_deinit_ok [OF rq] by blast
  have "sq h1 (send_fifo c) k cs"
  proof (rule sq_cong [OF sq])
    show "cheap_ok h1" "fresh h \<le> fresh h1" using h1(2,5) by (simp_all add: rq_def)
    fix a m assume "(a, m) \<in> set cs"
    then have "a \<in> fst ` set cs" by force
    then show "store h1 a = store h a" using h1(4) sq_addr [OF sq] dis by blast
  next
    fix a assume "store h a = None"
    then show "store h1 a = None" using h1(3) by blast
  qed
  from send_fifo_deinit_ok [OF this] obtain q h2 where
    h2: "send_command_fifo_deinit (send_fifo c) h1 = Some (q, h2)" "h2 = h1\<lparr>store := (store h1) |` (- fst ` set cs)\<rparr>"
    by blast
  have "dom (store h2) = dom (store h) - set (concat (map e_addrs es)) - fst ` set cs"
    using h1(3) h2(2) by auto
  then show ?thesis using h1(1) h2(1) by blast
qed

lemma stupid_p2p_deinit_release:
  assumes find: "find_stupid_p2p f w = Some p" "p \<noteq> 0" and c: "clients w p = Some c"
    and ok: "client_ok (heap w) c k cs es"
  shows "\<exists>q h o2. stupid_p2p_deinit api f w =
       remove_stupid_p2p (fd c) ((set_client p (c\<lparr>send_fifo := q\<rparr>) w)\<lparr>heap := h, os := o2\<rparr>) \<and>
     dom (store h) = dom (store (heap w)) - set (concat (map e_addrs es)) - fst ` set cs"
proof -
  obtain h1 q h2 where r: "recv_data_list_deinit (recv_data_list c) (heap w) = Some h1"
      "send_command_fifo_deinit (send_fifo c) h1 = Some (q, h2)"
      "dom (store h2) = dom (store (heap w)) - set (concat (map e_addrs es)) - fst ` set cs"
    using release_ok [OF ok] by blast
  show ?thesis using find c r by (auto simp: stupid_p2p_deinit_def)
qed

text \<open>A client with a successor in the list is unlinked and freed, the last one stays.\<close>

lemma stupid_p2p_deinit_ok:
  assumes cl: "client_list (clients w) (ys @ p # x # xs)" and c: "clients w p = Some c" "fd c = f"
    and first: "\<forall>y\<in>set (stupid_p2p_head # ys). fd_of (clients w) y \<noteq> f"
    and ok: "client_ok (heap w) c k cs es"
  shows "\<exists>w'. stupid_p2p_deinit api f w = Some w' \<and> client_list (clients w') (ys @ x # xs) \<and> clients w' p = None \<and>
     dom (store (heap w')) = dom (store (heap w)) - set (concat (map e_addrs es)) - fst ` set cs"
proof -
  have f: "fd_of (clients w) p = f" using c by (simp add: fd_of_def)
  have find: "find_stupid_p2p f w = Some p" by (rule find_stupid_p2p_first [OF cl f first])
  have p0: "p \<noteq> 0" by (rule client_list_nz [OF cl]) simp
  obtain q h o2 where r: "stupid_p2p_deinit api f w =
       remove_stupid_p2p f ((set_client p (c\<lparr>send_fifo := q\<rparr>) w)\<lparr>heap := h, os := o2\<rparr>)"
     "dom (store h) = dom (store (heap w)) - set (concat (map e_addrs es)) - fst ` set cs"
    using stupid_p2p_deinit_release [OF find p0 c(1) ok, of api] c(2) by auto
  let ?w = "(set_client p (c\<lparr>send_fifo := q\<rparr>) w)\<lparr>heap := h, os := o2\<rparr>"
  have cl1: "client_list (clients ?w) (ys @ p # x # xs)" using client_list_set [OF cl c(1)] by simp
  have fds: "fd_of (clients ?w) y = fd_of (clients w) y" for y
    using fd_of_set [of "clients w" p c "c\<lparr>send_fifo := q\<rparr>" y] c(1) by simp
  have "\<forall>y\<in>set (stupid_p2p_head # ys). fd_of (clients ?w) y \<noteq> f" using first by (simp only: fds)
  from remove_stupid_p2p_ok [OF cl1 this] obtain w' where "remove_stupid_p2p f ?w = Some w'"
      "client_list (clients w') (ys @ x # xs)" "clients w' p = None" "heap w' = heap ?w"
    using f fds by metis
  then show ?thesis using r by simp
qed

lemma stupid_p2p_deinit_last:
  assumes cl: "client_list (clients w) (ys @ [p])" and c: "clients w p = Some c" "fd c = f"
    and first: "\<forall>y\<in>set (stupid_p2p_head # ys). fd_of (clients w) y \<noteq> f"
    and ok: "client_ok (heap w) c k cs es"
  shows "\<exists>w'. stupid_p2p_deinit api f w = Some w' \<and> client_list (clients w') (ys @ [p]) \<and> find_stupid_p2p f w' = Some p"
proof -
  have f: "fd_of (clients w) p = f" using c by (simp add: fd_of_def)
  have find: "find_stupid_p2p f w = Some p" by (rule find_stupid_p2p_first [OF cl f first])
  have p0: "p \<noteq> 0" by (rule client_list_nz [OF cl]) simp
  obtain q h o2 where r: "stupid_p2p_deinit api f w =
       remove_stupid_p2p f ((set_client p (c\<lparr>send_fifo := q\<rparr>) w)\<lparr>heap := h, os := o2\<rparr>)"
    using stupid_p2p_deinit_release [OF find p0 c(1) ok, of api] c(2) by auto
  let ?w = "(set_client p (c\<lparr>send_fifo := q\<rparr>) w)\<lparr>heap := h, os := o2\<rparr>"
  have cl1: "client_list (clients ?w) (ys @ [p])" using client_list_set [OF cl c(1)] by simp
  have fds: "fd_of (clients ?w) y = fd_of (clients w) y" for y
    using fd_of_set [of "clients w" p c "c\<lparr>send_fifo := q\<rparr>" y] c(1) by simp
  have n: "\<forall>y\<in>set (stupid_p2p_head # ys). fd_of (clients ?w) y \<noteq> f" using first by (simp only: fds)
  then have "remove_stupid_p2p f ?w = Some ?w"
    by (intro remove_stupid_p2p_last [OF cl1]) (simp add: butlast_append)
  moreover have "fd_of (clients ?w) p = f" using f fds by metis
  then have "find_stupid_p2p f ?w = Some p" using find_stupid_p2p_first [OF cl1 _ n] by blast
  ultimately show ?thesis using r cl1 by simp
qed

section \<open>The threads together\<close>

text \<open>
  \<open>posted\<close> counts the commands entered so far. A step is one pass of a thread, one call of the
  API up to its wait, or a change of the outside world.
\<close>

record 'o client_sys =
  cmod :: "'o p2p_module"
  rbuf :: bytes
  sbuf :: bytes
  posted :: nat

text \<open>The next \<^verbatim>\<open>recv\<close> fails without \<^verbatim>\<open>EINTR\<close>, or continues a stream of well-formed packages.\<close>

definition good_input :: "'o os_api \<Rightarrow> addr \<Rightarrow> 'o p2p_module \<Rightarrow> bool" where
  "good_input api p w \<longleftrightarrow> (\<forall>c ret bs e o2. clients w p = Some c \<longrightarrow>
     os_recv api (socket_fd c) 4096 (os w) = (ret, bs, e, o2) \<longrightarrow>
     (if ret \<le> 0 then e \<noteq> EINTR
      else \<exists>ms rest. split_frames package_ok (fifo_contents (recv_fifo c) @ bs) = (ms, rest, False) \<and>
             (\<forall>m\<in>set ms. acceptable m)))"

inductive client_step :: "'o os_api \<Rightarrow> addr \<Rightarrow> int \<Rightarrow> 'o client_sys \<Rightarrow> 'o client_sys \<Rightarrow> bool" for api p f where
  post: "posted s < NET_SEND_COMMAND_NUM \<Longrightarrow> len \<le> length data \<Longrightarrow>
    post_command f command data (int len) (cmod s) = Some (r, w) \<Longrightarrow>
    client_step api p f s (s\<lparr>cmod := w, posted := (case r of Inl _ \<Rightarrow> posted s | Inr _ \<Rightarrow> Suc (posted s))\<rparr>)"
| send: "send_step api p (sbuf s) (cmod s) = Some (b, w) \<Longrightarrow> client_step api p f s (s\<lparr>cmod := w, sbuf := b\<rparr>)"
| recv: "good_input api p (cmod s) \<Longrightarrow> recv_step api p (rbuf s) (cmod s) = Some (b, w) \<Longrightarrow>
    client_step api p f s (s\<lparr>cmod := w, rbuf := b\<rparr>)"
| restart: "check_restart api p (cmod s) = Some (g, w) \<Longrightarrow> client_step api p f s (s\<lparr>cmod := w\<rparr>)"
| beat: "clients (cmod s) p = Some c \<Longrightarrow>
    client_step api p f s (s\<lparr>cmod := set_client p (count_heart_beat r c) (cmod s)\<rparr>)"
| fetch: "stupid_p2p_recv_data f (cmod s) = Some (a, w) \<Longrightarrow> client_step api p f s (s\<lparr>cmod := w\<rparr>)"
| world: "client_step api p f s (s\<lparr>cmod := (cmod s)\<lparr>os := x\<rparr>\<rparr>)"

text \<open>The client sits in the list under its descriptor.\<close>

definition client_at :: "addr \<Rightarrow> int \<Rightarrow> 'o p2p_module \<Rightarrow> stupid_p2p_t \<Rightarrow> bool" where
  "client_at p f w c \<longleftrightarrow> clients w p = Some c \<and> fd c = f \<and> 0 < f \<and>
     (\<exists>ys zs. client_list (clients w) (ys @ p # zs) \<and> (\<forall>y\<in>set (stupid_p2p_head # ys). fd_of (clients w) y \<noteq> f))"

text \<open>Its containers are well-formed, \<open>n\<close> commands have been posted, and its ring holds no complete package.\<close>

definition at_work :: "cheap \<Rightarrow> stupid_p2p_t \<Rightarrow> nat \<Rightarrow> bool" where
  "at_work h c n \<longleftrightarrow> (\<forall>k. \<not> oom h k) \<and>
     split_frames package_ok (fifo_contents (recv_fifo c)) = ([], fifo_contents (recv_fifo c), False) \<and>
     (\<exists>k cs es. client_ok h c k cs es \<and> n = k + length cs \<and> (\<forall>x\<in>set cs. length (snd x) \<le> 257))"

definition sys_ok :: "addr \<Rightarrow> int \<Rightarrow> 'o client_sys \<Rightarrow> bool" where
  "sys_ok p f s \<longleftrightarrow> length (rbuf s) = 4096 \<and> length (sbuf s) = 2048 \<and>
     (\<exists>c. client_at p f (cmod s) c \<and> at_work (heap (cmod s)) c (posted s))"

lemma client_at_find: "client_at p f w c \<Longrightarrow> find_stupid_p2p f w = Some p \<and> p \<noteq> 0 \<and> 0 < f \<and> clients w p = Some c"
proof -
  assume a: "client_at p f w c"
  then obtain ys zs where l: "client_list (clients w) (ys @ p # zs)" "\<forall>y\<in>set (stupid_p2p_head # ys). fd_of (clients w) y \<noteq> f"
      and f: "fd_of (clients w) p = f" by (auto simp: client_at_def fd_of_def)
  have "find_stupid_p2p f w = Some p" by (rule find_stupid_p2p_first [OF l(1) f l(2)])
  moreover have "p \<noteq> 0" by (rule client_list_nz [OF l(1)]) simp
  ultimately show ?thesis using a by (simp add: client_at_def)
qed

lemma client_at_set:
  assumes a: "client_at p f w c" and w: "clients w' = (clients w)(p \<mapsto> c')" and c: "fd c' = fd c" "next_client c' = next_client c"
  shows "client_at p f w' c'"
proof -
  obtain ys zs where l: "client_list (clients w) (ys @ p # zs)" "\<forall>y\<in>set (stupid_p2p_head # ys). fd_of (clients w) y \<noteq> f"
      and p: "clients w p = Some c" using a by (auto simp: client_at_def)
  have "client_list (clients w') (ys @ p # zs)" unfolding w by (rule client_list_set [OF l(1) p c(2)])
  moreover have "fd_of (clients w') y = fd_of (clients w) y" for y unfolding w using fd_of_set [of "clients w" p c c' y] p c(1) by blast
  ultimately show ?thesis using l(2) a w c(1) unfolding client_at_def by (metis fun_upd_same)
qed

lemma sys_ok_upd:
  assumes "sys_ok p f s" "client_at p f (cmod s) c" "clients (cmod t) = (clients (cmod s))(p \<mapsto> c')"
    and "fd c' = fd c" "next_client c' = next_client c" "at_work (heap (cmod t)) c' (posted t)"
    and "length (rbuf t) = 4096" "length (sbuf t) = 2048"
  shows "sys_ok p f t"
  using client_at_set [OF assms(2-5)] assms(6-8) by (auto simp: sys_ok_def)

lemma at_work_cong:
  "at_work h c n \<Longrightarrow> recv_fifo c' = recv_fifo c \<Longrightarrow> send_fifo c' = send_fifo c \<Longrightarrow>
     recv_data_list c' = recv_data_list c \<Longrightarrow> at_work h c' n"
  by (simp add: at_work_def client_ok_def)

lemma sys_okE:
  assumes "sys_ok p f s"
  obtains c k cs es where "client_at p f (cmod s) c" "client_ok (heap (cmod s)) c k cs es" "posted s = k + length cs"
    "\<forall>x\<in>set cs. length (snd x) \<le> 257" "\<forall>k. \<not> oom (heap (cmod s)) k" "length (rbuf s) = 4096" "length (sbuf s) = 2048"
    "split_frames package_ok (fifo_contents (recv_fifo c)) = ([], fifo_contents (recv_fifo c), False)"
  using assms by (auto simp: sys_ok_def at_work_def)

text \<open>A heap that only differs above \<open>fresh\<close> keeps a client healthy.\<close>

lemma client_ok_above:
  assumes "client_ok h c k cs es" "cheap_ok h'" "fresh h \<le> fresh h'" "\<And>a. a < fresh h \<Longrightarrow> store h' a = store h a"
  shows "client_ok h' c k cs es"
proof -
  have "sq h (send_fifo c) k cs" "rq h (recv_data_list c) es" using assms(1) by (simp_all add: client_ok_def)
  then have "sq h' (send_fifo c) k cs" "rq h' (recv_data_list c) es"
    using sq_cong [OF _ assms(2,3)] sq_addr rq_cong [OF _ assms(2,4)] assms(4) by (metis fst_conv imageI)+
  then show ?thesis using assms(1) by (simp add: client_ok_def)
qed

lemma post_keeps:
  assumes ok: "sys_ok p f s" and g: "posted s < NET_SEND_COMMAND_NUM" "len \<le> length data"
  shows "\<exists>r w. post_command f command data (int len) (cmod s) = Some (r, w) \<and>
     sys_ok p f (s\<lparr>cmod := w, posted := (case r of Inl _ \<Rightarrow> posted s | Inr _ \<Rightarrow> Suc (posted s))\<rparr>)"
proof -
  obtain c k cs es where a: "client_at p f (cmod s) c" "client_ok (heap (cmod s)) c k cs es" "posted s = k + length cs"
      "\<forall>x\<in>set cs. length (snd x) \<le> 257" "\<forall>k. \<not> oom (heap (cmod s)) k" "length (rbuf s) = 4096" "length (sbuf s) = 2048"
      "split_frames package_ok (fifo_contents (recv_fifo c)) = ([], fifo_contents (recv_fifo c), False)"
    using ok by (rule sys_okE)
  note find = client_at_find [OF a(1)]
  let ?w = "cmod s" and ?h = "heap (cmod s)"
  consider (skip) "len > 256 \<or> need_to_restart_flag c = 1"
    | (flag) "len \<le> 256" "need_to_restart_flag c \<noteq> 1" "command_flag command = None"
    | (go) flag where "len \<le> 256" "need_to_restart_flag c \<noteq> 1" "command_flag command = Some flag"
    by force
  then show ?thesis
  proof cases
    case skip
    then have "post_command f command data (int len) ?w =
        Some (Inl (if 256 < len then STUPID_P2P_BAD_PARAM else STUPID_P2P_RESTARTING), ?w)"
      using find by (auto simp: post_command_def)
    then show ?thesis using ok by auto
  next
    case flag
    let ?h1 = "?h\<lparr>store := (store ?h)(fresh ?h := None), fresh := fresh ?h + 1\<rparr>"
    have h: "cheap_ok ?h" using a(2) by (simp add: client_ok_def rq_def)
    then have h1: "cheap_ok ?h1" "fresh ?h \<noteq> 0" by (auto simp: cheap_ok_def less_Suc_eq)
    have h2: "client_ok ?h1 c k cs es" by (rule client_ok_above [OF a(2) h1(1)]) auto
    have post: "post_command f command data (int len) ?w = Some (Inl STUPID_P2P_BAD_PARAM, ?w\<lparr>heap := ?h1\<rparr>)"
      using find flag a(5) g(2) h1(2) by (simp add: post_command_def alloc_def Let_def free_def)
    moreover have "clients (?w\<lparr>heap := ?h1\<rparr>) = (clients ?w)(p \<mapsto> c)" using find by auto
    ultimately have "sys_ok p f (s\<lparr>cmod := ?w\<lparr>heap := ?h1\<rparr>\<rparr>)" if "client_ok ?h1 c k cs es"
      using that a by (intro sys_ok_upd [OF ok a(1)]) (auto simp: at_work_def)
    then show ?thesis using post h2 by auto
  next
    case go
    have room: "k + length cs < NET_SEND_COMMAND_NUM" using g(1) a(3) by simp
    obtain w' c' b q where r: "post_command f command data (int len) ?w = Some (Inr (p, flag), w')"
        "w' = (set_client p c' ?w)\<lparr>heap := heap w'\<rparr>" "grows ?h (heap w')"
        "client_ok (heap w') c' k (cs @ [(b, command # take len data)]) es"
        "c' = c\<lparr>command_status := write_flag flag 0xff (command_status c), send_fifo := q\<rparr>"
      using post_command_ok [of f ?w p c k cs es len data command flag] find go(2) a(2,5) room go(1,3) g(2) by blast
    have "at_work (heap w') c' (Suc (posted s))"
      unfolding at_work_def using r(3-5) a(3-5,8) go(1)
      by (intro conjI exI [of _ k] exI [of _ "cs @ [(b, command # take len data)]"] exI [of _ es]) (auto simp: grows_def)
    moreover have "clients w' = (clients ?w)(p \<mapsto> c')" using r(2) by (metis p2p_module.simps(1,12,6) set_client_simps(1)
          p2p_module.surjective p2p_module.update_convs(2) p2p_module.select_convs(1))
    ultimately have "sys_ok p f (s\<lparr>cmod := w', posted := Suc (posted s)\<rparr>)"
      using a(6,7) r(5) by (intro sys_ok_upd [OF ok a(1)]) auto
    then show ?thesis using r(1) by auto
  qed
qed

lemma send_keeps:
  assumes ok: "sys_ok p f s"
  shows "\<exists>b w. send_step api p (sbuf s) (cmod s) = Some (b, w) \<and> sys_ok p f (s\<lparr>cmod := w, sbuf := b\<rparr>)"
proof -
  obtain c k cs es where a: "client_at p f (cmod s) c" "client_ok (heap (cmod s)) c k cs es" "posted s = k + length cs"
      "\<forall>x\<in>set cs. length (snd x) \<le> 257" "\<forall>k. \<not> oom (heap (cmod s)) k" "length (rbuf s) = 4096" "length (sbuf s) = 2048"
      "split_frames package_ok (fifo_contents (recv_fifo c)) = ([], fifo_contents (recv_fifo c), False)"
    using ok by (rule sys_okE)
  have c: "clients (cmod s) p = Some c" using client_at_find [OF a(1)] by simp
  have num: "cmd_num (send_fifo c) = int (length cs)" using a(2) sqD(4) by (auto simp: client_ok_def)
  show ?thesis
  proof (cases "cs = [] \<or> need_to_restart_flag c \<noteq> 0")
    case True
    then have "send_step api p (sbuf s) (cmod s) = Some (sbuf s, cmod s)"
      using c num by (auto simp: send_step_def send_command_fifo_empty_def)
    then show ?thesis using ok by auto
  next
    case False
    then obtain b m cs' where cs: "cs = (b, m) # cs'" by (cases cs) auto
    have m: "length m + 4 \<le> length (sbuf s)" "length (sbuf s) < 2 ^ 31" using a(4,7) cs by auto
    obtain buf' w' c' q where r: "send_step api p (sbuf s) (cmod s) = Some (buf', w')" "length buf' = length (sbuf s)"
        "w' = (set_client p c' (cmod s))\<lparr>heap := (heap (cmod s))\<lparr>store := (store (heap (cmod s)))(b := None)\<rparr>,
            os := snd (os_send api (socket_fd c) (frame m) (os (cmod s)))\<rparr>"
        "client_ok (heap w') c' (Suc k) cs' es" "c' = c\<lparr>send_fifo := q\<rparr>"
      using send_step_ok [OF c a(2) [unfolded cs] _ m] False by blast
    have "at_work (heap w') c' (posted s)"
      unfolding at_work_def using r(3-5) a(3-5,8) cs
      by (intro conjI exI [of _ "Suc k"] exI [of _ cs'] exI [of _ es]) auto
    then have "sys_ok p f (s\<lparr>cmod := w', sbuf := buf'\<rparr>)"
      using a(6,7) r(2,3,5) by (intro sys_ok_upd [OF ok a(1)]) auto
    then show ?thesis using r(1) by auto
  qed
qed

lemma recv_keeps:
  assumes ok: "sys_ok p f s" and law: "recv_law api" and inp: "good_input api p (cmod s)"
  shows "\<exists>b w. recv_step api p (rbuf s) (cmod s) = Some (b, w) \<and> sys_ok p f (s\<lparr>cmod := w, rbuf := b\<rparr>)"
proof -
  obtain c k cs es where a: "client_at p f (cmod s) c" "client_ok (heap (cmod s)) c k cs es" "posted s = k + length cs"
      "\<forall>x\<in>set cs. length (snd x) \<le> 257" "\<forall>k. \<not> oom (heap (cmod s)) k" "length (rbuf s) = 4096" "length (sbuf s) = 2048"
      "split_frames package_ok (fifo_contents (recv_fifo c)) = ([], fifo_contents (recv_fifo c), False)"
    using ok by (rule sys_okE)
  have c: "clients (cmod s) p = Some c" "p \<noteq> 0" using client_at_find [OF a(1)] by simp_all
  have aw: "at_work (heap (cmod s)) c (posted s)" using a by (auto simp: at_work_def)
  obtain ret bs e o2 where r: "os_recv api (socket_fd c) 4096 (os (cmod s)) = (ret, bs, e, o2)"
    by (cases "os_recv api (socket_fd c) 4096 (os (cmod s))")
  have l: "ret \<le> int 4096" "length bs = nat ret" using law r unfolding recv_law_def by blast+
  have b: "length (blit (rbuf s) 0 bs) = 4096" using l a(6) by (simp add: blit_def)
  consider (restart) "need_to_restart_flag c \<noteq> 0" | (error) "need_to_restart_flag c = 0" "ret \<le> 0"
    | (data) "need_to_restart_flag c = 0" "0 < ret" by linarith
  then show ?thesis
  proof cases
    case restart
    then have "recv_step api p (rbuf s) (cmod s) = Some (rbuf s, cmod s)" using c by (simp add: recv_step_def)
    then show ?thesis using ok by auto
  next
    case error
    let ?w = "set_client p (c\<lparr>need_to_restart_flag := 1\<rparr>) ((cmod s)\<lparr>os := o2\<rparr>)"
    have "e \<noteq> EINTR" using inp c(1) r error(2) by (auto simp: good_input_def)
    then have "recv_step api p (rbuf s) (cmod s) = Some (blit (rbuf s) 0 bs, ?w)"
      using c r error a(6) by (simp add: recv_step_def)
    moreover have "sys_ok p f (s\<lparr>cmod := ?w, rbuf := blit (rbuf s) 0 bs\<rparr>)"
      using a(7) b at_work_cong [OF aw]
      by (intro sys_ok_upd [OF ok a(1), where c' = "c\<lparr>need_to_restart_flag := 1\<rparr>"]) auto
    ultimately show ?thesis by auto
  next
    case data
    obtain ms rest where st: "split_frames package_ok (fifo_contents (recv_fifo c) @ bs) = (ms, rest, False)"
        "\<forall>m\<in>set ms. acceptable m"
      using inp c(1) r data(2) by (auto simp: good_input_def)
    obtain w' c' es' q where v: "recv_step api p (rbuf s) (cmod s) = Some (blit (rbuf s) 0 bs, w')"
        "w' = (set_client p c' (cmod s))\<lparr>heap := heap w', os := o2\<rparr>" "grows (heap (cmod s)) (heap w')"
        "client_ok (heap w') c' k cs es'"
        "c' = c\<lparr>recv_fifo := q, command_status := fold handle_status ms (command_status c)\<rparr>" "fifo_contents q = rest"
      using recv_step_ok [OF c a(2) data(1) a(6) law r data(2) a(8) st] by blast
    have "at_work (heap w') c' (posted s)"
      unfolding at_work_def using v(3-6) a(3-5) split_frames_rest [OF st(1)]
      by (intro conjI exI [of _ k] exI [of _ cs] exI [of _ es']) (auto simp: grows_def)
    moreover have "clients w' = (clients (cmod s))(p \<mapsto> c')" by (subst v(2)) simp
    ultimately have "sys_ok p f (s\<lparr>cmod := w', rbuf := blit (rbuf s) 0 bs\<rparr>)"
      using a(7) b v(5) by (intro sys_ok_upd [OF ok a(1)]) auto
    then show ?thesis using v(1) by auto
  qed
qed

lemma start_connection_result:
  assumes "clients w p = Some c"
  shows "\<exists>r n o2. start_connection api p w = Some (r, (set_client p (c\<lparr>socket_fd := n\<rparr>) w)\<lparr>os := o2\<rparr>)"
proof -
  obtain n o1 where 1: "os_socket api (os w) = (n, o1)" by (cases "os_socket api (os w)")
  obtain r o2 where 2: "os_connect api n (server_addr c) o1 = (r, o2)" by (cases "os_connect api n (server_addr c) o1")
  let ?w = "\<lambda>x. (set_client p (c\<lparr>socket_fd := n\<rparr>) w)\<lparr>os := x\<rparr>"
  have "start_connection api p w = Some (if n < 0 then (STUPID_P2P_ERROR_COMMOND, ?w o1)
      else if r \<noteq> 0 then (STUPID_P2P_ERROR_COMMOND, ?w (os_close api n o2)) else (STUPID_P2P_NO_ERROR, ?w o2))"
    using assms 1 2 by (simp add: start_connection_def)
  then show ?thesis by (cases "n < 0"; cases "r = 0"; simp; blast)
qed

lemma restart_keeps:
  assumes ok: "sys_ok p f s"
  shows "\<exists>g w. check_restart api p (cmod s) = Some (g, w) \<and> sys_ok p f (s\<lparr>cmod := w\<rparr>)"
proof -
  obtain c where a: "client_at p f (cmod s) c" "at_work (heap (cmod s)) c (posted s)"
      "length (rbuf s) = 4096" "length (sbuf s) = 2048"
    using ok by (auto simp: sys_ok_def)
  have c: "clients (cmod s) p = Some c" using client_at_find [OF a(1)] by simp
  show ?thesis
  proof (cases "need_to_restart_flag c = 0")
    case True
    then have "check_restart api p (cmod s) = Some (True, cmod s)" using c by (simp add: check_restart_def)
    then show ?thesis using ok by auto
  next
    case False
    let ?w = "(cmod s)\<lparr>os := os_close api (socket_fd c) (os (cmod s))\<rparr>"
    obtain r n o2 where r: "start_connection api p ?w = Some (r, (set_client p (c\<lparr>socket_fd := n\<rparr>) ?w)\<lparr>os := o2\<rparr>)"
      using start_connection_result [of ?w p c api] c by fastforce
    let ?c = "c\<lparr>socket_fd := n\<rparr>"
    let ?c' = "if r = STUPID_P2P_NO_ERROR then ?c\<lparr>need_to_restart_flag := 0,
        command_status := (command_status c)\<lparr>heart_beat_not_receive_num := 0\<rparr>\<rparr> else ?c"
    let ?w' = "(set_client p ?c' ?w)\<lparr>os := o2\<rparr>"
    have "check_restart api p (cmod s) = Some (r = STUPID_P2P_NO_ERROR, ?w')"
      using c False r by (simp add: check_restart_def Let_def)
    moreover have "sys_ok p f (s\<lparr>cmod := ?w'\<rparr>)"
      using a(3,4) at_work_cong [OF a(2)] by (intro sys_ok_upd [OF ok a(1), where c' = ?c']) auto
    ultimately show ?thesis by blast
  qed
qed

lemma count_heart_beat_frame:
  "fd (count_heart_beat r c) = fd c" "next_client (count_heart_beat r c) = next_client c"
  "recv_fifo (count_heart_beat r c) = recv_fifo c" "send_fifo (count_heart_beat r c) = send_fifo c"
  "recv_data_list (count_heart_beat r c) = recv_data_list c"
  by (simp_all add: count_heart_beat_def Let_def)

lemma beat_keeps:
  assumes ok: "sys_ok p f s" and c: "clients (cmod s) p = Some c"
  shows "sys_ok p f (s\<lparr>cmod := set_client p (count_heart_beat r c) (cmod s)\<rparr>)"
proof -
  obtain d where a: "client_at p f (cmod s) d" "at_work (heap (cmod s)) d (posted s)"
      "length (rbuf s) = 4096" "length (sbuf s) = 2048"
    using ok by (auto simp: sys_ok_def)
  have "d = c" using client_at_find [OF a(1)] c by simp
  then show ?thesis
    using a at_work_cong [OF a(2)] count_heart_beat_frame [of r c]
    by (intro sys_ok_upd [OF ok a(1), where c' = "count_heart_beat r c"]) auto
qed

text \<open>Fetching is defined while at most 1024 messages are waiting.\<close>

lemma fetch_keeps:
  assumes ok: "sys_ok p f s" and w: "stupid_p2p_recv_data f (cmod s) = Some (a, w)"
  shows "sys_ok p f (s\<lparr>cmod := w\<rparr>)"
proof -
  obtain c k cs es where s: "client_at p f (cmod s) c" "client_ok (heap (cmod s)) c k cs es" "posted s = k + length cs"
      "\<forall>x\<in>set cs. length (snd x) \<le> 257" "\<forall>k. \<not> oom (heap (cmod s)) k" "length (rbuf s) = 4096" "length (sbuf s) = 2048"
      "split_frames package_ok (fifo_contents (recv_fifo c)) = ([], fifo_contents (recv_fifo c), False)"
    using ok by (rule sys_okE)
  note find = client_at_find [OF s(1)]
  let ?h = "heap (cmod s)" and ?l = "recv_data_list c"
  have rq: "rq ?h ?l es" and sq: "sq ?h (send_fifo c) k cs" using s(2) by (simp_all add: client_ok_def)
  have h: "cheap_ok ?h" using rq by (simp add: rq_def)
  have num: "length es \<le> 1024"
  proof (rule ccontr)
    assume "\<not> length es \<le> 1024"
    let ?h1 = "?h\<lparr>store := (store ?h)(fresh ?h \<mapsto> CRecvBuf 0 0), fresh := fresh ?h + 1\<rparr>"
    have "cheap_ok ?h1" "fresh ?h \<noteq> 0" using h by (auto simp: cheap_ok_def less_Suc_eq)
    moreover then have "rq ?h1 ?l es" using rq_cong [OF rq, of ?h1] by auto
    ultimately show False
      using w find s(5) collect_data_overrun [of ?h1 ?l es "[]"] \<open>\<not> length es \<le> 1024\<close>
      by (simp add: stupid_p2p_recv_data_def alloc_def Let_def)
  qed
  obtain buf arr h' where r: "stupid_p2p_recv_data f (cmod s) = Some (buf, (cmod s)\<lparr>heap := h'\<rparr>)" "rq h' ?l []"
      "fresh ?h \<le> fresh h'" "oom h' = oom ?h" "\<forall>a < fresh ?h. \<not> is_node ?h a \<longrightarrow> store h' a = store ?h a"
    using recv_data_ok [of f "cmod s" p c es] find rq num s(5) by blast
  have "sq h' (send_fifo c) k cs"
  proof (rule sq_cong [OF sq])
    show "cheap_ok h'" "fresh ?h \<le> fresh h'" using r(2,3) by (simp_all add: rq_def)
    fix a m assume "(a, m) \<in> set cs"
    then have "a \<in> fst ` set cs" by force
    then show "store h' a = store ?h a" using r(5) sq_addr [OF sq] by blast
  next
    fix a assume "a < fresh ?h" "store ?h a = None"
    then show "store h' a = None" using r(5) by (simp add: is_node_def)
  qed
  then have "client_ok h' c k cs []" using s(2) r(2) by (simp add: client_ok_def)
  then have "at_work h' c (posted s)" using s(3-5,8) r(4) by (auto simp: at_work_def)
  moreover have "clients ((cmod s)\<lparr>heap := h'\<rparr>) = (clients (cmod s))(p \<mapsto> c)" using find by auto
  ultimately have "sys_ok p f (s\<lparr>cmod := (cmod s)\<lparr>heap := h'\<rparr>\<rparr>)"
    using s(6,7) by (intro sys_ok_upd [OF ok s(1), where c' = c]) auto
  then show ?thesis using w r(1) by simp
qed

lemma client_step_ok:
  assumes "recv_law api" "sys_ok p f s" "client_step api p f s t"
  shows "sys_ok p f t"
  using assms(3)
proof cases
  case (post len data command r w)
  then show ?thesis using post_keeps [OF assms(2) post(2,3), of command] by auto
next
  case (send b w)
  then show ?thesis using send_keeps [OF assms(2), of api] by auto
next
  case (recv b w)
  then show ?thesis using recv_keeps [OF assms(2,1) recv(2)] by auto
next
  case (restart g w)
  then show ?thesis using restart_keeps [OF assms(2), of api] by auto
next
  case (beat c r)
  then show ?thesis using beat_keeps [OF assms(2)] by simp
next
  case (fetch a w)
  then show ?thesis using fetch_keeps [OF assms(2)] by simp
next
  case (world x)
  then show ?thesis using assms(2) by (auto simp: sys_ok_def client_at_def)
qed

text \<open>
  The module before a client is created: the list is well-formed, its addresses are below
  \<open>fresh\<close>, its descriptors are at most the counter, and memory is available. A run starts with
  what \<^verbatim>\<open>stupid_p2p_init\<close> returns.
\<close>

definition module_ok :: "'o p2p_module \<Rightarrow> bool" where
  "module_ok w \<longleftrightarrow> cheap_ok (heap w) \<and> (\<forall>k. \<not> oom (heap w) k) \<and> 0 \<le> g_fd_start w \<and>
     (\<forall>q\<in>dom (clients w). q < fresh (heap w) \<and> fd_of (clients w) q \<le> g_fd_start w) \<and>
     (\<exists>ps. client_list (clients w) ps)"

definition client_start :: "'o os_api \<Rightarrow> addr \<Rightarrow> int \<Rightarrow> 'o client_sys \<Rightarrow> bool" where
  "client_start api p f s \<longleftrightarrow> os_up api \<and> rbuf s = replicate 4096 0 \<and> sbuf s = replicate 2048 0 \<and> posted s = 0 \<and>
     (\<exists>w server_ip server_port. module_ok w \<and> os_pton api server_ip \<noteq> None \<and> p = fresh (heap w) \<and>
        stupid_p2p_init api server_ip server_port w = Some (f, cmod s))"

lemma client_start_ok:
  assumes "client_start api p f s"
  shows "sys_ok p f s"
proof -
  obtain w ip port a where st: "os_up api" "rbuf s = replicate 4096 0" "sbuf s = replicate 2048 0" "posted s = 0"
      "module_ok w" "os_pton api ip = Some a" "p = fresh (heap w)" "stupid_p2p_init api ip port w = Some (f, cmod s)"
    using assms by (auto simp: client_start_def)
  obtain ps where ps: "client_list (clients w) ps" using st(5) by (auto simp: module_ok_def)
  obtain c where c: "f = g_fd_start w + 1" "client_list (clients (cmod s)) (ps @ [p])" "clients (cmod s) p = Some c"
      "fd c = f" "fifo_contents (recv_fifo c) = []" "client_ok (heap (cmod s)) c 0 [] []" "oom (heap (cmod s)) = oom (heap w)"
      "\<forall>y. y \<noteq> p \<longrightarrow> fd_of (clients (cmod s)) y = fd_of (clients w) y"
    using stupid_p2p_init_ok [OF ps _ _ _ st(1,6), of port] st(5,7,8) by (auto simp: module_ok_def)
  have "fd_of (clients (cmod s)) y \<noteq> f" if "y \<in> set (stupid_p2p_head # ps)" for y
  proof -
    have y: "y \<in> dom (clients w)" using client_list_mem [OF ps that] by blast
    then have "y \<noteq> p" "fd_of (clients w) y \<le> g_fd_start w" using st(5,7) by (auto simp: module_ok_def)
    then show ?thesis using c(1,8) by simp
  qed
  then have "client_at p f (cmod s) c"
    using c(1-4) st(5) unfolding client_at_def by (auto simp: module_ok_def)
  moreover have "at_work (heap (cmod s)) c 0"
    unfolding at_work_def using c(5-7) st(5) by (auto simp: split_frames_short module_ok_def)
  ultimately show ?thesis using st(2-4) by (auto simp: sys_ok_def)
qed

interpretation client: invariant_system "client_start api p f" "client_step api p f" "\<lambda>s. recv_law api \<longrightarrow> sys_ok p f s" for api p f
  by unfold_locales (use client_step_ok client_start_ok in auto)

lemma client_reachable_ok:
  "recv_law api \<Longrightarrow> client_start api p f s0 \<Longrightarrow> (client_step api p f)\<^sup>*\<^sup>* s0 s \<Longrightarrow> sys_ok p f s"
  using client.reachable_good by blast

end
