(* ===== verification/C_Demo.thy ===== *)
theory C_Demo
  imports Client_Guarantees C_Strings
begin

text \<open>
  \<^verbatim>\<open>API/C/test/main.c\<close>, the command line client on top of the C library: reading the arguments
  (\<open>parse_argv\<close>), one pass of its receive thread (\<open>recv_func_step\<close>), the input loop (\<open>chat_step\<close>, \<open>chat\<close>) and
  \<open>demo_main\<close>, which registers, waits for the other device, subscribes and chats. What is printed is the
  list the functions return; prompts and progress messages are left out. The other threads run while
  a call waits (\<open>env\<close>) and between two calls (\<open>gap\<close>). \<open>None\<close> is undefined behaviour.
\<close>

section \<open>Arguments\<close>

record client_t =
  server_ip :: bytes
  server_port :: int
  my_id :: bytes
  other_id :: bytes

definition g_client :: client_t where
  "g_client = \<lparr>server_ip = replicate 64 0, server_port = 0, my_id = replicate 256 0, other_id = replicate 256 0\<rparr>"

definition demo_options :: "byte list" where
  "demo_options = [115, 112, 109, 111]"

text \<open>The loop over the options, \<^verbatim>\<open>s\<close>, \<^verbatim>\<open>p\<close>, \<^verbatim>\<open>m\<close>, \<^verbatim>\<open>o\<close>; \<open>Inl\<close> is the early return.\<close>

fun parse_options :: "(byte \<times> bytes) list \<Rightarrow> client_t \<Rightarrow> (client_t + client_t) option" where
  "parse_options [] g = Some (Inr g)"
| "parse_options ((ch, optarg) # opts) g =
     (if ch = 115 then parse_options opts (g\<lparr>server_ip := c_snprintf (server_ip g) optarg\<rparr>)
      else if ch = 112 then
        (case c_atoi optarg of
           None \<Rightarrow> None
         | Some n \<Rightarrow> parse_options opts (g\<lparr>server_port := n\<rparr>))
      else if ch = 109 then parse_options opts (g\<lparr>my_id := c_snprintf (my_id g) optarg\<rparr>)
      else if ch = 111 then parse_options opts (g\<lparr>other_id := c_snprintf (other_id g) optarg\<rparr>)
      else Some (Inl g))"

definition parse_argv :: "bytes list \<Rightarrow> client_t \<Rightarrow> (int \<times> client_t) option" where
  "parse_argv args g = do {
     r \<leftarrow> parse_options (c_getopt demo_options args) g;
     (case r of
        Inl g \<Rightarrow> Some (- 1, g)
      | Inr g \<Rightarrow> do {
          a \<leftarrow> c_strlen (server_ip g);
          b \<leftarrow> c_strlen (my_id g);
          c \<leftarrow> c_strlen (other_id g);
          if a = 0 \<or> server_port g = 0 \<or> b = 0 \<or> c = 0 then Some (- 1, g) else Some (0, g) }) }"

section \<open>The receive thread\<close>

text \<open>
  The loop over the fetched messages: each is copied to the array \<^verbatim>\<open>data[2048]\<close> of the thread, terminated
  and printed up to its first zero byte.
\<close>

fun print_messages :: "addr list \<Rightarrow> bytes \<Rightarrow> cheap \<Rightarrow> (bytes list \<times> bytes) option" where
  "print_messages [] data h = Some ([], data)"
| "print_messages (r # rs) data h =
     (case store h r of
        Some (CRecv len p) \<Rightarrow>
          (case store h p of
             Some (CBytes bs) \<Rightarrow>
               if 0 \<le> len \<and> nat len \<le> length bs \<and> nat len < length data then
                 let data = blit data 0 (take (nat len) bs @ [0]) in
                 (case print_messages rs data h of
                    None \<Rightarrow> None
                  | Some (out, data') \<Rightarrow> Some (cstring data # out, data'))
               else None
           | _ \<Rightarrow> None)
      | _ \<Rightarrow> None)"

definition recv_func_step :: "int \<Rightarrow> bytes \<Rightarrow> 'o p2p_module \<Rightarrow> (bytes list \<times> bytes \<times> 'o p2p_module) option" where
  "recv_func_step f data w = do {
     (recv_data_buf, w) \<leftarrow> stupid_p2p_recv_data f w;
     if recv_data_buf = 0 then Some ([], data, w)
     else
       (case store (heap w) recv_data_buf of
          Some (CRecvBuf num arr) \<Rightarrow>
            (case store (heap w) arr of
               Some (CPtrs ps) \<Rightarrow> do {
                 assert_that (num \<le> int (length ps));
                 (out, data) \<leftarrow> print_messages (take (nat num) ps) data (heap w);
                 h \<leftarrow> stupid_p2p_free_recv_data_buf recv_data_buf (heap w);
                 Some (out, data, w\<lparr>heap := h\<rparr>) }
             | _ \<Rightarrow> None)
        | _ \<Rightarrow> None) }"

section \<open>The input loop\<close>

text \<open>
  One pass: read a line into \<^verbatim>\<open>send_buf[2048]\<close>, cut the newline, leave on \<^verbatim>\<open>quit\<close>, send what is not empty.
  The result of \<^verbatim>\<open>fgets\<close> is not tested: at the end of the input the buffer keeps the last line. The result of
  \<^verbatim>\<open>stupid_p2p_send_data\<close> is not tested either. The first component tells whether the loop goes on.
\<close>

definition chat_step ::
  "(nat \<Rightarrow> 'o p2p_module \<Rightarrow> 'o p2p_module) \<Rightarrow> int \<Rightarrow> bytes \<Rightarrow> bytes \<Rightarrow> 'o p2p_module \<Rightarrow> (bool \<times> bytes \<times> bytes \<times> 'o p2p_module) option" where
  "chat_step env f send_buf inp w = do {
     let (send_buf, inp) = (case c_fgets send_buf inp of Some x \<Rightarrow> x | None \<Rightarrow> (send_buf, inp));
     i \<leftarrow> c_strcspn_newline send_buf;
     let send_buf = send_buf[i := 0];
     quit \<leftarrow> c_streq send_buf (bytes_of ''quit'');
     if quit then Some (False, send_buf, inp, w)
     else do {
       n \<leftarrow> c_strlen send_buf;
       if n = 0 then Some (True, send_buf, inp, w)
       else do {
         (_, w) \<leftarrow> stupid_p2p_send_data env f send_buf (int n) w;
         Some (True, send_buf, inp, w) } } }"

text \<open>\<open>chat n\<close>: up to \<open>n\<close> passes; \<open>Inl\<close> when the loop is left, \<open>Inr\<close> while it still runs.\<close>

fun chat ::
  "(nat \<Rightarrow> nat \<Rightarrow> 'o p2p_module \<Rightarrow> 'o p2p_module) \<Rightarrow> (nat \<Rightarrow> 'o p2p_module \<Rightarrow> 'o p2p_module) \<Rightarrow> int \<Rightarrow> nat \<Rightarrow> bytes \<Rightarrow> bytes \<Rightarrow>
   'o p2p_module \<Rightarrow> ('o p2p_module + bytes \<times> bytes \<times> 'o p2p_module) option" where
  "chat env gap f 0 send_buf inp w = Some (Inr (send_buf, inp, w))"
| "chat env gap f (Suc n) send_buf inp w =
     (case chat_step (env n) f send_buf inp (gap n w) of
        None \<Rightarrow> None
      | Some (going, send_buf, inp, w) \<Rightarrow>
          if going then chat env gap f n send_buf inp w else Some (Inl w))"

section \<open>The program\<close>

datatype demo_call = Call_register | Call_check nat | Call_subscribe | Call_unsubscribe | Call_unregister

datatype 'w demo_result = Exit int 'w | Chatting 'w

text \<open>The loop that waits for the other device; the number is \<open>30 - loop\<close>.\<close>

fun check_alive ::
  "(demo_call \<Rightarrow> nat \<Rightarrow> 'o p2p_module \<Rightarrow> 'o p2p_module) \<Rightarrow> (demo_call \<Rightarrow> 'o p2p_module \<Rightarrow> 'o p2p_module) \<Rightarrow> int \<Rightarrow> bytes \<Rightarrow>
   nat \<Rightarrow> 'o p2p_module \<Rightarrow> (bool \<times> 'o p2p_module) option" where
  "check_alive env gap f device_id 0 w = Some (False, w)"
| "check_alive env gap f device_id (Suc n) w =
     (case stupid_p2p_check_device_alive (env (Call_check n)) f device_id (gap (Call_check n) w) of
        None \<Rightarrow> None
      | Some (ret, w) \<Rightarrow>
          if ret = STUPID_P2P_NO_ERROR then Some (True, w) else check_alive env gap f device_id n w)"

text \<open>
  The part behind the label \<^verbatim>\<open>end\<close>. \<^verbatim>\<open>recv_id\<close> is \<open>None\<close> until the receive thread has been created;
  \<^verbatim>\<open>pthread_cancel\<close> of such an id is undefined.
\<close>

definition demo_end ::
  "'o os_api \<Rightarrow> (demo_call \<Rightarrow> nat \<Rightarrow> 'o p2p_module \<Rightarrow> 'o p2p_module) \<Rightarrow> (demo_call \<Rightarrow> 'o p2p_module \<Rightarrow> 'o p2p_module) \<Rightarrow>
   nat option \<Rightarrow> int \<Rightarrow> client_t \<Rightarrow> 'o p2p_module \<Rightarrow> 'o p2p_module demo_result option" where
  "demo_end api env gap recv_id f g w = do {
     tid \<leftarrow> recv_id;
     let w = w\<lparr>os := os_join api tid (os_cancel api tid (os w))\<rparr>;
     (_, w) \<leftarrow> stupid_p2p_unsubscribe_device (env Call_unsubscribe) f (other_id g) (gap Call_unsubscribe w);
     (_, w) \<leftarrow> stupid_p2p_unregister_device (env Call_unregister) f (gap Call_unregister w);
     w \<leftarrow> stupid_p2p_deinit api f w;
     Some (Exit 0 w) }"

definition demo_chat ::
  "'o os_api \<Rightarrow> (demo_call \<Rightarrow> nat \<Rightarrow> 'o p2p_module \<Rightarrow> 'o p2p_module) \<Rightarrow> (demo_call \<Rightarrow> 'o p2p_module \<Rightarrow> 'o p2p_module) \<Rightarrow>
   (nat \<Rightarrow> nat \<Rightarrow> 'o p2p_module \<Rightarrow> 'o p2p_module) \<Rightarrow> (nat \<Rightarrow> 'o p2p_module \<Rightarrow> 'o p2p_module) \<Rightarrow> nat \<Rightarrow> bytes \<Rightarrow>
   int \<Rightarrow> client_t \<Rightarrow> 'o p2p_module \<Rightarrow> 'o p2p_module demo_result option" where
  "demo_chat api env gap cenv cgap passes inp f g w = do {
     let (ret, tid, o') = os_thread api (os w);
     let w = w\<lparr>os := o'\<rparr>;
     if ret \<noteq> 0 then demo_end api env gap None f g w
     else do {
       r \<leftarrow> chat cenv cgap f passes (replicate 2048 0) inp w;
       (case r of
          Inr (_, _, w) \<Rightarrow> Some (Chatting w)
        | Inl w \<Rightarrow> demo_end api env gap (Some tid) f g w) } }"

definition demo_main ::
  "'o os_api \<Rightarrow> (demo_call \<Rightarrow> nat \<Rightarrow> 'o p2p_module \<Rightarrow> 'o p2p_module) \<Rightarrow> (demo_call \<Rightarrow> 'o p2p_module \<Rightarrow> 'o p2p_module) \<Rightarrow>
   (nat \<Rightarrow> nat \<Rightarrow> 'o p2p_module \<Rightarrow> 'o p2p_module) \<Rightarrow> (nat \<Rightarrow> 'o p2p_module \<Rightarrow> 'o p2p_module) \<Rightarrow> nat \<Rightarrow> bytes \<Rightarrow>
   bytes list \<Rightarrow> 'o p2p_module \<Rightarrow> 'o p2p_module demo_result option" where
  "demo_main api env gap cenv cgap passes inp args w = do {
     (ret, g) \<leftarrow> parse_argv args g_client;
     if ret \<noteq> 0 then Some (Exit ret w)
     else do {
       (f, w) \<leftarrow> stupid_p2p_init api (cstring (server_ip g)) (server_port g) w;
       if f < 0 then Some (Exit f w)
       else do {
         (e, w) \<leftarrow> stupid_p2p_register_device (env Call_register) f (my_id g) (gap Call_register w);
         if int32_of_error e < 0 then demo_end api env gap None f g w
         else do {
           (alive, w) \<leftarrow> check_alive env gap f (other_id g) 30 w;
           if \<not> alive then demo_end api env gap None f g w
           else do {
             (e, w) \<leftarrow> stupid_p2p_subscribe_device (env Call_subscribe) f (other_id g) (gap Call_subscribe w);
             if e \<noteq> STUPID_P2P_NO_ERROR then demo_end api env gap None f g w
             else demo_chat api env gap cenv cgap passes inp f g w } } } } }"

section \<open>Lemmas\<close>

lemma cstring_cut: "cstring (m @ 0 # xs) = cstring m"
  by (simp add: cstring_def takeWhile_tail)

lemma print_messages_ok:
  assumes "list_all2 (\<lambda>r m. \<exists>b. holds_msg h r b m) rs ms" "\<forall>m\<in>set ms. length m < length data"
  shows "\<exists>data'. print_messages rs data h = Some (map cstring ms, data') \<and> length data' = length data"
  using assms
proof (induction rs ms arbitrary: data rule: list_all2_induct)
  case (Cons r rs m ms)
  then obtain b where b: "store h r = Some (CRecv (int (length m)) b)" "store h b = Some (CBytes m)" by auto
  let ?d = "blit data 0 (m @ [0])"
  have m: "length m < length data" using Cons.prems by simp
  then have l: "length ?d = length data" by (intro length_blit) simp
  obtain data' where d': "print_messages rs ?d h = Some (map cstring ms, data')" "length data' = length data"
    using Cons.IH [of ?d] Cons.prems l by auto
  have "cstring ?d = cstring m" by (simp add: blit_def cstring_cut)
  then show ?case using b m d' by (simp add: Let_def)
qed simp

lemma package_length:
  assumes "split_frames package_ok bs = (ms, rest, bad)" "m \<in> set ms"
  shows "length m \<le> 2048"
  using assms
proof (induction ms arbitrary: bs)
  case (Cons x ms)
  note f = split_frames_Cons [OF Cons.prems(1)]
  then have "length x \<le> 2048" by (auto simp: package_ok_def)
  then show ?case using Cons.IH f Cons.prems(2) by auto
qed simp

lemma received_length:
  assumes "split_frames package_ok bs = (ms, rest, bad)" "d \<in> set (concat (map received ms))"
  shows "length d < 2048"
proof -
  obtain m where "m \<in> set ms" "d = tl m" using assms(2) by (auto simp: received_def split: if_splits)
  then show ?thesis using package_length [OF assms(1), of m] by simp
qed

text \<open>A terminated line in the send buffer.\<close>

definition line_buf :: "bytes \<Rightarrow> bytes \<Rightarrow> bytes" where
  "line_buf s send_buf = (blit send_buf 0 (s @ [10, 0]))[length s := 0]"

lemma line_buf_cstring:
  assumes "0 \<notin> set s" "length s + 2 \<le> length send_buf"
  shows "cstring (line_buf s send_buf) = s" "is_cstring (line_buf s send_buf)" "take (length s) (line_buf s send_buf) = s"
    "length (line_buf s send_buf) = length send_buf"
proof -
  have "line_buf s send_buf = s @ 0 # 0 # drop (length s + 2) send_buf"
    by (simp add: line_buf_def blit_def list_update_append)
  then show "cstring (line_buf s send_buf) = s" "is_cstring (line_buf s send_buf)" "take (length s) (line_buf s send_buf) = s"
    using assms(1) by (simp_all add: cstring_append_zero is_cstring_def)
  show "length (line_buf s send_buf) = length send_buf" unfolding line_buf_def using assms(2) by simp
qed

lemma chat_step_line:
  assumes "0 \<notin> set s" "10 \<notin> set s" "s \<noteq> []" "s \<noteq> bytes_of ''quit''" "length s + 2 \<le> length send_buf"
  shows "chat_step env f send_buf (s @ 10 # inp) w =
    map_option (\<lambda>(_, w'). (True, line_buf s send_buf, inp, w'))
      (stupid_p2p_send_data env f (line_buf s send_buf) (int (length s)) w)"
proof -
  let ?b = "blit send_buf 0 (s @ [10, 0])"
  have r: "c_fgets send_buf (s @ 10 # inp) = Some (?b, inp)"
    using read_line_line [OF assms(2), of "length send_buf - 1" inp] assms(5) by (simp add: c_fgets_def)
  have "cstring ?b = s @ [10]" "is_cstring ?b"
    using assms(1) cstring_append_zero [of "s @ [10]"] by (simp_all add: blit_def is_cstring_def)
  moreover have "takeWhile (\<lambda>b. b \<noteq> 10) (s @ [10]) = s" using assms(2) by (auto simp: takeWhile_append)
  ultimately have i: "c_strcspn_newline ?b = Some (length s)" by (simp add: c_strcspn_newline_def)
  have b: "?b[length s := 0] = line_buf s send_buf" by (simp add: line_buf_def)
  show ?thesis
    using line_buf_cstring [OF assms(1,5)] assms(3,4) r i b
    by (auto simp: chat_step_def c_streq_def c_strlen_def Let_def split: option.splits bind_splits)
qed

lemma atoi_digits:
  assumes "ds \<noteq> []" "\<forall>d\<in>set ds. c_isdigit d" "digits_value ds < 2 ^ 31"
  shows "c_atoi ds = Some (digits_value ds)"
proof -
  obtain d ds' where d: "ds = d # ds'" using assms(1) by (cases ds) auto
  have nonneg: "0 \<le> foldl (\<lambda>n d. 10 * n + (uint d - 48)) n xs" if "\<forall>d\<in>set xs. c_isdigit d" "0 \<le> n" for n :: int and xs :: bytes
    using that by (induction xs arbitrary: n) (auto simp: c_isdigit_def word_le_def)
  have "\<not> c_isspace d" "d \<noteq> 45" "d \<noteq> 43"
    using assms(2) d by (auto simp: c_isdigit_def c_isspace_def word_le_def)
  moreover have "takeWhile c_isdigit ds' = ds'" using assms(2) d by (simp add: takeWhile_eq_all_conv)
  ultimately have "c_atoi ds = (if - (2 ^ 31) \<le> digits_value ds \<and> digits_value ds < 2 ^ 31 then Some (digits_value ds) else None)"
    using assms(2) d by (simp add: c_atoi_def Let_def del: takeWhile_eq_all_conv)
  moreover have "0 \<le> digits_value ds" unfolding digits_value_def using nonneg [OF assms(2)] by simp
  ultimately show ?thesis using assms(3) by simp
qed

section \<open>Properties\<close>

text \<open>
  Reading the arguments: the four options in any well-formed form of their values are stored, cut to the
  63 and 255 bytes the arrays hold, and the program goes on exactly if none of them is empty and the port is
  not zero.
\<close>

definition arrays_ok :: "client_t \<Rightarrow> bool" where
  "arrays_ok g \<longleftrightarrow> length (server_ip g) = 64 \<and> length (my_id g) = 256 \<and> length (other_id g) = 256"

lemma g_client_arrays: "arrays_ok g_client"
  by (simp add: arrays_ok_def g_client_def)

lemma demo_arguments:
  assumes "0 \<notin> set ip" "0 \<notin> set me" "0 \<notin> set other" "ds \<noteq> []" "\<forall>d\<in>set ds. c_isdigit d" "digits_value ds < 2 ^ 31"
    and "arrays_ok g0"
  shows "\<exists>g. parse_argv [bytes_of ''-s'', ip, bytes_of ''-p'', ds, bytes_of ''-m'', me, bytes_of ''-o'', other] g0 =
      Some (if ip = [] \<or> digits_value ds = 0 \<or> me = [] \<or> other = [] then - 1 else 0, g) \<and> arrays_ok g \<and>
    cstring (server_ip g) = take 63 ip \<and> server_port g = digits_value ds \<and>
    cstring (my_id g) = take 255 me \<and> cstring (other_id g) = take 255 other"
proof -
  let ?g = "\<lparr>server_ip = c_snprintf (server_ip g0) ip, server_port = digits_value ds,
     my_id = c_snprintf (my_id g0) me, other_id = c_snprintf (other_id g0) other\<rparr>"
  have o: "c_getopt demo_options [bytes_of ''-s'', ip, bytes_of ''-p'', ds, bytes_of ''-m'', me, bytes_of ''-o'', other] =
      [(115, ip), (112, ds), (109, me), (111, other)]"
    by (simp add: bytes_of_def is_option_def demo_options_def)
  have p: "parse_options [(115, ip), (112, ds), (109, me), (111, other)] g0 = Some (Inr ?g)"
    by (simp add: atoi_digits [OF assms(4-6)])
  have l: "length (server_ip g0) = 64" "length (my_id g0) = 256" "length (other_id g0) = 256"
    using assms(7) by (simp_all add: arrays_ok_def)
  have c: "cstring (server_ip ?g) = take 63 ip" "is_cstring (server_ip ?g)" "cstring (my_id ?g) = take 255 me"
    "is_cstring (my_id ?g)" "cstring (other_id ?g) = take 255 other" "is_cstring (other_id ?g)"
    using snprintf_cstring [of "server_ip g0" ip] snprintf_cstring [of "my_id g0" me]
      snprintf_cstring [of "other_id g0" other] assms(1-3) l by simp_all
  have n: "c_strlen (server_ip ?g) = Some (min 63 (length ip))" "c_strlen (my_id ?g) = Some (min 255 (length me))"
    "c_strlen (other_id ?g) = Some (min 255 (length other))"
    using c by (simp_all only: c_strlen_def if_True length_take min.commute)
  have "arrays_ok ?g" using l by (simp add: arrays_ok_def)
  moreover have "parse_argv [bytes_of ''-s'', ip, bytes_of ''-p'', ds, bytes_of ''-m'', me, bytes_of ''-o'', other] g0 =
      Some (if ip = [] \<or> digits_value ds = 0 \<or> me = [] \<or> other = [] then - 1 else 0, ?g)"
    unfolding parse_argv_def o p bind.bind_lunit sum.case n by (auto simp: min_def)
  ultimately show ?thesis using c by (intro exI [of _ ?g]) simp
qed

text \<open>
  C29. From the socket to the screen: after a pass of the client's receive thread over a stream of packages, a
  pass of the test program's receive thread is defined and prints the messages that were waiting and the new
  ones, in order, each up to its first zero byte. The array of 2048 bytes in which it terminates a message
  is large enough, because the parser takes no package of more than 2048 bytes.
\<close>

theorem demo_prints_received:
  assumes "sys_ok p f s" "recv_law api" "clients (cmod s) p = Some c" "need_to_restart_flag c = 0"
    and "os_recv api (socket_fd c) 4096 (os (cmod s)) = (ret, bs, e, o2)" "0 < ret"
    and "split_frames package_ok (fifo_contents (recv_fifo c) @ bs) = (ms, rest, False)" "\<forall>m\<in>set ms. acceptable m"
    and "waiting (heap (cmod s)) c old" "\<forall>m\<in>set old. length m < 2048" "length (old @ concat (map received ms)) \<le> 1024"
    and "length data = 2048"
  shows "\<exists>b w data' w'. recv_step api p (rbuf s) (cmod s) = Some (b, w) \<and>
    recv_func_step f data w = Some (map cstring (old @ concat (map received ms)), data', w') \<and> length data' = 2048"
proof -
  let ?all = "old @ concat (map received ms)"
  obtain b w c' where w: "recv_step api p (rbuf s) (cmod s) = Some (b, w)" "clients w p = Some c'" "waiting (heap w) c' ?all"
    using receive_stream [OF assms(1-9)] by blast
  have "good_input api p (cmod s)" unfolding good_input_def using assms(3,5-8) by auto
  then have ok: "sys_ok p f (s\<lparr>cmod := w, rbuf := b\<rparr>)" using recv_keeps [OF assms(1,2)] w(1) by auto
  obtain buf arr w1 h where r: "stupid_p2p_recv_data f w = Some (buf, w1)" "fetched (heap w1) buf arr ?all"
      "rq (heap w1) (recv_data_list c') []" "stupid_p2p_free_recv_data_buf buf (heap w1) = Some h"
    using fetch_free [OF ok, of c' ?all] w(2,3) assms(11) by auto
  then obtain rs where rs: "store (heap w1) buf = Some (CRecvBuf (int (length ?all)) arr)" "store (heap w1) arr = Some (CPtrs rs)"
      "list_all2 (\<lambda>r m. \<exists>b. holds_msg (heap w1) r b m) rs ?all"
    by (auto simp: fetched_def)
  have "buf \<noteq> 0" using rs(1) r(3) by (auto simp: rq_def cheap_ok_def)
  moreover have "\<forall>m\<in>set ?all. length m < length data"
    using assms(10,12) received_length [OF assms(7)] by auto
  then obtain data' where "print_messages rs data (heap w1) = Some (map cstring ?all, data')" "length data' = 2048"
    using print_messages_ok [OF rs(3), of data] assms(12) by metis
  ultimately show ?thesis
    using w(1) r(1,4) rs(1,2) list_all2_lengthD [OF rs(3)] by (simp add: recv_func_step_def)
qed

theorem demo_prints_received_witness:
  "\<exists>(s :: sim_os_state client_sys) b w data' w'. recv_step sim_os 2 (rbuf s) (cmod s) = Some (b, w) \<and>
    recv_func_step 1 (replicate 2048 0) w = Some ([[104]], data', w')"
proof -
  obtain s c where s: "sys_ok 2 1 s" "clients (cmod s) 2 = Some c" "need_to_restart_flag c = 0" "fifo_contents (recv_fifo c) = []"
      "waiting (heap (cmod s)) c []" "os_recv sim_os (socket_fd c) 4096 (os (cmod s)) =
      (14, [0, 0, 0, 2, 129, 1, 0, 0, 0, 2, 3, 104, 0, 0], 0, \<lparr>sim_out = [], sim_in = []\<rparr>)"
    by (rule ex_receiving)
  have f: "split_frames package_ok (fifo_contents (recv_fifo c) @ [0, 0, 0, 2, 129, 1, 0, 0, 0, 2, 3, 104, 0, 0]) = ([[129, 1], [3, 104]], [0, 0], False)"
    using ex_stream s(4) by simp
  have m: "concat (map received [[129, 1], [3, 104]]) = [[104]]" "cstring [104] = [104]"
    by (simp_all add: received_def cstring_def)
  have "length (replicate 2048 (0 :: byte)) = 2048" by (rule length_replicate)
  from demo_prints_received [OF s(1) sim_os_laws(1) s(2,3,6) _ f ex_stream_acceptable s(5) _ _ this] show ?thesis
    unfolding m by (simp add: m(2)) blast
qed

text \<open>
  C30. From the keyboard to the socket: a line of up to 256 bytes that is typed on a client with no pending commands
  is posted as one command; the loop goes on after at most 300 polls whatever the other threads do; and
  the next pass of the send thread gives the socket one frame with the bytes of the line.
\<close>

theorem demo_sends_line:
  assumes "0 \<notin> set s" "10 \<notin> set s" "s \<noteq> []" "s \<noteq> bytes_of ''quit''" "length s \<le> 256" "length send_buf = 2048"
    and "sys_ok p f st" "posted st < 8192" "clients (cmod st) p = Some c" "send_command_fifo_empty (send_fifo c)" "need_to_restart_flag c = 0"
    and "\<And>i w. clients w p \<noteq> None \<Longrightarrow> clients (env i w) p \<noteq> None"
  shows "\<exists>w k b w' buf. post_command f NET_SEND_DATA buf (int (length s)) (cmod st) = Some (Inr (p, Send_data), w) \<and>
    chat_step env f send_buf (s @ 10 # inp) (cmod st) = Some (True, buf, inp, run_env env k w) \<and> k \<le> 300 \<and>
    send_step api p (sbuf st) w = Some (b, w') \<and>
    os w' = snd (os_send api (socket_fd c) (frame (NET_SEND_DATA # s)) (os (cmod st)))"
proof -
  let ?b = "line_buf s send_buf"
  have room: "length s + 2 \<le> length send_buf" using assms(5,6) by simp
  note b = line_buf_cstring [OF assms(1) room]
  have r: "ready p st (length s) ?b" using assms(5,6,8,9,11) b(4) by (simp add: ready_def)
  have f: "command_flag NET_SEND_DATA = Some Send_data" by (simp add: command_flag_def const_simps)
  obtain w k where w: "post_command f NET_SEND_DATA ?b (int (length s)) (cmod st) = Some (Inr (p, Send_data), w)" "k \<le> 300"
      "need_to_send env f NET_SEND_DATA ?b (int (length s)) (cmod st) = Some (verdict (flag_at (run_env env k w) p Send_data), run_env env k w)"
    using need_to_send_polls [where env = env, OF assms(7) r f assms(12)] by auto
  obtain b' w' where "send_step api p (sbuf st) w = Some (b', w')"
      "os w' = snd (os_send api (socket_fd c) (frame (NET_SEND_DATA # take (length s) ?b)) (os (cmod st)))"
    using post_and_send [OF assms(7) r f assms(9-11), of api] w(1) by auto
  moreover have "chat_step env f send_buf (s @ 10 # inp) (cmod st) = Some (True, ?b, inp, run_env env k w)"
    using w(3) by (simp add: chat_step_line [OF assms(1-4) room] stupid_p2p_send_data_def)
  ultimately show ?thesis using w(1,2) b(3) by auto
qed

theorem demo_sends_line_witness:
  "\<exists>(st :: sim_os_state client_sys) w k b w' buf. chat_step (\<lambda>i w. w) 1 (replicate 2048 0) [104, 105, 10] (cmod st) = Some (True, buf, [], w) \<and>
     send_step sim_os 2 (sbuf st) w = Some (b, w') \<and> sim_out (os w') = sim_out (os (cmod st)) @ frame [3, 104, 105]"
proof -
  obtain st where st: "client_start sim_os 2 1 st" "sys_ok 2 1 st" by (rule ex_client)
  then have "posted st < 8192" by (simp add: client_start_def)
  moreover obtain c where c: "clients (cmod st) 2 = Some c" "need_to_restart_flag c = 0" "send_command_fifo_empty (send_fifo c)"
    by (rule client_start_client [OF st(1)])
  moreover have l: "length (replicate 2048 (0 :: byte)) = 2048" by (rule length_replicate)
  moreover have e: "run_env (\<lambda>i w. w) k w = w" for k and w :: "sim_os_state p2p_module" by (induction k) simp_all
  ultimately obtain w b w' buf where "chat_step (\<lambda>i w. w) 1 (replicate 2048 0) ([104, 105] @ 10 # []) (cmod st) = Some (True, buf, [], w)"
      "send_step sim_os 2 (sbuf st) w = Some (b, w')"
      "os w' = snd (os_send sim_os (socket_fd c) (frame (NET_SEND_DATA # [104, 105])) (os (cmod st)))"
    using demo_sends_line [of "[104, 105]" "replicate 2048 0" 2 1 st c "\<lambda>i w. w" "[]" sim_os, OF _ _ _ _ _ l st(2)]
    unfolding e by (auto simp: bytes_of_def)
  then show ?thesis by (force simp: sim_os_def const_simps)
qed

text \<open>
  C35. Input that is lost or repeated: a line of more than 256 bytes is refused by the library and not sent, and the
  loop goes on as if it had been; and at the end of the input the loop does not end, every further pass sends
  the last line again.
\<close>

theorem demo_input_faults:
  assumes "0 \<notin> set s" "10 \<notin> set s" "s \<noteq> []" "s \<noteq> bytes_of ''quit''" "length s + 2 \<le> length send_buf"
  shows "(256 < length s \<longrightarrow> chat_step env f send_buf (s @ 10 # inp) w = Some (True, line_buf s send_buf, inp, w)) \<and>
    chat_step env f (line_buf s send_buf) [] w =
      map_option (\<lambda>(_, w'). (True, line_buf s send_buf, [], w')) (stupid_p2p_send_data env f (line_buf s send_buf) (int (length s)) w)"
proof -
  note b = line_buf_cstring [OF assms(1,5)]
  have i: "takeWhile (\<lambda>b. b \<noteq> 10) s = s" using assms(2) by (auto simp: takeWhile_eq_all_conv)
  have u: "(line_buf s send_buf)[length s := 0] = line_buf s send_buf" by (simp add: line_buf_def)
  have "c_strcspn_newline (line_buf s send_buf) = Some (length s)" using b i by (simp add: c_strcspn_newline_def del: takeWhile_eq_all_conv)
  then have "chat_step env f (line_buf s send_buf) [] w =
      map_option (\<lambda>(_, w'). (True, line_buf s send_buf, [], w')) (stupid_p2p_send_data env f (line_buf s send_buf) (int (length s)) w)"
    using b assms(3,4) u
    by (auto simp: chat_step_def c_fgets_def c_streq_def c_strlen_def Let_def split: option.splits bind_splits)
  moreover have "stupid_p2p_send_data env f (line_buf s send_buf) (int (length s)) w = Some (STUPID_P2P_BAD_PARAM, w)" if "256 < length s"
    using that by (simp add: stupid_p2p_send_data_def need_to_send_def post_command_def)
  ultimately show ?thesis using chat_step_line [OF assms, of env f inp w] by auto
qed

theorem demo_input_faults_witness:
  "chat_step (\<lambda>i w. w) 1 (replicate 2048 0) (replicate 257 65 @ [10]) ex_module =
     Some (True, line_buf (replicate 257 65) (replicate 2048 0), [], ex_module)"
proof -
  have "0 \<notin> set (replicate 257 (65 :: byte))" "10 \<notin> set (replicate 257 (65 :: byte))" "256 < length (replicate 257 (65 :: byte))"
    "length (replicate 257 (65 :: byte)) + 2 \<le> length (replicate 2048 (0 :: byte))"
    unfolding set_replicate_conv_if length_replicate by simp_all
  moreover have "length (bytes_of ''quit'') = 4" by (simp add: bytes_of_def)
  then have "replicate 257 65 \<noteq> bytes_of ''quit''" by (metis length_replicate numeral_eq_iff num.distinct(1,3,5) num.inject)
  ultimately show ?thesis
    using demo_input_faults [of "replicate 257 65" "replicate 2048 0" "\<lambda>i w. w" 1 "[]" ex_module] by (metis length_greater_0_conv less_trans zero_less_numeral)
qed


end
