(* ===== verification/Py_Client.thy ===== *)
theory Py_Client
  imports P2P_Framing
begin

text \<open>
  \<^verbatim>\<open>API/Python/stupidP2P.py\<close>: the Python client. The receive thread (\<^verbatim>\<open>clientRecvThread\<close>) is a record
  with its deque, its table of answers and its queue of messages; one pass of its loop is
  \<open>recv_run_step\<close>. The client object (\<^verbatim>\<open>stupidP2PClient\<close>) is a record that refers to its current
  threads. \<open>None\<close> as the result of an operation is an exception that nothing catches
  (\<^verbatim>\<open>IndexError\<close> of a deque or list, \<^verbatim>\<open>OverflowError\<close> of \<^verbatim>\<open>to_bytes\<close>, \<^verbatim>\<open>UnicodeEncodeError\<close>,
  \<^verbatim>\<open>AttributeError\<close> of a field that is not set yet), or a restart that never succeeds.

  The socket is the parameter \<open>py_net\<close> on a state \<open>'o\<close>. While a command waits for its answer the
  other threads run: their effect during the \<open>i\<close>-th sleep is the parameter \<open>env i\<close>.
\<close>

section \<open>Constants\<close>

definition commandHeaderLength :: nat where
  [const_simps]: "commandHeaderLength = 0x4"

definition registerCommand :: nat where
  [const_simps]: "registerCommand = 0x01"

definition subscribeCommand :: nat where
  [const_simps]: "subscribeCommand = 0x02"

definition sendDataCommand :: nat where
  [const_simps]: "sendDataCommand = 0x03"

definition unregisterCommand :: nat where
  [const_simps]: "unregisterCommand = 0x04"

definition unsubscribeCommand :: nat where
  [const_simps]: "unsubscribeCommand = 0x05"

definition checkCommand :: nat where
  [const_simps]: "checkCommand = 0x06"

definition heartBeatCommand :: nat where
  [const_simps]: "heartBeatCommand = 0x07"

definition registerCommandResponse :: byte where
  [const_simps]: "registerCommandResponse = 0x81"

definition subscribeCommandResponse :: byte where
  [const_simps]: "subscribeCommandResponse = 0x82"

definition sendDataCommandResponse :: byte where
  [const_simps]: "sendDataCommandResponse = 0x83"

definition unregisterCommandResponse :: byte where
  [const_simps]: "unregisterCommandResponse = 0x84"

definition unsubscribeCommandResponse :: byte where
  [const_simps]: "unsubscribeCommandResponse = 0x85"

definition checkCommandResponse :: byte where
  [const_simps]: "checkCommandResponse = 0x86"

definition heartBeatCommandResponse :: byte where
  [const_simps]: "heartBeatCommandResponse = 0x87"

definition failResponse :: byte where
  [const_simps]: "failResponse = 0x0"

definition successResponse :: byte where
  [const_simps]: "successResponse = 0x1"

definition notReceiveResponse :: byte where
  [const_simps]: "notReceiveResponse = 0xff"

definition backIndexMax :: nat where
  [const_simps]: "backIndexMax = heartBeatCommand + 1"

definition recvDataQueue_maxsize :: nat where
  [const_simps]: "recvDataQueue_maxsize = 4096"

section \<open>The receive thread\<close>

text \<open>A \<^verbatim>\<open>collections.deque\<close>, written from its left end to its right end.\<close>

definition deque_extendleft :: "bytes \<Rightarrow> bytes \<Rightarrow> bytes" where
  "deque_extendleft q xs = rev xs @ q"

definition deque_extend :: "bytes \<Rightarrow> bytes \<Rightarrow> bytes" where
  "deque_extend q xs = q @ xs"

definition deque_pop :: "bytes \<Rightarrow> (byte \<times> bytes) option" where
  "deque_pop q = (if q = [] then None else Some (last q, butlast q))"

text \<open>\<^verbatim>\<open>for i in range(n): acc.append(q.pop())\<close>.\<close>

fun pop_n :: "nat \<Rightarrow> bytes \<Rightarrow> (bytes \<times> bytes) option" where
  "pop_n 0 q = Some ([], q)"
| "pop_n (Suc k) q = do {
     (b, q) \<leftarrow> deque_pop q;
     (bs, q) \<leftarrow> pop_n k q;
     Some (b # bs, q) }"

record clientRecvThread =
  recv_stop :: bool
  recv_sock :: nat
  recvDeque :: bytes
  commandResponse :: bytes
  recvDataQueue :: "bytes list"

definition clientRecvThread_init :: "nat \<Rightarrow> clientRecvThread" where
  "clientRecvThread_init sock =
     \<lparr>recv_stop = False, recv_sock = sock, recvDeque = [],
      commandResponse = replicate backIndexMax notReceiveResponse, recvDataQueue = []\<rparr>"

definition getCommandResponse :: "nat \<Rightarrow> bytes \<Rightarrow> (nat \<times> byte \<times> bytes) option" where
  "getCommandResponse nowPopLength q = do { (b, q) \<leftarrow> deque_pop q; Some (nowPopLength + 1, b, q) }"

text \<open>The chain of \<^verbatim>\<open>elif\<close> tests that chooses the entry of \<^verbatim>\<open>commandResponse\<close>.\<close>

definition response_index :: "byte \<Rightarrow> nat option" where
  "response_index command =
     (if command = registerCommandResponse then Some registerCommand
      else if command = subscribeCommandResponse then Some subscribeCommand
      else if command = sendDataCommandResponse then Some sendDataCommand
      else if command = unregisterCommandResponse then Some unregisterCommand
      else if command = unsubscribeCommandResponse then Some unsubscribeCommand
      else if command = checkCommandResponse then Some checkCommand
      else if command = heartBeatCommandResponse then Some heartBeatCommand
      else None)"

definition set_response :: "nat \<Rightarrow> byte \<Rightarrow> clientRecvThread \<Rightarrow> clientRecvThread option" where
  "set_response i b t =
     (if i < length (commandResponse t) then Some (t\<lparr>commandResponse := (commandResponse t)[i := b]\<rparr>) else None)"

definition get_response :: "nat \<Rightarrow> clientRecvThread \<Rightarrow> byte option" where
  "get_response i t = (if i < length (commandResponse t) then Some (commandResponse t ! i) else None)"

text \<open>
  What happens to a package after its command byte has been popped; the first component of
  the result is \<^verbatim>\<open>popLength\<close>.
\<close>

definition handleCommand :: "byte \<Rightarrow> nat \<Rightarrow> clientRecvThread \<Rightarrow> (nat \<times> clientRecvThread) option" where
  "handleCommand command headerLength t =
     (case response_index command of
        Some i \<Rightarrow> do {
          (popLength, r, q) \<leftarrow> getCommandResponse 1 (recvDeque t);
          t \<leftarrow> set_response i r (t\<lparr>recvDeque := q\<rparr>);
          Some (popLength, t) }
      | None \<Rightarrow>
          if unat command = sendDataCommand then do {
            (data, q) \<leftarrow> pop_n (headerLength - 1) (recvDeque t);
            let t = t\<lparr>recvDeque := q\<rparr>;
            Some (headerLength,
              if \<not> recvDataQueue_maxsize \<le> length (recvDataQueue t)
              then t\<lparr>recvDataQueue := recvDataQueue t @ [data]\<rparr> else t) }
          else Some (1, t))"

lemma pop_n_length: "pop_n k q = Some (bs, q') \<Longrightarrow> length q' + k = length q \<and> length bs = k"
  by (induction k arbitrary: q bs q') (auto simp: deque_pop_def bind_eq_Some_conv split: if_splits)

lemma handleCommand_length: "handleCommand b n t = Some (k, t') \<Longrightarrow> length (recvDeque t') \<le> length (recvDeque t)"
  by (auto simp: handleCommand_def getCommandResponse_def set_response_def deque_pop_def bind_eq_Some_conv Let_def
      split: option.splits if_splits dest!: pop_n_length)

text \<open>The inner loop of \<^verbatim>\<open>run\<close>: take packages off the deque while more than a header is there.\<close>

function parse_deque :: "clientRecvThread \<Rightarrow> clientRecvThread option" where
  "parse_deque t =
     (if length (recvDeque t) > commandHeaderLength then
        (case pop_n commandHeaderLength (recvDeque t) of
           None \<Rightarrow> None
         | Some (headerBytes, q) \<Rightarrow>
             let headerLength = unat (be_word headerBytes :: 32 word) in
             if length q \<ge> headerLength then
               (case deque_pop q of
                  None \<Rightarrow> None
                | Some (command, q) \<Rightarrow>
                    (case handleCommand command headerLength (t\<lparr>recvDeque := q\<rparr>) of
                       None \<Rightarrow> None
                     | Some (popLength, t) \<Rightarrow>
                         (case pop_n (headerLength - popLength) (recvDeque t) of
                            None \<Rightarrow> None
                          | Some (skipped, q) \<Rightarrow> parse_deque (t\<lparr>recvDeque := q\<rparr>))))
             else Some (t\<lparr>recvDeque := deque_extend q (le_bytes 4 (word_of_nat headerLength :: 32 word))\<rparr>))
      else Some t)"
  by pat_completeness auto
termination
  by (relation "measure (length \<circ> recvDeque)")
    (fastforce simp: deque_pop_def commandHeaderLength_def dest!: pop_n_length handleCommand_length split: if_splits)+

declare parse_deque.simps [simp del]

text \<open>What \<^verbatim>\<open>sock.recv\<close> gives: \<^verbatim>\<open>socket.timeout\<close>, another \<^verbatim>\<open>socket.error\<close>, or bytes.\<close>

datatype py_recvd = SockTimeout | SockError | Received bytes

record 'o py_net =
  py_socket :: "'o \<Rightarrow> nat \<times> 'o"
  py_connect :: "nat \<Rightarrow> nat list \<Rightarrow> int \<Rightarrow> 'o \<Rightarrow> bool \<times> 'o"
  py_sock_recv :: "nat \<Rightarrow> nat \<Rightarrow> 'o \<Rightarrow> py_recvd \<times> 'o"
  py_sock_send :: "nat \<Rightarrow> bytes \<Rightarrow> 'o \<Rightarrow> nat option \<times> 'o"
  py_sock_close :: "nat \<Rightarrow> 'o \<Rightarrow> 'o"

definition recv_run_step :: "'o py_net \<Rightarrow> clientRecvThread \<Rightarrow> 'o \<Rightarrow> (clientRecvThread \<times> 'o) option" where
  "recv_run_step api t w =
     (if recv_stop t then Some (t, w)
      else (case py_sock_recv api (recv_sock t) 1024 w of
              (SockTimeout, w) \<Rightarrow> Some (t, w)
            | (SockError, w) \<Rightarrow> Some (t, w)
            | (Received recvData, w) \<Rightarrow>
                let t = (if recvData \<noteq> [] then t\<lparr>recvDeque := deque_extendleft (recvDeque t) recvData\<rparr> else t) in
                map_option (\<lambda>t. (t, w)) (parse_deque t)))"

section \<open>Text as UTF-8\<close>

text \<open>\<^verbatim>\<open>bytes(s, encoding="UTF-8")\<close> on a string given by its code points; surrogates cannot be encoded.\<close>

definition utf8_char :: "nat \<Rightarrow> bytes option" where
  "utf8_char c =
     (if c < 0x80 then Some [byte_of_nat c]
      else if c < 0x800 then Some [byte_of_nat (0xC0 + c div 0x40), byte_of_nat (0x80 + c mod 0x40)]
      else if 0xD800 \<le> c \<and> c \<le> 0xDFFF then None
      else if c < 0x10000 then
        Some [byte_of_nat (0xE0 + c div 0x1000), byte_of_nat (0x80 + c div 0x40 mod 0x40), byte_of_nat (0x80 + c mod 0x40)]
      else if c < 0x110000 then
        Some [byte_of_nat (0xF0 + c div 0x40000), byte_of_nat (0x80 + c div 0x1000 mod 0x40),
              byte_of_nat (0x80 + c div 0x40 mod 0x40), byte_of_nat (0x80 + c mod 0x40)]
      else None)"

fun utf8 :: "nat list \<Rightarrow> bytes option" where
  "utf8 [] = Some []"
| "utf8 (c # cs) = do { x \<leftarrow> utf8_char c; xs \<leftarrow> utf8 cs; Some (x @ xs) }"

section \<open>The client object\<close>

record 'o stupidP2PClient =
  serverIp :: "nat list"
  serverPort :: int
  runningFlag :: int
  needToRestartFlag :: int
  notReceiveNum :: nat
  sock :: "nat option"
  recvThread :: "clientRecvThread option"
  checkNetThread :: "bool option"
  client_deviceId :: "nat list option"
  pyos :: 'o

definition stupidP2PClient_init :: "nat list \<Rightarrow> int \<Rightarrow> 'o \<Rightarrow> 'o stupidP2PClient" where
  "stupidP2PClient_init ip port w =
     \<lparr>serverIp = ip, serverPort = port, runningFlag = 0, needToRestartFlag = 0, notReceiveNum = 0,
      sock = None, recvThread = None, checkNetThread = None, client_deviceId = None, pyos = w\<rparr>"

text \<open>The stop event of a new \<^verbatim>\<open>clientCheckNetThread\<close> is clear.\<close>

definition clientCheckNetThread_init :: bool where
  "clientCheckNetThread_init = False"

definition initClient :: "'o py_net \<Rightarrow> 'o stupidP2PClient \<Rightarrow> bool \<times> 'o stupidP2PClient" where
  "initClient api c =
     (let (s, w) = py_socket api (pyos c);
          (up, w) = py_connect api s (serverIp c) (serverPort c) w;
          c = c\<lparr>sock := Some s, pyos := w\<rparr> in
      if \<not> up then (False, c)
      else (True, c\<lparr>recvThread := Some (clientRecvThread_init s),
                    checkNetThread := Some clientCheckNetThread_init, runningFlag := 1\<rparr>))"

text \<open>
  \<^verbatim>\<open>stopped()\<close> reads the event that \<^verbatim>\<open>stop()\<close> has just set, so the two waiting loops of
  \<^verbatim>\<open>deinitClient\<close> end at once.
\<close>

definition deinitClient :: "'o py_net \<Rightarrow> 'o stupidP2PClient \<Rightarrow> 'o stupidP2PClient option" where
  "deinitClient api c =
     (if runningFlag c \<noteq> 0 then do {
        let c = c\<lparr>runningFlag := 0\<rparr>;
        n \<leftarrow> checkNetThread c;
        let c = c\<lparr>checkNetThread := Some True\<rparr>;
        t \<leftarrow> recvThread c;
        let c = c\<lparr>recvThread := Some (t\<lparr>recv_stop := True\<rparr>)\<rparr>;
        s \<leftarrow> sock c;
        Some (c\<lparr>pyos := py_sock_close api s (pyos c)\<rparr>) }
      else Some c)"

partial_function (option) restart_loop :: "'o py_net \<Rightarrow> 'o stupidP2PClient \<Rightarrow> 'o stupidP2PClient option" where
  "restart_loop api c = do {
     c \<leftarrow> deinitClient api c;
     (ret, c) \<leftarrow> Some (initClient api c);
     if ret then Some (c\<lparr>needToRestartFlag := 0\<rparr>) else restart_loop api c }"

definition restartClient :: "'o py_net \<Rightarrow> 'o stupidP2PClient \<Rightarrow> 'o stupidP2PClient option" where
  "restartClient api c = restart_loop api c"

text \<open>\<^verbatim>\<open>__send\<close>: the number of bytes that \<^verbatim>\<open>sock.send\<close> accepted is not looked at.\<close>

definition send_command_bytes :: "'o py_net \<Rightarrow> bytes \<Rightarrow> 'o stupidP2PClient \<Rightarrow> 'o stupidP2PClient option" where
  "send_command_bytes api command c =
     (if length command < 2 ^ 32 then
        let commandSendBytes = be_bytes 4 (word_of_nat (length command) :: 32 word) @ command in
        if runningFlag c \<noteq> 0 \<and> needToRestartFlag c = 0 then do {
          s \<leftarrow> sock c;
          (case py_sock_send api s commandSendBytes (pyos c) of
             (Some n, w) \<Rightarrow> Some (c\<lparr>pyos := w\<rparr>)
           | (None, w) \<Rightarrow> Some (c\<lparr>pyos := w, needToRestartFlag := 1\<rparr>)) }
        else Some c
      else None)"

function wait_response ::
  "(nat \<Rightarrow> 'o stupidP2PClient \<Rightarrow> 'o stupidP2PClient) \<Rightarrow> nat \<Rightarrow> nat \<Rightarrow> 'o stupidP2PClient \<Rightarrow> 'o stupidP2PClient option" where
  "wait_response env command loop c = do {
     t \<leftarrow> recvThread c;
     r \<leftarrow> get_response command t;
     if r = notReceiveResponse then
       let c = env loop c in
       if loop > 300 then Some c else wait_response env command (loop + 1) c
     else Some c }"
  by pat_completeness auto
termination
  by (relation "measure (\<lambda>(env, command, loop, c). 301 - loop)") auto

declare wait_response.simps [simp del]

definition sendCommand ::
  "'o py_net \<Rightarrow> (nat \<Rightarrow> 'o stupidP2PClient \<Rightarrow> 'o stupidP2PClient) \<Rightarrow> nat \<Rightarrow> bytes \<Rightarrow> 'o stupidP2PClient \<Rightarrow>
   (byte \<times> 'o stupidP2PClient) option" where
  "sendCommand api env command data c =
     (if runningFlag c = 0 \<or> needToRestartFlag c = 1 then Some (failResponse, c)
      else do {
        t \<leftarrow> recvThread c;
        t \<leftarrow> set_response command notReceiveResponse t;
        c \<leftarrow> send_command_bytes api (word_of_nat command # data) (c\<lparr>recvThread := Some t\<rparr>);
        c \<leftarrow> wait_response env command 0 c;
        t \<leftarrow> recvThread c;
        r \<leftarrow> get_response command t;
        Some (r, c) })"

definition registerDevice where
  "registerDevice api env deviceId c = do {
     let c = c\<lparr>client_deviceId := Some deviceId\<rparr>;
     d \<leftarrow> utf8 deviceId;
     sendCommand api env registerCommand d c }"

definition subscribeDevice where
  "subscribeDevice api env subscribeDeviceId c = do {
     d \<leftarrow> utf8 subscribeDeviceId; sendCommand api env subscribeCommand d c }"

definition sendData where
  "sendData api env data c =
     (if length data = 0 then Some (failResponse, c)
      else do { d \<leftarrow> utf8 data; sendCommand api env sendDataCommand d c })"

definition unregisterDevice where
  "unregisterDevice api env c = sendCommand api env unregisterCommand [] c"

definition unscribeDevice where
  "unscribeDevice api env unscriveDeviceId c = do {
     d \<leftarrow> utf8 unscriveDeviceId; sendCommand api env unsubscribeCommand d c }"

definition checkDeviceAlive where
  "checkDeviceAlive api env checkDeviceId c = do {
     d \<leftarrow> utf8 checkDeviceId; sendCommand api env checkCommand d c }"

fun drain :: "bytes list \<Rightarrow> bytes list \<Rightarrow> bytes list \<times> bytes list" where
  "drain dataList [] = (dataList, [])"
| "drain dataList (d # queue) = drain (dataList @ [d]) queue"

definition recvData :: "'o stupidP2PClient \<Rightarrow> (bytes list \<times> 'o stupidP2PClient) option" where
  "recvData c =
     (if needToRestartFlag c = 0 \<or> runningFlag c = 1 then do {
        t \<leftarrow> recvThread c;
        let (dataList, queue) = drain [] (recvDataQueue t);
        Some (dataList, c\<lparr>recvThread := Some (t\<lparr>recvDataQueue := queue\<rparr>)\<rparr>) }
      else Some ([], c))"

definition heartBeat ::
  "'o py_net \<Rightarrow> (nat \<Rightarrow> 'o stupidP2PClient \<Rightarrow> 'o stupidP2PClient) \<Rightarrow> 'o stupidP2PClient \<Rightarrow>
   (byte \<times> 'o stupidP2PClient) option" where
  "heartBeat api env c = do {
     (ret, c) \<leftarrow> sendCommand api env heartBeatCommand [] c;
     let c = (if ret = notReceiveResponse then c\<lparr>notReceiveNum := notReceiveNum c + 1\<rparr> else c);
     c \<leftarrow> (if notReceiveNum c > 2 \<or> needToRestartFlag c \<noteq> 0
          then restartClient api (c\<lparr>notReceiveNum := 0\<rparr>) else Some c);
     Some (ret, c) }"

text \<open>One pass of \<^verbatim>\<open>clientCheckNetThread.run\<close>; \<open>stopped\<close> is the event of the thread that runs it.\<close>

definition checkNet_run_step where
  "checkNet_run_step api env stopped c = (if stopped then Some c else map_option snd (heartBeat api env c))"

end
