(* ===== verification/Py_Proofs.thy ===== *)
theory Py_Proofs
  imports Py_Client
begin

text \<open>
  What the Python client does. The deque is a byte stream read from its right end (the
  interpretation \<open>py_deque\<close>), the inner loop of the receive thread implements \<open>split_frames\<close>
  followed by \<open>py_handle\<close> for every package, the table of answers and the bounded queue keep
  their sizes (\<open>thread_ok\<close>).
\<close>

section \<open>The deque as a byte stream\<close>

lemma deque_pop_rev: "deque_pop (rev xs) = (case xs of [] \<Rightarrow> None | b # bs \<Rightarrow> Some (b, rev bs))"
  by (cases xs) (auto simp: deque_pop_def)

lemma pop_n_rev: "pop_n k (rev xs) = (if k \<le> length xs then Some (take k xs, rev (drop k xs)) else None)"
  by (induction k arbitrary: xs) (auto simp: deque_pop_rev split: list.splits)

lemma pop_n_eq: "pop_n k q = (if k \<le> length q then Some (take k (rev q), rev (drop k (rev q))) else None)"
  using pop_n_rev [of k "rev q"] by simp

text \<open>Pushing the header back in little-endian order restores the stream.\<close>

lemma push_back: "length hb = 4 \<Longrightarrow> deque_extend q (le_bytes 4 (word_of_nat (unat (be_word hb :: 32 word)) :: 32 word)) = q @ rev hb"
  using be_bytes_be_word [of 4 hb, where 'a = 32] by (simp add: deque_extend_def be_bytes_def rev_swap)

interpretation py_deque: byte_stream "\<lambda>q. True" rev length "\<lambda>n q. True" "\<lambda>bs q. Some (deque_extendleft q bs)"
  "\<lambda>n q. map_option snd (pop_n n q)" "\<lambda>q. be_word (fst (the (pop_n 4 q)))"
  by unfold_locales (auto simp: deque_extendleft_def pop_n_eq)

section \<open>One package\<close>

definition thread_ok :: "clientRecvThread \<Rightarrow> bool" where
  "thread_ok t \<longleftrightarrow> length (commandResponse t) = backIndexMax \<and> length (recvDataQueue t) \<le> recvDataQueue_maxsize"

definition py_package_ok :: "int \<Rightarrow> bool" where
  "py_package_ok len \<longleftrightarrow> 1 \<le> len"

definition py_acceptable :: "bytes \<Rightarrow> bool" where
  "py_acceptable m \<longleftrightarrow> (response_index (hd m) \<noteq> None \<longrightarrow> 2 \<le> length m)"

definition py_handle :: "bytes \<Rightarrow> clientRecvThread \<Rightarrow> clientRecvThread" where
  "py_handle m t =
     (case response_index (hd m) of
        Some i \<Rightarrow> t\<lparr>commandResponse := (commandResponse t)[i := m ! 1]\<rparr>
      | None \<Rightarrow> if hd m = 3 \<and> length (recvDataQueue t) < recvDataQueue_maxsize
               then t\<lparr>recvDataQueue := recvDataQueue t @ [tl m]\<rparr> else t)"

lemma response_index_less: "response_index b = Some i \<Longrightarrow> i < backIndexMax"
  by (auto simp: response_index_def const_simps split: if_splits)

lemma thread_ok_init [simp]: "thread_ok (clientRecvThread_init s)"
  by (simp add: thread_ok_def clientRecvThread_init_def)

lemma thread_ok_handle: "thread_ok t \<Longrightarrow> thread_ok (py_handle m t)"
  by (auto simp: thread_ok_def py_handle_def split: option.splits)

lemma thread_ok_fold: "thread_ok t \<Longrightarrow> thread_ok (fold py_handle ms t)"
  by (induction ms arbitrary: t) (auto intro: thread_ok_handle)

lemma thread_ok_deque [simp]: "thread_ok (t\<lparr>recvDeque := q\<rparr>) = thread_ok t"
  by (simp add: thread_ok_def)

lemma py_handle_deque [simp]:
  "py_handle m (t\<lparr>recvDeque := q\<rparr>) = (py_handle m t)\<lparr>recvDeque := q\<rparr>"
  "recvDeque (py_handle m t) = recvDeque t" "recv_stop (py_handle m t) = recv_stop t" "recv_sock (py_handle m t) = recv_sock t"
  by (auto simp: py_handle_def split: option.splits)

lemma fold_py_handle_deque [simp]:
  "fold py_handle ms (t\<lparr>recvDeque := q\<rparr>) = (fold py_handle ms t)\<lparr>recvDeque := q\<rparr>"
  "recvDeque (fold py_handle ms t) = recvDeque t" "recv_stop (fold py_handle ms t) = recv_stop t"
  "recv_sock (fold py_handle ms t) = recv_sock t"
  by (induction ms arbitrary: t) auto

text \<open>After the command byte: the rest of the package is consumed, whatever the command is.\<close>

lemma handleCommand_ok:
  assumes t: "thread_ok t" and d: "recvDeque t = rev (tl m @ rest)" and m: "m \<noteq> []" "py_acceptable m"
  shows "\<exists>k t'. handleCommand (hd m) (length m) t = Some (k, t') \<and>
     pop_n (length m - k) (recvDeque t') = Some (drop k m, rev rest) \<and> t'\<lparr>recvDeque := rev rest\<rparr> = (py_handle m t)\<lparr>recvDeque := rev rest\<rparr>"
proof (cases "response_index (hd m)")
  case (Some i)
  then obtain a b bs where m2: "m = a # b # bs" using m by (cases m; cases "tl m") (auto simp: py_acceptable_def)
  have q: "recvDeque t = rev (b # bs @ rest)" using d m2 by simp
  let ?t' = "t\<lparr>recvDeque := rev (bs @ rest), commandResponse := (commandResponse t)[i := b]\<rparr>"
  have "i < length (commandResponse t)" using t response_index_less [OF Some] by (simp add: thread_ok_def)
  then have "handleCommand (hd m) (length m) t = Some (2, ?t')"
    unfolding handleCommand_def Some getCommandResponse_def q deque_pop_rev by (simp add: set_response_def)
  moreover have "pop_n (length m - 2) (recvDeque ?t') = Some (drop 2 m, rev rest)"
    using pop_n_rev [of "length bs" "bs @ rest"] by (simp add: m2 numeral_2_eq_2)
  ultimately show ?thesis using Some m2 by (auto simp: py_handle_def)
next
  case None
  show ?thesis
  proof (cases "unat (hd m) = sendDataCommand")
    case True
    then have h: "hd m = 3" by (simp add: const_simps word_unat_eq_iff)
    have "pop_n (length m - 1) (recvDeque t) = Some (tl m, rev rest)"
      using m pop_n_rev [of "length m - 1" "tl m @ rest"] by (simp add: d)
    moreover have "pop_n (length m - length m) (rev rest) = Some (drop (length m) m, rev rest)" by simp
    ultimately show ?thesis using None True h
      by (cases "recvDataQueue_maxsize \<le> length (recvDataQueue t)")
        (force simp: handleCommand_def py_handle_def Let_def const_simps)+
  next
    case False
    then have h: "hd m \<noteq> 3" by (auto simp: const_simps)
    have "pop_n (length m - 1) (recvDeque t) = Some (drop 1 m, rev rest)"
      using m pop_n_rev [of "length m - 1" "tl m @ rest"] by (simp add: d drop_Suc)
    then show ?thesis using None False h by (auto simp: handleCommand_def py_handle_def)
  qed
qed

section \<open>The parse loop\<close>

lemma unat_sint:
  assumes "0 \<le> sint (w :: 32 word)"
  shows "unat w = nat (sint w)"
proof -
  have b: "nat (sint w) < 2 ^ 31" using sint_lt [of w] assms by simp
  have "w = word_of_int (int (nat (sint w)))" using assms by simp
  then have "w = word_of_nat (nat (sint w))" by (metis of_int_of_nat_eq)
  then have "unat w = unat (word_of_nat (nat (sint w)) :: 32 word)" by simp
  also have "\<dots> = nat (sint w)" using b by (simp add: unat_of_nat)
  finally show ?thesis .
qed

lemma parse_deque_step:
  assumes t: "thread_ok t" and d: "recvDeque t = rev (hb @ m @ rest)" and hb: "length hb = 4" "unat (be_word hb :: 32 word) = length m"
    and m: "m \<noteq> []" "py_acceptable m"
  shows "parse_deque t = parse_deque ((py_handle m t)\<lparr>recvDeque := rev rest\<rparr>)"
proof -
  have p4: "pop_n commandHeaderLength (recvDeque t) = Some (hb, rev (m @ rest))"
    using hb(1) pop_n_rev [of 4 "hb @ m @ rest"] by (simp add: d const_simps)
  have p1: "deque_pop (rev (m @ rest)) = Some (hd m, rev (tl m @ rest))"
    using m(1) deque_pop_rev [of "m @ rest"] by (cases m) auto
  let ?t1 = "t\<lparr>recvDeque := rev (tl m @ rest)\<rparr>"
  obtain k t' where h: "handleCommand (hd m) (length m) ?t1 = Some (k, t')"
      "pop_n (length m - k) (recvDeque t') = Some (drop k m, rev rest)"
      "t'\<lparr>recvDeque := rev rest\<rparr> = (py_handle m ?t1)\<lparr>recvDeque := rev rest\<rparr>"
    using handleCommand_ok [of ?t1 m rest] t m by auto
  have l: "length (recvDeque t) > commandHeaderLength" using m hb by (simp add: commandHeaderLength_def d)
  show ?thesis
    using h by (simp add: parse_deque.simps [of t] l p4 hb p1 Let_def del: rev_append)
qed

lemma parse_deque_ok:
  assumes "thread_ok t" "split_frames py_package_ok (rev (recvDeque t)) = (ms, rest, False)" "\<forall>m\<in>set ms. py_acceptable m"
  shows "parse_deque t = Some ((fold py_handle ms t)\<lparr>recvDeque := rev rest\<rparr>)"
  using assms
proof (induction ms arbitrary: t)
  case Nil
  let ?bs = "rev (recvDeque t)"
  have bs: "rest = ?bs" "length ?bs < 4 \<or> 4 \<le> length ?bs \<and> 0 \<le> header ?bs \<and> length ?bs < 4 + nat (header ?bs)"
    using split_frames_Nil [OF Nil.prems(2)] by auto
  have "pop_n commandHeaderLength (recvDeque t) = Some (take 4 ?bs, rev (drop 4 ?bs))" if "4 \<le> length ?bs"
    using that by (simp add: pop_n_eq const_simps)
  moreover have "unat (be_word (take 4 ?bs) :: 32 word) = nat (header ?bs)" if "0 \<le> header ?bs"
    using unat_sint [of "be_word (take 4 ?bs)"] that by (simp add: header_def)
  moreover have "deque_extend (rev (drop 4 ?bs)) (le_bytes 4 (word_of_nat (unat (be_word (take 4 ?bs) :: 32 word)) :: 32 word)) = recvDeque t"
    if "4 \<le> length ?bs"
    using that push_back [of "take 4 ?bs" "rev (drop 4 ?bs)"] by (metis append_take_drop_id length_take min.absorb2 rev_append rev_rev_ident)
  ultimately have "parse_deque t = Some t"
    using bs(2) by (auto simp: parse_deque.simps [of t] commandHeaderLength_def Let_def)
  then show ?case using bs(1) by simp
next
  case (Cons m ms)
  let ?bs = "rev (recvDeque t)" and ?n = "nat (header (rev (recvDeque t)))"
  have f: "4 \<le> length ?bs" "0 \<le> header ?bs" "1 \<le> header ?bs" "4 + ?n \<le> length ?bs"
      "m = take ?n (drop 4 ?bs)" "split_frames py_package_ok (drop (4 + ?n) ?bs) = (ms, rest, False)"
    using split_frames_Cons [OF Cons.prems(2)] unfolding py_package_ok_def [of "header ?bs"] by blast+
  let ?rest = "drop (4 + ?n) ?bs"
  have m: "m \<noteq> []" "length m = ?n" "py_acceptable m" using f Cons.prems(3) by auto
  have "?bs = take 4 ?bs @ m @ ?rest" using f(4,5) by (metis add.commute append_take_drop_id drop_drop)
  then have "recvDeque t = rev (take 4 ?bs @ m @ ?rest)" by (metis rev_rev_ident)
  moreover have "unat (be_word (take 4 ?bs) :: 32 word) = length m"
    using unat_sint [of "be_word (take 4 ?bs)"] f(2) m(2) by (simp add: header_def)
  ultimately have "parse_deque t = parse_deque ((py_handle m t)\<lparr>recvDeque := rev ?rest\<rparr>)"
    using parse_deque_step [OF Cons.prems(1) _ _ _ m(1,3)] f(1) by simp
  also have "\<dots> = Some ((fold py_handle (m # ms) t)\<lparr>recvDeque := rev rest\<rparr>)"
    using Cons.IH [of "(py_handle m t)\<lparr>recvDeque := rev ?rest\<rparr>"] Cons.prems(1,3) f(6) by (simp add: thread_ok_handle)
  finally show ?case .
qed

text \<open>An answer package without its status byte at the end of the stream raises \<^verbatim>\<open>IndexError\<close>.\<close>

lemma parse_deque_short_answer:
  assumes b: "response_index b \<noteq> None"
  shows "parse_deque (t\<lparr>recvDeque := rev (frame [b])\<rparr>) = None"
proof -
  have f: "frame [b] = be_bytes 4 (1 :: 32 word) @ [b]" by (simp add: frame_def)
  have p: "pop_n commandHeaderLength (rev (frame [b])) = Some (be_bytes 4 (1 :: 32 word), [b])"
    unfolding f pop_n_rev by (simp add: const_simps)
  have q: "deque_pop [b] = Some (b, [])" "deque_pop [] = None" by (simp_all add: deque_pop_def)
  have "handleCommand b 1 (t\<lparr>recvDeque := []\<rparr>) = None"
    using b by (auto simp: handleCommand_def getCommandResponse_def q)
  moreover have "commandHeaderLength < length (recvDeque (t\<lparr>recvDeque := rev (frame [b])\<rparr>))" by (simp add: const_simps)
  ultimately show ?thesis using p q by (simp add: parse_deque.simps [of "t\<lparr>recvDeque := rev (frame [b])\<rparr>"])
qed

section \<open>One pass of the receive thread\<close>

lemma recv_run_step_ok:
  assumes t: "thread_ok t" "\<not> recv_stop t" and r: "py_sock_recv api (recv_sock t) 1024 w = (Received bs, w')"
    and s: "split_frames py_package_ok (rev (recvDeque t) @ bs) = (ms, rest, False)" "\<forall>m\<in>set ms. py_acceptable m"
  shows "recv_run_step api t w = Some ((fold py_handle ms t)\<lparr>recvDeque := rev rest\<rparr>, w')"
proof -
  let ?t = "t\<lparr>recvDeque := rev bs @ recvDeque t\<rparr>"
  have "parse_deque ?t = Some ((fold py_handle ms t)\<lparr>recvDeque := rev rest\<rparr>)"
    using parse_deque_ok [of ?t ms rest] t s by simp
  moreover have "(if bs \<noteq> [] then t\<lparr>recvDeque := deque_extendleft (recvDeque t) bs\<rparr> else t) = ?t"
    by (simp add: deque_extendleft_def)
  ultimately show ?thesis using t(2) r by (simp add: recv_run_step_def)
qed

text \<open>Without bytes nothing changes: an end of file leaves the thread as it is.\<close>

lemma recv_run_step_idle:
  assumes "recv_stop t \<or> fst (py_sock_recv api (recv_sock t) 1024 w) \<in> {SockTimeout, SockError}"
  shows "map_option fst (recv_run_step api t w) = Some t"
  using assms by (auto simp: recv_run_step_def split: prod.splits)

section \<open>Answers and messages\<close>

text \<open>The last answer to a command decides its entry; messages arrive in order until the queue is full.\<close>

definition answers :: "nat \<Rightarrow> bytes list \<Rightarrow> bytes" where
  "answers i ms = map (\<lambda>m. m ! 1) (filter (\<lambda>m. response_index (hd m) = Some i) ms)"

definition data_messages :: "bytes list \<Rightarrow> bytes list" where
  "data_messages ms = map tl (filter (\<lambda>m. hd m = 3) ms)"

lemma response_index_3 [simp]: "response_index 3 = None"
  by (simp add: response_index_def const_simps)

lemma fold_answers:
  assumes "thread_ok t" "i < backIndexMax"
  shows "commandResponse (fold py_handle ms t) ! i = last (commandResponse t ! i # answers i ms)"
  using assms
proof (induction ms arbitrary: t)
  case Nil
  then show ?case by (simp add: answers_def)
next
  case (Cons m ms)
  have "commandResponse (py_handle m t) ! i = (if response_index (hd m) = Some i then m ! 1 else commandResponse t ! i)"
    using Cons.prems by (auto simp: py_handle_def thread_ok_def nth_list_update split: option.splits)
  then show ?case using Cons.IH [OF thread_ok_handle [OF Cons.prems(1)] Cons.prems(2), of m] by (simp add: answers_def)
qed

lemma fold_messages:
  assumes "thread_ok t"
  shows "recvDataQueue (fold py_handle ms t) = take recvDataQueue_maxsize (recvDataQueue t @ data_messages ms)"
  using assms
proof (induction ms arbitrary: t)
  case Nil
  then show ?case by (simp add: data_messages_def thread_ok_def)
next
  case (Cons m ms)
  have q: "length (recvDataQueue t) \<le> recvDataQueue_maxsize" using Cons.prems by (simp add: thread_ok_def)
  have step: "recvDataQueue (py_handle m t) = take recvDataQueue_maxsize (recvDataQueue t @ data_messages [m])"
    using q by (auto simp: py_handle_def data_messages_def split: option.splits)
  have d: "data_messages (m # ms) = data_messages [m] @ data_messages ms" by (simp add: data_messages_def)
  have t: "take n (take n xs @ ys) = take n (xs @ ys)" if "n \<le> length xs \<or> take n xs = xs" for n and xs ys :: "bytes list"
    using that by auto
  have "take recvDataQueue_maxsize (recvDataQueue (py_handle m t) @ data_messages ms)
      = take recvDataQueue_maxsize (recvDataQueue t @ data_messages (m # ms))"
    using t [of recvDataQueue_maxsize "recvDataQueue t @ data_messages [m]" "data_messages ms"]
    by (simp add: step d not_le [symmetric] del: take_append) (metis le_cases take_all)
  then show ?case using Cons.IH [OF thread_ok_handle [OF Cons.prems], of m] by simp
qed

end
