(* ===== verification/Py_Client_Proofs.thy ===== *)
theory Py_Client_Proofs
  imports Py_Proofs
begin

text \<open>
  The methods of the Python client on a client whose threads exist: a command writes one frame
  to the socket and returns after at most 302 sleeps, fetching empties the queue in order, a
  restart returns exactly when some attempt to connect succeeds, and no method of a started
  client raises an exception. The last fact is carried to all interleavings by \<open>py_step\<close>.
\<close>

section \<open>A started client\<close>

definition py_ok :: "'o stupidP2PClient \<Rightarrow> bool" where
  "py_ok c \<longleftrightarrow> runningFlag c \<in> {0, 1} \<and> needToRestartFlag c \<in> {0, 1} \<and> (runningFlag c = 1 \<longrightarrow> recvThread c \<noteq> None) \<and>
     (\<forall>t. recvThread c = Some t \<longrightarrow> sock c \<noteq> None \<and> checkNetThread c \<noteq> None \<and> thread_ok t)"

definition py_started :: "'o stupidP2PClient \<Rightarrow> bool" where
  "py_started c \<longleftrightarrow> py_ok c \<and> recvThread c \<noteq> None"

lemma py_startedE:
  assumes "py_started c"
  obtains t s n where "recvThread c = Some t" "thread_ok t" "sock c = Some s" "checkNetThread c = Some n"
  using assms by (auto simp: py_started_def py_ok_def)

definition response_of :: "nat \<Rightarrow> 'o stupidP2PClient \<Rightarrow> byte" where
  "response_of i c = (case recvThread c of Some t \<Rightarrow> commandResponse t ! i | None \<Rightarrow> 0)"

lemma wait_response_spec:
  assumes env: "\<And>j. py_started (run_env env j c)" and i: "i < backIndexMax" and k: "k \<le> 301"
  shows "\<exists>n. k \<le> n \<and> n \<le> 302 \<and> wait_response env i k (run_env env k c) = Some (run_env env n c) \<and>
     (\<forall>j. k \<le> j \<and> j < n \<longrightarrow> response_of i (run_env env j c) = notReceiveResponse) \<and>
     (n < 302 \<longrightarrow> response_of i (run_env env n c) \<noteq> notReceiveResponse)"
  using k
proof (induction "301 - k" arbitrary: k)
  case (0 k)
  obtain t where t: "recvThread (run_env env k c) = Some t" "thread_ok t" using env by (rule py_startedE)
  have g: "get_response i t = Some (response_of i (run_env env k c))"
    using t i by (simp add: get_response_def response_of_def thread_ok_def)
  show ?case
  proof (cases "response_of i (run_env env k c) = notReceiveResponse")
    case True
    have k: "300 < k" "Suc k = 302" using 0 by auto
    have "wait_response env i k (run_env env k c) = Some (run_env env (Suc k) c)"
      using True t g k(1) by (simp add: wait_response.simps [of env i k])
    moreover have "response_of i (run_env env j c) = notReceiveResponse" if "k \<le> j \<and> j < Suc k" for j
      using that True by (auto simp: less_Suc_eq_le dest: le_antisym)
    ultimately show ?thesis using k(2) by (intro exI [of _ "Suc k"]) (auto simp del: run_env.simps)
  next
    case False
    then have "wait_response env i k (run_env env k c) = Some (run_env env k c)"
      using t g by (simp add: wait_response.simps [of env i k])
    then show ?thesis using False 0 by (intro exI [of _ k]) auto
  qed
next
  case (Suc x k)
  obtain t where t: "recvThread (run_env env k c) = Some t" "thread_ok t" using env by (rule py_startedE)
  have g: "get_response i t = Some (response_of i (run_env env k c))"
    using t i by (simp add: get_response_def response_of_def thread_ok_def)
  show ?case
  proof (cases "response_of i (run_env env k c) = notReceiveResponse")
    case True
    have "x = 301 - Suc k" "Suc k \<le> 301" using Suc by auto
    then obtain n where n: "Suc k \<le> n" "n \<le> 302" "wait_response env i (Suc k) (run_env env (Suc k) c) = Some (run_env env n c)"
        "\<forall>j. Suc k \<le> j \<and> j < n \<longrightarrow> response_of i (run_env env j c) = notReceiveResponse"
        "n < 302 \<longrightarrow> response_of i (run_env env n c) \<noteq> notReceiveResponse"
      using Suc.hyps(1) by blast
    have "wait_response env i k (run_env env k c) = Some (run_env env n c)"
      using n(3) True t g \<open>Suc k \<le> 301\<close> by (simp add: wait_response.simps [of env i k])
    then show ?thesis using n True by (intro exI [of _ n]) (auto simp: le_Suc_eq Suc_le_eq dest: le_neq_implies_less)
  next
    case False
    then show ?thesis using Suc t g by (intro exI [of _ k]) (auto simp: wait_response.simps [of env i k])
  qed
qed

lemma py_started_response:
  assumes "py_started c" "i < backIndexMax"
  obtains t where "recvThread c = Some t" "get_response i t = Some (response_of i c)"
  using assms by (auto simp: get_response_def response_of_def thread_ok_def elim: py_startedE)

section \<open>Commands\<close>

text \<open>
  A command on a running client: its entry is reset, one frame goes to the socket, and the result is
  the entry after at most 302 sleeps.
\<close>

lemma sendCommand_ok:
  assumes c: "py_started c" "runningFlag c = 1" "needToRestartFlag c = 0" and t: "recvThread c = Some t" and s: "sock c = Some s"
    and i: "i < backIndexMax" and len: "length data < 2 ^ 32 - 1"
    and send: "py_sock_send api s (frame (byte_of_nat i # data)) (pyos c) = (r, w)"
  defines "c1 \<equiv> c\<lparr>recvThread := Some (t\<lparr>commandResponse := (commandResponse t)[i := notReceiveResponse]\<rparr>), pyos := w,
     needToRestartFlag := (if r = None then 1 else 0)\<rparr>"
  assumes env: "\<And>j. py_started (run_env env j c1)"
  shows "\<exists>n\<le>302. sendCommand api env i data c = Some (response_of i (run_env env n c1), run_env env n c1) \<and>
     (\<forall>j<n. response_of i (run_env env j c1) = notReceiveResponse) \<and>
     (n < 302 \<longrightarrow> response_of i (run_env env n c1) \<noteq> notReceiveResponse)"
proof -
  have "thread_ok t" using c(1) t by (simp add: py_started_def py_ok_def)
  then have set: "set_response i notReceiveResponse t = Some (t\<lparr>commandResponse := (commandResponse t)[i := notReceiveResponse]\<rparr>)"
    using i by (simp add: set_response_def thread_ok_def)
  have fr: "be_bytes 4 (word_of_nat (length (byte_of_nat i # data)) :: 32 word) @ byte_of_nat i # data = frame (byte_of_nat i # data)"
    by (simp add: frame_def)
  have sent: "send_command_bytes api (word_of_nat i # data) (c\<lparr>recvThread := Some (t\<lparr>commandResponse := (commandResponse t)[i := notReceiveResponse]\<rparr>)\<rparr>) = Some c1"
    using c(2,3) s len send fr unfolding send_command_bytes_def c1_def
    by (cases r) (simp_all add: byte_of_nat_def [symmetric])
  obtain n where n: "n \<le> 302" "wait_response env i 0 c1 = Some (run_env env n c1)"
      "\<forall>j<n. response_of i (run_env env j c1) = notReceiveResponse" "n < 302 \<longrightarrow> response_of i (run_env env n c1) \<noteq> notReceiveResponse"
    using wait_response_spec [OF env i, of 0] by auto
  obtain t' where t': "recvThread (run_env env n c1) = Some t'" "get_response i t' = Some (response_of i (run_env env n c1))"
    using env i by (rule py_started_response)
  have "sendCommand api env i data c = Some (response_of i (run_env env n c1), run_env env n c1)"
    unfolding sendCommand_def using c(2,3) t set sent n(2) t' by simp
  then show ?thesis using n by blast
qed

lemma sendCommand_refused: "runningFlag c = 0 \<or> needToRestartFlag c = 1 \<Longrightarrow> sendCommand api env i data c = Some (failResponse, c)"
  by (simp add: sendCommand_def)

text \<open>No command of a started client raises an exception.\<close>

definition env_ok :: "(nat \<Rightarrow> 'o stupidP2PClient \<Rightarrow> 'o stupidP2PClient) \<Rightarrow> bool" where
  "env_ok env \<longleftrightarrow> (\<forall>i c. py_started c \<longrightarrow> py_started (env i c))"

lemma sendCommand_total:
  assumes c: "py_ok c" and env: "env_ok env" and i: "i < backIndexMax" and len: "length data < 2 ^ 32 - 1"
  shows "\<exists>r c'. sendCommand api env i data c = Some (r, c') \<and> py_ok c' \<and> (py_started c \<longrightarrow> py_started c')"
proof (cases "runningFlag c = 0 \<or> needToRestartFlag c = 1")
  case True
  then show ?thesis using c by (simp add: sendCommand_refused)
next
  case False
  then have f: "runningFlag c = 1" "needToRestartFlag c = 0" and st: "py_started c" using c by (auto simp: py_started_def py_ok_def)
  obtain t s k where t: "recvThread c = Some t" "thread_ok t" "sock c = Some s" using st by (elim py_startedE)
  obtain r w where w: "py_sock_send api s (frame (byte_of_nat i # data)) (pyos c) = (r, w)" by fastforce
  let ?c1 = "c\<lparr>recvThread := Some (t\<lparr>commandResponse := (commandResponse t)[i := notReceiveResponse]\<rparr>), pyos := w,
     needToRestartFlag := (if r = None then 1 else 0)\<rparr>"
  have "py_started ?c1" using st t by (auto simp: py_started_def py_ok_def thread_ok_def)
  then have run: "py_started (run_env env j ?c1)" for j
    using env by (intro run_env_invariant [of py_started]) (auto simp: env_ok_def)
  obtain n where "sendCommand api env i data c = Some (response_of i (run_env env n ?c1), run_env env n ?c1)"
    using sendCommand_ok [OF st f t(1,3) i len w, of env] run by blast
  then show ?thesis using run [of n] by (auto simp: py_started_def)
qed

section \<open>Fetching\<close>

lemma sendCommand_sent:
  assumes "py_started c" "runningFlag c = 1" "needToRestartFlag c = 0" "recvThread c = Some t" "sock c = Some s"
    and "i < backIndexMax" "length data < 2 ^ 32 - 1" "env_ok env"
    and "py_sock_send api s (frame (byte_of_nat i # data)) (pyos c) = (Some k, w)"
  shows "\<exists>c1. pyos c1 = w \<and> response_of i c1 = 0xff \<and> (\<exists>n\<le>302.
     sendCommand api env i data c = Some (response_of i (run_env env n c1), run_env env n c1) \<and>
     (\<forall>j<n. response_of i (run_env env j c1) = 0xff) \<and> (n < 302 \<longrightarrow> response_of i (run_env env n c1) \<noteq> 0xff))"
proof -
  let ?c1 = "c\<lparr>recvThread := Some (t\<lparr>commandResponse := (commandResponse t)[i := notReceiveResponse]\<rparr>), pyos := w,
     needToRestartFlag := (if Some k = None then 1 else 0)\<rparr>"
  have t: "thread_ok t" using assms(1,4) by (simp add: py_started_def py_ok_def)
  then have "py_started ?c1" using assms(1,4) by (auto simp: py_started_def py_ok_def thread_ok_def)
  then have "py_started (run_env env j ?c1)" for j
    using assms(8) by (intro run_env_invariant [of py_started]) (auto simp: env_ok_def)
  from sendCommand_ok [OF assms(1-7,9), of env] this
  have "\<exists>n\<le>302. sendCommand api env i data c = Some (response_of i (run_env env n ?c1), run_env env n ?c1) \<and>
     (\<forall>j<n. response_of i (run_env env j ?c1) = 0xff) \<and> (n < 302 \<longrightarrow> response_of i (run_env env n ?c1) \<noteq> 0xff)"
    by (simp add: notReceiveResponse_def)
  moreover have "response_of i ?c1 = 0xff" using t assms(6) by (simp add: response_of_def thread_ok_def notReceiveResponse_def)
  ultimately show ?thesis by (intro exI [of _ ?c1]) simp
qed

lemma drain_eq: "drain acc q = (acc @ q, [])"
  by (induction acc q rule: drain.induct) auto

lemma recvData_ok:
  assumes "recvThread c = Some t" "needToRestartFlag c = 0 \<or> runningFlag c = 1"
  shows "recvData c = Some (recvDataQueue t, c\<lparr>recvThread := Some (t\<lparr>recvDataQueue := []\<rparr>)\<rparr>)"
  using assms by (auto simp: recvData_def drain_eq)

section \<open>Restarting\<close>

definition reconnect :: "'o py_net \<Rightarrow> 'o stupidP2PClient \<Rightarrow> bool \<times> 'o stupidP2PClient" where
  "reconnect api c = (case deinitClient api c of Some c \<Rightarrow> initClient api c | None \<Rightarrow> (False, c))"

text \<open>The client after \<open>n\<close> attempts.\<close>

fun retried :: "'o py_net \<Rightarrow> nat \<Rightarrow> 'o stupidP2PClient \<Rightarrow> 'o stupidP2PClient" where
  "retried api 0 c = c"
| "retried api (Suc n) c = retried api n (snd (reconnect api c))"

lemma deinitClient_ok:
  assumes "py_ok c"
  shows "\<exists>c'. deinitClient api c = Some c' \<and> py_ok c' \<and> runningFlag c' = 0 \<and> (py_started c \<longrightarrow> py_started c')"
proof (cases "runningFlag c = 0")
  case True
  then show ?thesis using assms by (auto simp: deinitClient_def)
next
  case False
  then obtain t s n where "recvThread c = Some t" "thread_ok t" "sock c = Some s" "checkNetThread c = Some n"
    using assms by (auto simp: py_ok_def)
  then show ?thesis using False assms by (auto simp: deinitClient_def py_ok_def py_started_def thread_ok_def)
qed

lemma initClient_ok:
  assumes "py_ok c" "initClient api c = (ret, c')"
  shows "py_ok c'" "ret \<Longrightarrow> py_started c' \<and> runningFlag c' = 1" "py_started c \<Longrightarrow> py_started c'"
  using assms by (auto simp: initClient_def py_ok_def py_started_def Let_def split: prod.splits if_splits)

lemma reconnect_ok:
  assumes "py_ok c" "reconnect api c = (ret, c')"
  shows "py_ok c'" "ret \<Longrightarrow> py_started c' \<and> runningFlag c' = 1" "py_started c \<Longrightarrow> py_started c'"
proof -
  obtain c1 where c1: "deinitClient api c = Some c1" "py_ok c1" "py_started c \<longrightarrow> py_started c1"
    using deinitClient_ok [OF assms(1)] by blast
  then have "initClient api c1 = (ret, c')" using assms(2) by (simp add: reconnect_def)
  from initClient_ok [OF c1(2) this] c1(3)
  show "py_ok c'" "ret \<Longrightarrow> py_started c' \<and> runningFlag c' = 1" "py_started c \<Longrightarrow> py_started c'" by blast+
qed

lemma restart_loop_unfold:
  assumes "py_ok c"
  shows "restart_loop api c = (if fst (reconnect api c) then Some ((snd (reconnect api c))\<lparr>needToRestartFlag := 0\<rparr>)
     else restart_loop api (snd (reconnect api c)))"
proof -
  obtain c1 where c1: "deinitClient api c = Some c1" using deinitClient_ok [OF assms] by blast
  then have "reconnect api c = initClient api c1" by (simp add: reconnect_def)
  then show ?thesis by (simp add: restart_loop.simps [of api c] c1 split: prod.splits)
qed

lemma restart_returns:
  assumes "py_ok c" "fst (reconnect api (retried api n c))"
  shows "\<exists>c'. restart_loop api c = Some c' \<and> py_started c' \<and> runningFlag c' = 1 \<and> needToRestartFlag c' = 0"
  using assms
proof (induction n arbitrary: c)
  case 0
  then have r: "fst (reconnect api c)" by simp
  then show ?case using restart_loop_unfold [OF 0(1), of api] reconnect_ok(2) [OF 0(1), of api True "snd (reconnect api c)"]
    by (cases "reconnect api c") (auto simp: py_started_def py_ok_def)
next
  case (Suc n)
  show ?case
  proof (cases "fst (reconnect api c)")
    case True
    then show ?thesis using restart_loop_unfold [OF Suc.prems(1), of api] reconnect_ok(2) [OF Suc.prems(1), of api True "snd (reconnect api c)"]
      by (cases "reconnect api c") (auto simp: py_started_def py_ok_def)
  next
    case False
    have ok: "py_ok (snd (reconnect api c))" using reconnect_ok(1) [OF Suc.prems(1)] by (metis prod.collapse)
    have "fst (reconnect api (retried api n (snd (reconnect api c))))"
      using Suc.prems(2) by simp
    from Suc.IH [OF ok this] show ?thesis using restart_loop_unfold [OF Suc.prems(1), of api] False by simp
  qed
qed

lemma restart_needs_connection:
  assumes "py_ok c" "restart_loop api c = Some c'"
  shows "\<exists>n. fst (reconnect api (retried api n c))"
proof -
  let ?P = "\<lambda>api c c'. py_ok c \<longrightarrow> (\<exists>n. fst (reconnect api (retried api n c)))"
  have "?P api c c'"
  proof (rule restart_loop.raw_induct [OF _ assms(2), of ?P], goal_cases)
    case (1 f api c c')
    show ?case
    proof (intro impI)
      assume ok: "py_ok c"
      obtain c1 where c1: "deinitClient api c = Some c1" using deinitClient_ok [OF ok] by blast
      then have r: "reconnect api c = initClient api c1" by (simp add: reconnect_def)
      show "\<exists>n. fst (reconnect api (retried api n c))"
      proof (cases "fst (reconnect api c)")
        case True
        then show ?thesis by (intro exI [of _ 0]) simp
      next
        case False
        have "f api (snd (reconnect api c)) = Some c'" using 1(2) c1 False by (auto simp: r split: prod.splits)
        moreover have "py_ok (snd (reconnect api c))" using reconnect_ok(1) [OF ok] by (metis prod.collapse)
        ultimately obtain n where "fst (reconnect api (retried api n (snd (reconnect api c))))" using 1(1) by blast
        then show ?thesis by (intro exI [of _ "Suc n"]) simp
      qed
    qed
  qed
  then show ?thesis using assms(1) by simp
qed

lemma py_restart_keeps:
  assumes "restart_loop api c = Some c'" "py_ok c"
  shows "py_started c' \<and> runningFlag c' = 1 \<and> needToRestartFlag c' = 0"
proof -
  obtain n where "fst (reconnect api (retried api n c))" using restart_needs_connection [OF assms(2,1)] by blast
  from restart_returns [OF assms(2) this] show ?thesis using assms(1) by simp
qed

text \<open>The third unanswered heart beat restarts the client; an answered one leaves the counter alone.\<close>

lemma heartBeat_eq:
  assumes "sendCommand api env heartBeatCommand [] c = Some (ret, c1)"
  shows "heartBeat api env c =
     (let c2 = (if ret = notReceiveResponse then c1\<lparr>notReceiveNum := notReceiveNum c1 + 1\<rparr> else c1) in
      if notReceiveNum c2 > 2 \<or> needToRestartFlag c2 \<noteq> 0
      then map_option (Pair ret) (restart_loop api (c2\<lparr>notReceiveNum := 0\<rparr>)) else Some (ret, c2))"
  using assms by (auto simp: heartBeat_def restartClient_def Let_def map_option_case split: option.splits)

section \<open>All interleavings\<close>

lemma handleCommand_thread_ok: "handleCommand b n (t\<lparr>recvDeque := q\<rparr>) = Some (k, t') \<Longrightarrow> thread_ok t \<Longrightarrow> thread_ok t'"
  by (auto simp: handleCommand_def getCommandResponse_def set_response_def bind_eq_Some_conv thread_ok_def Let_def
      split: option.splits if_splits)

lemma parse_deque_thread_ok: "parse_deque t = Some t' \<Longrightarrow> thread_ok t \<Longrightarrow> thread_ok t'"
proof (induction t arbitrary: t' rule: parse_deque.induct)
  case (1 t)
  show ?case
    using "1.prems" "1.IH" unfolding parse_deque.simps [of t]
    by (fastforce simp: Let_def dest: handleCommand_thread_ok split: if_splits option.splits)
qed

lemma recv_run_step_thread_ok: "recv_run_step api t w = Some (t', w') \<Longrightarrow> thread_ok t \<Longrightarrow> thread_ok t'"
  by (auto simp: recv_run_step_def Let_def dest!: parse_deque_thread_ok split: if_splits prod.splits py_recvd.splits)

lemma heartBeat_keeps:
  assumes c: "py_ok c" and env: "env_ok env" and h: "heartBeat api env c = Some (r, c')"
  shows "py_ok c'" "py_started c \<Longrightarrow> py_started c'"
proof -
  obtain ret c1 where s: "sendCommand api env heartBeatCommand [] c = Some (ret, c1)" "py_ok c1" "py_started c \<longrightarrow> py_started c1"
    using sendCommand_total [OF c env, of heartBeatCommand "[]" api] by (auto simp: const_simps)
  have n: "py_ok (c2\<lparr>notReceiveNum := n\<rparr>) = py_ok c2" "py_started (c2\<lparr>notReceiveNum := n\<rparr>) = py_started c2" for c2 :: "'a stupidP2PClient" and n
    by (simp_all add: py_ok_def py_started_def)
  have r: "py_ok c3 \<and> py_started c3" if "restart_loop api c2 = Some c3" "py_ok c2" for c2 c3
    using py_restart_keeps [OF that] by (simp add: py_started_def)
  show "py_ok c'" using s(2) h n r unfolding heartBeat_eq [OF s(1)] by (auto simp: Let_def split: if_splits)
  show "py_started c'" if "py_started c"
    using s(2,3) that h n r unfolding heartBeat_eq [OF s(1)] by (auto simp: Let_def split: if_splits)
qed

inductive py_step :: "'o py_net \<Rightarrow> 'o stupidP2PClient \<Rightarrow> 'o stupidP2PClient \<Rightarrow> bool" for api where
  py_receive: "py_step api c (c\<lparr>recvThread := Some t', pyos := w\<rparr>)"
    if "recvThread c = Some t" "recv_run_step api t (pyos c) = Some (t', w)"
| py_command: "py_step api c c'"
    if "sendCommand api env i data c = Some (r, c')" "env_ok env" "i < backIndexMax" "length data < 2 ^ 32 - 1"
| py_fetch: "py_step api c c'" if "recvData c = Some (ds, c')"
| py_beat: "py_step api c c'" if "heartBeat api env c = Some (r, c')" "env_ok env"
| py_restart: "py_step api c c'" if "restartClient api c = Some c'"
| py_stop: "py_step api c c'" if "deinitClient api c = Some c'"
| py_start: "py_step api c c'" if "initClient api c = (r, c')"

definition py_new :: "'o stupidP2PClient \<Rightarrow> bool" where
  "py_new c \<longleftrightarrow> (\<exists>ip port w. c = stupidP2PClient_init ip port w)"

lemma py_step_ok: "py_step api c c' \<Longrightarrow> py_ok c \<Longrightarrow> py_ok c'"
proof (induction rule: py_step.induct)
  case (py_receive c t t' w)
  then show ?case using recv_run_step_thread_ok [OF py_receive(2)] by (auto simp: py_ok_def)
next
  case (py_command env i data c r c')
  then show ?case using sendCommand_total [OF py_command.prems py_command(2,3,4), of api] by auto
next
  case (py_fetch c ds c')
  show ?case
  proof (cases "needToRestartFlag c = 0 \<or> runningFlag c = 1")
    case True
    then obtain t where t: "recvThread c = Some t" using py_fetch(1) by (auto simp: recvData_def bind_eq_Some_conv)
    have "c' = c\<lparr>recvThread := Some (t\<lparr>recvDataQueue := []\<rparr>)\<rparr>" using recvData_ok [OF t True] py_fetch(1) by simp
    then show ?thesis using py_fetch(2) t by (simp add: py_ok_def thread_ok_def)
  next
    case False
    then show ?thesis using py_fetch by (auto simp: recvData_def)
  qed
next
  case (py_beat env c r c')
  then show ?case using heartBeat_keeps(1) by blast
next
  case (py_restart c c')
  then show ?case using py_restart_keeps unfolding restartClient_def py_started_def by blast
next
  case (py_stop c c')
  then show ?case using deinitClient_ok [of c api] by auto
next
  case (py_start c r c')
  then show ?case using initClient_ok(1) by blast
qed

lemma py_step_started: "py_step api c c' \<Longrightarrow> py_started c \<Longrightarrow> py_started c'"
proof (induction rule: py_step.induct)
  case (py_receive c t t' w)
  then show ?case using recv_run_step_thread_ok [OF py_receive(2)] by (auto simp: py_ok_def py_started_def)
next
  case (py_command env i data c r c')
  then show ?case using sendCommand_total [OF _ py_command(2,3,4), of c api] by (auto simp: py_started_def)
next
  case (py_fetch c ds c')
  then show ?case using py_step_ok [OF py_step.py_fetch [OF py_fetch(1)]]
    by (auto simp: py_started_def recvData_def bind_eq_Some_conv split: if_splits prod.splits)
next
  case (py_beat env c r c')
  then have "py_ok c" by (simp add: py_started_def)
  from heartBeat_keeps(2) [OF this py_beat(2,1)] py_beat(3) show ?case .
next
  case (py_restart c c')
  then show ?case using py_restart_keeps unfolding restartClient_def py_started_def by blast
next
  case (py_stop c c')
  then show ?case using deinitClient_ok [of c api] by (auto simp: py_started_def)
next
  case (py_start c r c')
  then have "py_ok c" by (simp add: py_started_def)
  from initClient_ok(3) [OF this py_start(1)] py_start(2) show ?case by simp
qed

interpretation python: invariant_system py_new "py_step api" py_ok for api
proof unfold_locales
  show "py_ok c" if "py_new c" for c :: "'a stupidP2PClient"
    using that by (auto simp: py_new_def stupidP2PClient_init_def py_ok_def)
qed (rule py_step_ok)

end
