(* ===== verification/Py_Guarantees.thy ===== *)
theory Py_Guarantees
  imports Py_Client_Proofs
begin

text \<open>
  What the Python client promises the program that uses it, over the interleavings of its threads and
  calls: the client object stays consistent and no command raises an exception, a command puts one
  frame on the socket and returns, the receive thread implements the wire format, and the restart loop
  ends exactly when a connection can be made. \<open>sim_py\<close> is a network for examples.
\<close>

section \<open>A network\<close>

record sim_py_state =
  py_out :: bytes
  py_in :: "bytes list"
  py_refused :: nat

definition sim_py :: "sim_py_state py_net" where
  "sim_py = \<lparr>py_socket = (\<lambda>w. (4, w)),
     py_connect = (\<lambda>_ _ _ w. if py_refused w = 0 then (True, w) else (False, w\<lparr>py_refused := py_refused w - 1\<rparr>)),
     py_sock_recv = (\<lambda>_ n w. case py_in w of [] \<Rightarrow> (SockTimeout, w) | seg # segs \<Rightarrow> (Received (take n seg), w\<lparr>py_in := segs\<rparr>)),
     py_sock_send = (\<lambda>_ bs w. (Some (length bs), w\<lparr>py_out := py_out w @ bs\<rparr>)), py_sock_close = (\<lambda>_ w. w)\<rparr>"

definition ex_py :: "sim_py_state stupidP2PClient" where
  "ex_py = snd (initClient sim_py (stupidP2PClient_init [] 80 \<lparr>py_out = [], py_in = [], py_refused = 0\<rparr>))"

lemma ex_py:
  "recvThread ex_py = Some (clientRecvThread_init 4)" "sock ex_py = Some 4" "runningFlag ex_py = 1" "needToRestartFlag ex_py = 0"
  "pyos ex_py = \<lparr>py_out = [], py_in = [], py_refused = 0\<rparr>"
  by (simp_all add: ex_py_def initClient_def sim_py_def stupidP2PClient_init_def)

lemma ex_py_started: "py_started ex_py"
  using thread_ok_init by (auto simp: py_started_def py_ok_def ex_py_def initClient_def sim_py_def stupidP2PClient_init_def)

section \<open>Properties\<close>



text \<open>
  C26. A command of the Python client writes one frame and returns: the bytes given to the socket are the
  framed command byte and argument; whatever the other threads do, the call ends after at most 302
  sleeps, at the first one at which the answer is there, and returns the answer, or \<^verbatim>\<open>0xff\<close> if none came.
\<close>

theorem python_command_returns:
  assumes "py_started c" "runningFlag c = 1" "needToRestartFlag c = 0" "recvThread c = Some t" "sock c = Some s"
    and "i < backIndexMax" "length data < 2 ^ 32 - 1" "env_ok env"
    and "py_sock_send api s (frame (byte_of_nat i # data)) (pyos c) = (Some k, w)"
  shows "\<exists>c1. pyos c1 = w \<and> response_of i c1 = 0xff \<and> (\<exists>n\<le>302.
     sendCommand api env i data c = Some (response_of i (run_env env n c1), run_env env n c1) \<and>
     (\<forall>j<n. response_of i (run_env env j c1) = 0xff) \<and> (n < 302 \<longrightarrow> response_of i (run_env env n c1) \<noteq> 0xff))"
  by (rule sendCommand_sent [OF assms])

theorem python_command_returns_witness:
  "\<exists>c. sendCommand sim_py (\<lambda>_ c. c) registerCommand [65] ex_py = Some (0xff, c) \<and> py_out (pyos c) = frame [1, 65]"
proof -
  have e: "env_ok (\<lambda>_ c. c)" "registerCommand < backIndexMax" "length ([65] :: bytes) < 2 ^ 32 - 1" by (simp_all add: env_ok_def const_simps)
  have r: "run_env (\<lambda>_ c. c) n c = c" for n and c :: "sim_py_state stupidP2PClient" by (induction n) simp_all
  have b: "byte_of_nat registerCommand = 1" by (simp add: byte_of_nat_def const_simps)
  have "py_sock_send sim_py 4 (frame (byte_of_nat registerCommand # [65])) (pyos ex_py) =
      (Some 6, \<lparr>py_out = frame [1, 65], py_in = [], py_refused = 0\<rparr>)" by (simp add: b sim_py_def ex_py)
  from python_command_returns [OF ex_py_started ex_py(3,4,1,2) e(2,3,1) this] show ?thesis unfolding r by auto
qed

text \<open>
  The receive thread of the Python client implements the wire format: of the stream of old and new
  bytes it handles the complete packages in order, keeps the incomplete one, stores for each command its
  latest answer, and queues the payloads of the data packages behind those already waiting, up to 4096.
\<close>

theorem python_receive_implements_stream:
  assumes "thread_ok t" "\<not> recv_stop t" "py_sock_recv api (recv_sock t) 1024 w = (Received bs, w')"
    and "split_frames py_package_ok (rev (recvDeque t) @ bs) = (ms, rest, False)" "\<forall>m\<in>set ms. py_acceptable m"
  shows "\<exists>t'. recv_run_step api t w = Some (t', w') \<and> rev (recvDeque t') = rest \<and>
    (\<forall>i<backIndexMax. commandResponse t' ! i = last (commandResponse t ! i # answers i ms)) \<and>
    recvDataQueue t' = take 4096 (recvDataQueue t @ data_messages ms)"
  using recv_run_step_ok [OF assms] fold_answers [OF assms(1)] fold_messages [OF assms(1), of ms] by (simp add: recvDataQueue_maxsize_def)

theorem python_receive_implements_stream_witness:
  "\<exists>t'. recv_run_step sim_py (clientRecvThread_init 4) \<lparr>py_out = [], py_in = [frame [0x81, 1] @ frame [3, 104] @ [0]], py_refused = 0\<rparr> =
     Some (t', \<lparr>py_out = [], py_in = [], py_refused = 0\<rparr>) \<and> recvDeque t' = [0] \<and> commandResponse t' ! 1 = 1 \<and> recvDataQueue t' = [[104]]"
proof -
  let ?bs = "frame [0x81, 1] @ frame [3, 104] @ [0]"
  have r: "py_sock_recv sim_py (recv_sock (clientRecvThread_init 4)) 1024 \<lparr>py_out = [], py_in = [?bs], py_refused = 0\<rparr> =
      (Received ?bs, \<lparr>py_out = [], py_in = [], py_refused = 0\<rparr>)" by (simp add: sim_py_def)
  have q: "recvDeque (clientRecvThread_init 4) = []" "recvDataQueue (clientRecvThread_init 4) = []" "\<not> recv_stop (clientRecvThread_init 4)"
    by (simp_all add: clientRecvThread_init_def)
  have f: "split_frames py_package_ok (rev (recvDeque (clientRecvThread_init 4)) @ ?bs) = ([[0x81, 1], [3, 104]], [0], False)"
    using split_frames_concat [of "[[0x81, 1], [3, 104]]" py_package_ok "[0]"] by (simp add: q split_frames_short py_package_ok_def)
  have a: "\<forall>m\<in>set [[0x81, 1], [3, 104]]. py_acceptable m" by (simp add: py_acceptable_def)
  have i: "1 < backIndexMax" by (simp add: const_simps)
  have m: "answers 1 [[0x81, 1], [3, 104]] = [1]" "data_messages [[0x81, 1], [3, 104]] = [[104]]"
    by (simp_all add: answers_def data_messages_def response_index_def const_simps)
  obtain t' where "recv_run_step sim_py (clientRecvThread_init 4) \<lparr>py_out = [], py_in = [?bs], py_refused = 0\<rparr> =
       Some (t', \<lparr>py_out = [], py_in = [], py_refused = 0\<rparr>)" "rev (recvDeque t') = [0]"
      "commandResponse t' ! 1 = 1" "recvDataQueue t' = [[104]]"
    using python_receive_implements_stream [OF thread_ok_init q(3) r f a] i m q(2) by auto
  then show ?thesis by (intro exI [of _ t']) (simp add: rev_swap)
qed

text \<open>
  C27. The restart loop of the Python client ends exactly when a connection can be made: it returns, with
  the client running and the restart flag clear, if and only if some attempt connects; a server that never
  comes back keeps it, and the thread that called it, in the loop forever.
\<close>

theorem python_restart_iff:
  assumes "py_ok c"
  shows "(restartClient api c \<noteq> None \<longleftrightarrow> (\<exists>n. fst (reconnect api (retried api n c)))) \<and>
    (\<forall>c'. restartClient api c = Some c' \<longrightarrow> py_started c' \<and> runningFlag c' = 1 \<and> needToRestartFlag c' = 0)"
  using restart_returns [OF assms] restart_needs_connection [OF assms] py_restart_keeps [OF _ assms]
  unfolding restartClient_def by blast

theorem python_restart_iff_witness:
  "\<exists>c'. restartClient sim_py (ex_py\<lparr>needToRestartFlag := 1, pyos := \<lparr>py_out = [], py_in = [], py_refused = 2\<rparr>\<rparr>) = Some c' \<and>
     py_started c' \<and> runningFlag c' = 1 \<and> needToRestartFlag c' = 0"
proof -
  let ?c = "ex_py\<lparr>needToRestartFlag := 1, pyos := \<lparr>py_out = [], py_in = [], py_refused = 2\<rparr>\<rparr>"
  have ok: "py_ok ?c" using ex_py_started by (auto simp: py_started_def py_ok_def)
  have "fst (reconnect sim_py (retried sim_py 2 ?c))"
    by (simp add: numeral_2_eq_2 reconnect_def deinitClient_def initClient_def ex_py_def sim_py_def stupidP2PClient_init_def)
  then have "restartClient sim_py ?c \<noteq> None" using python_restart_iff [OF ok, of sim_py] by blast
  then show ?thesis using python_restart_iff [OF ok, of sim_py] by auto
qed

end
