(* ===== verification/Py_Text.thy ===== *)
theory Py_Text
  imports Py_Client
begin

text \<open>
  The text of Python strings, which are lists of code points: decoding UTF-8, the inverse of \<open>utf8\<close>, and
  \<^verbatim>\<open>int\<close> of a text. \<open>utf8\<close> is injective, so different texts stay different on the wire.
\<close>

section \<open>Decoding\<close>

text \<open>
  \<^verbatim>\<open>str(b, encoding="UTF-8")\<close>: the first byte gives the width of a character, and a strict decoder accepts
  nothing but the encoding of the character it reads (no overlong form, surrogate or value beyond the range).
\<close>

definition utf8_width :: "byte \<Rightarrow> nat" where
  "utf8_width b = (if unat b < 0x80 then 1 else if unat b < 0xE0 then 2 else if unat b < 0xF0 then 3 else 4)"

fun utf8_value :: "bytes \<Rightarrow> nat" where
  "utf8_value [a] = unat a"
| "utf8_value [a, b] = (unat a - 0xC0) * 0x40 + (unat b - 0x80)"
| "utf8_value [a, b, c] = (unat a - 0xE0) * 0x1000 + (unat b - 0x80) * 0x40 + (unat c - 0x80)"
| "utf8_value [a, b, c, d] = (unat a - 0xF0) * 0x40000 + (unat b - 0x80) * 0x1000 + (unat c - 0x80) * 0x40 + (unat d - 0x80)"
| "utf8_value _ = 0"

function utf8_decode :: "bytes \<Rightarrow> nat list option" where
  "utf8_decode [] = Some []"
| "utf8_decode (b # bs) =
     (let x = take (utf8_width b) (b # bs) in
      if utf8_char (utf8_value x) = Some x
      then map_option ((#) (utf8_value x)) (utf8_decode (drop (utf8_width b) (b # bs)))
      else None)"
  by pat_completeness auto
termination
  by (relation "measure length") (auto simp: utf8_width_def)

declare utf8_decode.simps(2) [simp del]

text \<open>Groups of six bits put together again.\<close>

lemma six_bits:
  fixes c :: nat
  shows "c div 0x40 * 0x40 + c mod 0x40 = c"
    "c div 0x1000 * 0x1000 + c div 0x40 mod 0x40 * 0x40 + c mod 0x40 = c"
    "c div 0x40000 * 0x40000 + c div 0x1000 mod 0x40 * 0x1000 + c div 0x40 mod 0x40 * 0x40 + c mod 0x40 = c"
proof -
  have d: "c div 0x1000 = c div 0x40 div 0x40" "c div 0x40000 = c div 0x40 div 0x40 div 0x40"
    by (simp_all flip: div_mult2_eq)
  show 1: "c div 0x40 * 0x40 + c mod 0x40 = c" by (rule div_mult_mod_eq)
  show 2: "c div 0x1000 * 0x1000 + c div 0x40 mod 0x40 * 0x40 + c mod 0x40 = c"
    using 1 div_mult_mod_eq [of "c div 0x40" "0x40"] unfolding d by linarith
  show "c div 0x40000 * 0x40000 + c div 0x1000 mod 0x40 * 0x1000 + c div 0x40 mod 0x40 * 0x40 + c mod 0x40 = c"
    using 2 div_mult_mod_eq [of "c div 0x40 div 0x40" "0x40"] unfolding d by linarith
qed

lemma utf8_value_simps:
  "a < 0x80 \<Longrightarrow> utf8_value [byte_of_nat a] = a \<and> utf8_width (byte_of_nat a) = 1"
  "2 \<le> a \<Longrightarrow> a < 0x20 \<Longrightarrow> b < 0x40 \<Longrightarrow>
     utf8_value [byte_of_nat (0xC0 + a), byte_of_nat (0x80 + b)] = a * 0x40 + b \<and> utf8_width (byte_of_nat (0xC0 + a)) = 2"
  "a < 0x10 \<Longrightarrow> b < 0x40 \<Longrightarrow> d < 0x40 \<Longrightarrow>
     utf8_value [byte_of_nat (0xE0 + a), byte_of_nat (0x80 + b), byte_of_nat (0x80 + d)] = a * 0x1000 + b * 0x40 + d \<and>
     utf8_width (byte_of_nat (0xE0 + a)) = 3"
  "a < 0x10 \<Longrightarrow> b < 0x40 \<Longrightarrow> d < 0x40 \<Longrightarrow> e < 0x40 \<Longrightarrow>
     utf8_value [byte_of_nat (0xF0 + a), byte_of_nat (0x80 + b), byte_of_nat (0x80 + d), byte_of_nat (0x80 + e)]
       = a * 0x40000 + b * 0x1000 + d * 0x40 + e \<and> utf8_width (byte_of_nat (0xF0 + a)) = 4"
  by (simp_all add: utf8_width_def unat_byte_of_nat)

lemma utf8_char_value:
  assumes "utf8_char c = Some x"
  shows "x \<noteq> [] \<and> utf8_width (hd x) = length x \<and> utf8_value x = c"
proof -
  have m: "c mod 0x40 < 0x40" "c div 0x40 mod 0x40 < 0x40" "c div 0x1000 mod 0x40 < 0x40" by simp_all
  consider (1) "c < 0x80" | (2) "0x80 \<le> c" "c < 0x800" | (3) "0x800 \<le> c" "c < 0x10000" | (4) "0x10000 \<le> c" "c < 0x110000"
    using assms by (fastforce simp: utf8_char_def split: if_splits)
  then show ?thesis
  proof cases
    case 1
    then have "x = [byte_of_nat c]" using assms by (simp add: utf8_char_def)
    then show ?thesis using utf8_value_simps(1) [OF 1] by simp
  next
    case 2
    then have x: "x = [byte_of_nat (0xC0 + c div 0x40), byte_of_nat (0x80 + c mod 0x40)]" using assms by (simp add: utf8_char_def)
    have "2 \<le> c div 0x40" "c div 0x40 < 0x20" using 2 by (simp_all add: less_mult_imp_div_less)
    from utf8_value_simps(2) [OF this m(1)] show ?thesis by (simp add: x six_bits(1) del: utf8_value.simps)
  next
    case 3
    then have x: "x = [byte_of_nat (0xE0 + c div 0x1000), byte_of_nat (0x80 + c div 0x40 mod 0x40), byte_of_nat (0x80 + c mod 0x40)]"
      using assms by (auto simp: utf8_char_def split: if_splits)
    have "c div 0x1000 < 0x10" using 3 by (simp add: less_mult_imp_div_less)
    from utf8_value_simps(3) [OF this m(2,1)] show ?thesis by (simp add: x six_bits(2) del: utf8_value.simps)
  next
    case 4
    then have x: "x = [byte_of_nat (0xF0 + c div 0x40000), byte_of_nat (0x80 + c div 0x1000 mod 0x40),
        byte_of_nat (0x80 + c div 0x40 mod 0x40), byte_of_nat (0x80 + c mod 0x40)]"
      using assms by (auto simp: utf8_char_def split: if_splits)
    have "c div 0x40000 < 0x10" using 4 by (simp add: less_mult_imp_div_less)
    from utf8_value_simps(4) [OF this m(3,2,1)] show ?thesis by (simp add: x six_bits(3) del: utf8_value.simps)
  qed
qed

lemma utf8_decode_char:
  assumes "utf8_char c = Some x"
  shows "utf8_decode (x @ rest) = map_option ((#) c) (utf8_decode rest)"
proof -
  note v = utf8_char_value [OF assms]
  then obtain b bs where x: "x = b # bs" by (cases x) auto
  then have "take (utf8_width b) (b # bs @ rest) = x" "drop (utf8_width b) (b # bs @ rest) = rest" using v by simp_all
  then show ?thesis using v assms x by (simp add: utf8_decode.simps(2) Let_def)
qed

lemma utf8_decode_encode: "utf8 s = Some bs \<Longrightarrow> utf8_decode bs = Some s"
  by (induction s arbitrary: bs) (auto simp: bind_eq_Some_conv utf8_decode_char)

lemma utf8_encode_decode: "utf8_decode bs = Some s \<Longrightarrow> utf8 s = Some bs"
proof (induction bs arbitrary: s rule: utf8_decode.induct)
  case (2 b bs)
  let ?x = "take (utf8_width b) (b # bs)"
  obtain s' where s': "utf8_char (utf8_value ?x) = Some ?x" "utf8_decode (drop (utf8_width b) (b # bs)) = Some s'" "s = utf8_value ?x # s'"
    using 2(2) by (auto simp: utf8_decode.simps(2) Let_def split: if_splits)
  then have "utf8 s' = Some (drop (utf8_width b) (b # bs))" using 2(1) by simp
  then show ?case using s'(1,3) by (simp del: take_Suc_Cons drop_Suc_Cons)
qed simp

lemma utf8_inj: "utf8 s = Some bs \<Longrightarrow> utf8 s' = Some bs \<Longrightarrow> s = s'"
  by (metis utf8_decode_encode option.inject)

section \<open>Numbers\<close>

text \<open>
  \<^verbatim>\<open>int(s)\<close> on ASCII text: white space around the number, a sign, digits with single underscores between them.
  \<open>None\<close> is a \<^verbatim>\<open>ValueError\<close>. (Python also takes the digits and spaces of other scripts.)
\<close>

definition py_isspace :: "nat \<Rightarrow> bool" where
  "py_isspace c \<longleftrightarrow> c = 32 \<or> 9 \<le> c \<and> c \<le> 13 \<or> 28 \<le> c \<and> c \<le> 31"

definition py_isdigit :: "nat \<Rightarrow> bool" where
  "py_isdigit c \<longleftrightarrow> 48 \<le> c \<and> c \<le> 57"

definition py_strip :: "nat list \<Rightarrow> nat list" where
  "py_strip s = rev (dropWhile py_isspace (rev (dropWhile py_isspace s)))"

fun py_digits :: "int \<Rightarrow> nat list \<Rightarrow> int option" where
  "py_digits n [] = None"
| "py_digits n [d] = (if py_isdigit d then Some (10 * n + (int d - 48)) else None)"
| "py_digits n (d # e # ds) =
     (if \<not> py_isdigit d then None
      else if e = 95 then py_digits (10 * n + (int d - 48)) ds
      else py_digits (10 * n + (int d - 48)) (e # ds))"

definition py_int :: "nat list \<Rightarrow> int option" where
  "py_int s =
     (case py_strip s of
        [] \<Rightarrow> None
      | c # cs \<Rightarrow>
          if c = 45 then map_option uminus (py_digits 0 cs)
          else if c = 43 then py_digits 0 cs
          else py_digits 0 (c # cs))"

lemma py_digits_foldl:
  "ds \<noteq> [] \<Longrightarrow> \<forall>d\<in>set ds. py_isdigit d \<Longrightarrow> py_digits n ds = Some (foldl (\<lambda>n d. 10 * n + (int d - 48)) n ds)"
  by (induction n ds rule: py_digits.induct) (auto simp: py_isdigit_def)

lemma py_int_digits:
  assumes "ds \<noteq> []" "\<forall>d\<in>set ds. py_isdigit d"
  shows "py_int ds = Some (foldl (\<lambda>n d. 10 * n + (int d - 48)) 0 ds)"
proof -
  have sp: "\<not> py_isspace d \<and> d \<noteq> 45 \<and> d \<noteq> 43" if "py_isdigit d" for d using that by (auto simp: py_isdigit_def py_isspace_def)
  have "dropWhile py_isspace ds = ds" using assms sp by (cases ds) auto
  moreover have "dropWhile py_isspace (rev ds) = rev ds" using assms sp by (cases ds rule: rev_cases) auto
  ultimately have "py_strip ds = ds" by (simp add: py_strip_def)
  then show ?thesis using assms sp py_digits_foldl [OF assms, of 0] by (cases ds) (auto simp: py_int_def)
qed

end
