(* ===== verification/Py_Demo.thy ===== *)
theory Py_Demo
  imports Py_Guarantees Py_Text
begin

text \<open>
  \<^verbatim>\<open>API/Python/test/main.py\<close>, the window on top of the Python client: the slots of its buttons, the close event,
  one pass of its receive thread and the assignment of buttons to slots. A widget is its contents: the texts of the input fields are arguments
  of the slots, the label of tips and the text browser are fields of the window. The texts of the tips are
  the constructors of \<open>tip_text\<close>. An attribute that has not been assigned yet is \<open>None\<close>, and \<open>None\<close> as the result
  of a slot is an exception. Layout and styles (\<^verbatim>\<open>clientUI.py\<close>) are generated and left out.
  The script at the end of \<^verbatim>\<open>API/Python/stupidP2P.py\<close> is \<open>py_main\<close>.
\<close>

section \<open>The window\<close>

datatype tip_level = ERROR_TIPS | SUCCESS_TIPS | WARN_TIPS

datatype ui_command = Ui_register | Ui_unregister | Ui_check | Ui_subscribe | Ui_unsubscribe | Ui_send

datatype tip_text =
  Bad_address | Connected | Not_connected | Connect_first | Bad_own_id | Not_registered | Bad_subscribe_id | Not_subscribed
| No_answer | Failed ui_command | Succeeded ui_command

datatype browser_line = Received_text "nat list" | Sent_text "nat list"

text \<open>The receive thread: running or stopped by its event, or ended by an exception.\<close>

datatype ui_thread = Thread_running | Thread_stopped | Thread_died

record 'o client_window =
  startFlag :: int
  ui_client :: "'o stupidP2PClient option"
  ui_recvThread :: "ui_thread option"
  ui_deviceId :: "nat list option"
  ui_subscribeId :: "nat list option"
  label_tips :: "(tip_level \<times> tip_text) option"
  textBrowser :: "browser_line list"
  ui_os :: 'o

definition client_window_init :: "'o \<Rightarrow> 'o client_window" where
  "client_window_init w =
     \<lparr>startFlag = 0, ui_client = None, ui_recvThread = None, ui_deviceId = None, ui_subscribeId = None, label_tips = None,
      textBrowser = [], ui_os = w\<rparr>"

definition printTips :: "tip_level \<Rightarrow> tip_text \<Rightarrow> 'o client_window \<Rightarrow> 'o client_window" where
  "printTips level t u = u\<lparr>label_tips := Some (level, t)\<rparr>"

definition printTextBrowser :: "browser_line \<Rightarrow> 'o client_window \<Rightarrow> 'o client_window" where
  "printTextBrowser l u = u\<lparr>textBrowser := textBrowser u @ [l]\<rparr>"

definition checkCommandReturn :: "byte \<Rightarrow> ui_command \<Rightarrow> 'o client_window \<Rightarrow> 'o client_window" where
  "checkCommandReturn ret h u =
     (if ret = 0xff then printTips WARN_TIPS No_answer u
      else if ret = 0x0 then printTips ERROR_TIPS (Failed h) u
      else if ret = 0x1 then printTips SUCCESS_TIPS (Succeeded h) u
      else u)"

text \<open>The state of the network, with the client once there is one.\<close>

definition ui_world :: "'o client_window \<Rightarrow> 'o" where
  "ui_world u = (case ui_client u of None \<Rightarrow> ui_os u | Some c \<Rightarrow> pyos c)"

definition buttonConnectionClicked :: "'o py_net \<Rightarrow> nat list \<Rightarrow> nat list \<Rightarrow> 'o client_window \<Rightarrow> 'o client_window" where
  "buttonConnectionClicked api ip_text port_text u =
     (if startFlag u = 0 then
        (case py_int port_text of
           None \<Rightarrow> printTips ERROR_TIPS Bad_address u
         | Some port \<Rightarrow>
             let (ret, c) = initClient api (stupidP2PClient_init ip_text port (ui_world u));
                 u = u\<lparr>ui_client := Some c\<rparr> in
             if ret then (printTips SUCCESS_TIPS Connected u)\<lparr>startFlag := 1, ui_recvThread := Some Thread_running\<rparr>
             else printTips ERROR_TIPS Not_connected u)
      else u)"

text \<open>The guard all other buttons begin with.\<close>

definition with_connection :: "('o client_window \<Rightarrow> 'o client_window option) \<Rightarrow> 'o client_window \<Rightarrow> 'o client_window option" where
  "with_connection slot u = (if startFlag u = 0 then Some (printTips WARN_TIPS Connect_first u) else slot u)"

text \<open>A call of the client and the tip on its result.\<close>

definition ui_call ::
  "('o stupidP2PClient \<Rightarrow> (byte \<times> 'o stupidP2PClient) option) \<Rightarrow> ui_command \<Rightarrow> 'o client_window \<Rightarrow> 'o client_window option" where
  "ui_call f h u = do {
     c \<leftarrow> ui_client u;
     (ret, c) \<leftarrow> f c;
     Some (checkCommandReturn ret h (u\<lparr>ui_client := Some c\<rparr>)) }"

definition buttonRegisterClicked where
  "buttonRegisterClicked api env id_text = with_connection (\<lambda>u.
     let u = u\<lparr>ui_deviceId := Some id_text\<rparr> in
     if id_text = [] then Some (printTips ERROR_TIPS Bad_own_id u)
     else ui_call (registerDevice api env id_text) Ui_register u)"

text \<open>After the warning about an empty id the slot goes on.\<close>

definition buttonUnregisterCliecked where
  "buttonUnregisterCliecked api env = with_connection (\<lambda>u. do {
     d \<leftarrow> ui_deviceId u;
     let u = (if d = [] then printTips WARN_TIPS Not_registered u else u);
     ui_call (unregisterDevice api env) Ui_unregister u })"

definition buttoCheckAliveCliecked where
  "buttoCheckAliveCliecked api env id_text = with_connection (\<lambda>u.
     if id_text = [] then Some (printTips ERROR_TIPS Bad_subscribe_id u)
     else ui_call (checkDeviceAlive api env id_text) Ui_check u)"

definition buttonSubscribeCliecked where
  "buttonSubscribeCliecked api env id_text = with_connection (\<lambda>u.
     let u = u\<lparr>ui_subscribeId := Some id_text\<rparr> in
     if id_text = [] then Some (printTips ERROR_TIPS Bad_subscribe_id u)
     else ui_call (subscribeDevice api env id_text) Ui_subscribe u)"

definition buttonUnsubscribeCliecked where
  "buttonUnsubscribeCliecked api env = with_connection (\<lambda>u. do {
     d \<leftarrow> ui_subscribeId u;
     let u = (if d = [] then printTips WARN_TIPS Not_subscribed u else u);
     ui_call (unscribeDevice api env d) Ui_unsubscribe u })"

definition buttonSendDataCliecked where
  "buttonSendDataCliecked api env input = with_connection (\<lambda>u.
     if input = [] then Some u
     else map_option (printTextBrowser (Sent_text input)) (ui_call (sendData api env input) Ui_send u))"

text \<open>The loop over fetched messages: the lines before the first one that is not valid UTF-8, and whether there was one.\<close>

fun show_data :: "bytes list \<Rightarrow> browser_line list \<times> bool" where
  "show_data [] = ([], False)"
| "show_data (d # ds) =
     (case utf8_decode d of
        None \<Rightarrow> ([], True)
      | Some s \<Rightarrow> (case show_data ds of (ls, died) \<Rightarrow> (Received_text s # ls, died)))"

definition ui_recv_step :: "'o client_window \<Rightarrow> 'o client_window option" where
  "ui_recv_step u =
     (if ui_recvThread u \<noteq> Some Thread_running then Some u
      else do {
        c \<leftarrow> ui_client u;
        (dataList, c) \<leftarrow> recvData c;
        let (ls, died) = show_data dataList;
        Some (u\<lparr>ui_client := Some c, textBrowser := textBrowser u @ ls,
                ui_recvThread := Some (if died then Thread_died else Thread_running)\<rparr>) })"

text \<open>\<open>yes\<close> is the answer to the question; the result tells whether the event is accepted.\<close>

definition closeEvent :: "'o py_net \<Rightarrow> bool \<Rightarrow> 'o client_window \<Rightarrow> (bool \<times> 'o client_window) option" where
  "closeEvent api yes u =
     (if \<not> yes then Some (False, u)
      else if startFlag u = 1 then do {
        c \<leftarrow> ui_client u;
        c \<leftarrow> deinitClient api c;
        t \<leftarrow> ui_recvThread u;
        Some (True, u\<lparr>ui_client := Some c, ui_recvThread := Some (if t = Thread_died then t else Thread_stopped), startFlag := 0\<rparr>) }
      else Some (True, u))"

text \<open>
  \<^verbatim>\<open>buttonAction\<close>: which slot a click runs, with the contents of the input fields the slot reads.
\<close>

datatype ui_button =
  pushButton_connection | pushButton_register | pushButton_unregister | pushButton_check_alive
| pushButton_subscribe | pushButton_unsubscribe | pushButton_send_data

record ui_form =
  lineEdit_server_ip :: "nat list"
  lineEdit_server_port :: "nat list"
  lineEdit_my_id :: "nat list"
  lineEdit_subscribe_id :: "nat list"
  textEdit_input :: "nat list"

fun buttonAction where
  "buttonAction api env form pushButton_connection u =
     Some (buttonConnectionClicked api (lineEdit_server_ip form) (lineEdit_server_port form) u)"
| "buttonAction api env form pushButton_register u = buttonRegisterClicked api env (lineEdit_my_id form) u"
| "buttonAction api env form pushButton_unregister u = buttonUnregisterCliecked api env u"
| "buttonAction api env form pushButton_check_alive u = buttoCheckAliveCliecked api env (lineEdit_subscribe_id form) u"
| "buttonAction api env form pushButton_subscribe u = buttonSubscribeCliecked api env (lineEdit_subscribe_id form) u"
| "buttonAction api env form pushButton_unsubscribe u = buttonUnsubscribeCliecked api env u"
| "buttonAction api env form pushButton_send_data u = buttonSendDataCliecked api env (textEdit_input form) u"

section \<open>The script of the client module\<close>

text \<open>
  The main program of \<^verbatim>\<open>stupidP2P.py\<close>. \<open>envs k\<close> is what the other threads do during its \<open>k\<close>-th command.
  The result has what the two \<^verbatim>\<open>print\<close> calls show, the second one only with a connection.
\<close>

definition py_str :: "string \<Rightarrow> nat list" where
  "py_str s = map of_char s"

definition py_main ::
  "'o py_net \<Rightarrow> (nat \<Rightarrow> nat \<Rightarrow> 'o stupidP2PClient \<Rightarrow> 'o stupidP2PClient) \<Rightarrow> 'o \<Rightarrow>
   (bool \<times> bytes list option \<times> 'o stupidP2PClient) option" where
  "py_main api envs w =
     (let (ret, c) = initClient api (stupidP2PClient_init (py_str ''192.168.11.63'') 4040 w) in
      if ret then do {
        (_, c) \<leftarrow> registerDevice api (envs 0) (py_str ''client1'') c;
        (_, c) \<leftarrow> checkDeviceAlive api (envs 1) (py_str ''client2'') c;
        (_, c) \<leftarrow> subscribeDevice api (envs 2) (py_str ''clinet2'') c;
        (_, c) \<leftarrow> sendData api (envs 3) (py_str ''hello'') c;
        (dataList, c) \<leftarrow> recvData c;
        (_, c) \<leftarrow> unscribeDevice api (envs 4) (py_str ''client2'') c;
        (_, c) \<leftarrow> unregisterDevice api (envs 5) c;
        c \<leftarrow> deinitClient api c;
        Some (ret, Some dataList, c) }
      else Some (ret, None, c))"

section \<open>The window in order\<close>

definition window_ok :: "'o client_window \<Rightarrow> bool" where
  "window_ok u \<longleftrightarrow> startFlag u \<in> {0, 1} \<and>
     (startFlag u = 1 \<longrightarrow> ui_recvThread u \<noteq> None \<and> (\<exists>c. ui_client u = Some c \<and> py_started c)) \<and>
     (ui_recvThread u = Some Thread_running \<longrightarrow> startFlag u = 1)"

definition encodable :: "nat list \<Rightarrow> bool" where
  "encodable s \<longleftrightarrow> (\<exists>bs. utf8 s = Some bs \<and> length bs < 2 ^ 32 - 1)"

lemma encodable_nil: "encodable []"
  by (simp add: encodable_def)

lemma window_ok_simps [simp]:
  "window_ok (printTips l t u) = window_ok u" "window_ok (printTextBrowser b u) = window_ok u"
  "window_ok (checkCommandReturn ret h u) = window_ok u"
  "window_ok (u\<lparr>ui_deviceId := d\<rparr>) = window_ok u" "window_ok (u\<lparr>ui_subscribeId := d\<rparr>) = window_ok u"
  by (simp_all add: window_ok_def printTips_def printTextBrowser_def checkCommandReturn_def)

lemma ui_simps [simp]:
  "startFlag (printTips l t u) = startFlag u" "ui_client (printTips l t u) = ui_client u"
  "ui_deviceId (printTips l t u) = ui_deviceId u" "ui_subscribeId (printTips l t u) = ui_subscribeId u"
  by (simp_all add: printTips_def)

lemma window_ok_client: "window_ok u \<Longrightarrow> startFlag u \<noteq> 0 \<Longrightarrow> \<exists>c. ui_client u = Some c \<and> py_started c"
  by (auto simp: window_ok_def)

lemma window_ok_set_client: "window_ok u \<Longrightarrow> py_started c \<Longrightarrow> window_ok (u\<lparr>ui_client := Some c\<rparr>)"
  by (simp add: window_ok_def)

text \<open>A method of the client that returns and keeps the client started.\<close>

definition client_call :: "('o stupidP2PClient \<Rightarrow> (byte \<times> 'o stupidP2PClient) option) \<Rightarrow> bool" where
  "client_call f \<longleftrightarrow> (\<forall>c. py_started c \<longrightarrow> (\<exists>r c'. f c = Some (r, c') \<and> py_started c'))"

lemma sendCommand_call: "env_ok env \<Longrightarrow> i < backIndexMax \<Longrightarrow> length data < 2 ^ 32 - 1 \<Longrightarrow> client_call (sendCommand api env i data)"
  using sendCommand_total by (fastforce simp: client_call_def py_started_def)

lemma client_calls:
  assumes "env_ok env"
  shows "client_call (unregisterDevice api env)" "encodable s \<Longrightarrow> client_call (registerDevice api env s)"
    "encodable s \<Longrightarrow> client_call (checkDeviceAlive api env s)" "encodable s \<Longrightarrow> client_call (subscribeDevice api env s)"
    "encodable s \<Longrightarrow> client_call (unscribeDevice api env s)" "encodable s \<Longrightarrow> client_call (sendData api env s)"
proof -
  note call = sendCommand_call [OF assms, of _ _ api]
  show "client_call (unregisterDevice api env)"
    using call [of unregisterCommand "[]"] by (simp add: unregisterDevice_def [abs_def] const_simps)
  assume "encodable s"
  then obtain bs where bs: "utf8 s = Some bs" "length bs < 2 ^ 32 - 1" by (auto simp: encodable_def)
  note c = call [OF _ bs(2)]
  have "py_started (c\<lparr>client_deviceId := d\<rparr>) = py_started c" for c :: "'a stupidP2PClient" and d
    by (simp add: py_started_def py_ok_def)
  then show "client_call (registerDevice api env s)"
    using c [of registerCommand] bs(1) by (simp add: registerDevice_def client_call_def const_simps)
  show "client_call (checkDeviceAlive api env s)" "client_call (subscribeDevice api env s)" "client_call (unscribeDevice api env s)"
    using c [of checkCommand] c [of subscribeCommand] c [of unsubscribeCommand] bs(1)
    by (simp_all add: checkDeviceAlive_def subscribeDevice_def unscribeDevice_def client_call_def const_simps)
  show "client_call (sendData api env s)"
    using c [of sendDataCommand] bs(1) by (auto simp: sendData_def client_call_def const_simps)
qed

lemma ui_call_ok:
  assumes "client_call f" "window_ok u" "startFlag u \<noteq> 0"
  shows "\<exists>u'. ui_call f h u = Some u' \<and> window_ok u'"
proof -
  obtain c where c: "ui_client u = Some c" "py_started c" using window_ok_client [OF assms(2,3)] by blast
  then obtain r c' where "f c = Some (r, c')" "py_started c'" using assms(1) by (auto simp: client_call_def)
  then show ?thesis using c window_ok_set_client [OF assms(2)] by (simp add: ui_call_def)
qed

lemma with_connection_ok:
  assumes "window_ok u" "startFlag u \<noteq> 0 \<Longrightarrow> \<exists>u'. slot u = Some u' \<and> window_ok u'"
  shows "\<exists>u'. with_connection slot u = Some u' \<and> window_ok u'"
  using assms by (cases "startFlag u = 0") (auto simp: with_connection_def)

lemma slots_ok:
  assumes ok: "window_ok u" and env: "env_ok env"
  shows "encodable s \<Longrightarrow> \<exists>u'. buttonRegisterClicked api env s u = Some u' \<and> window_ok u'"
    "encodable s \<Longrightarrow> \<exists>u'. buttoCheckAliveCliecked api env s u = Some u' \<and> window_ok u'"
    "encodable s \<Longrightarrow> \<exists>u'. buttonSubscribeCliecked api env s u = Some u' \<and> window_ok u'"
    "encodable s \<Longrightarrow> \<exists>u'. buttonSendDataCliecked api env s u = Some u' \<and> window_ok u'"
    "startFlag u = 0 \<or> ui_deviceId u \<noteq> None \<Longrightarrow> \<exists>u'. buttonUnregisterCliecked api env u = Some u' \<and> window_ok u'"
    "startFlag u = 0 \<or> ui_subscribeId u = Some s \<Longrightarrow> encodable s \<Longrightarrow> \<exists>u'. buttonUnsubscribeCliecked api env u = Some u' \<and> window_ok u'"
proof -
  note calls = client_calls [OF env, where api = api]
  show "\<exists>u'. buttonRegisterClicked api env s u = Some u' \<and> window_ok u'" if "encodable s"
    unfolding buttonRegisterClicked_def using ui_call_ok [OF calls(2) [OF that], of "u\<lparr>ui_deviceId := Some s\<rparr>"] ok
    by (intro with_connection_ok [OF ok]) (auto simp: Let_def)
  show "\<exists>u'. buttoCheckAliveCliecked api env s u = Some u' \<and> window_ok u'" if "encodable s"
    unfolding buttoCheckAliveCliecked_def using ui_call_ok [OF calls(3) [OF that] ok] ok
    by (intro with_connection_ok [OF ok]) auto
  show "\<exists>u'. buttonSubscribeCliecked api env s u = Some u' \<and> window_ok u'" if "encodable s"
    unfolding buttonSubscribeCliecked_def using ui_call_ok [OF calls(4) [OF that], of "u\<lparr>ui_subscribeId := Some s\<rparr>"] ok
    by (intro with_connection_ok [OF ok]) (auto simp: Let_def)
  show "\<exists>u'. buttonSendDataCliecked api env s u = Some u' \<and> window_ok u'" if "encodable s"
    unfolding buttonSendDataCliecked_def using ui_call_ok [OF calls(6) [OF that] ok, of Ui_send] ok
    by (intro with_connection_ok [OF ok]) fastforce
  show "\<exists>u'. buttonUnregisterCliecked api env u = Some u' \<and> window_ok u'" if "startFlag u = 0 \<or> ui_deviceId u \<noteq> None"
    unfolding buttonUnregisterCliecked_def using that ui_call_ok [OF calls(1), of "printTips WARN_TIPS Not_registered u"] ui_call_ok [OF calls(1) ok] ok
    by (intro with_connection_ok [OF ok]) (auto simp: Let_def)
  show "\<exists>u'. buttonUnsubscribeCliecked api env u = Some u' \<and> window_ok u'" if "startFlag u = 0 \<or> ui_subscribeId u = Some s" "encodable s"
    unfolding buttonUnsubscribeCliecked_def
    using that(1) ui_call_ok [OF calls(5) [OF that(2)], of "printTips WARN_TIPS Not_subscribed u"] ui_call_ok [OF calls(5) [OF that(2)] ok] ok
    by (intro with_connection_ok [OF ok]) (auto simp: Let_def)
qed

lemma connection_ok:
  assumes "window_ok u"
  shows "window_ok (buttonConnectionClicked api ip port u)"
proof (cases "startFlag u = 0 \<and> py_int port \<noteq> None")
  case True
  then obtain n where n: "startFlag u = 0" "py_int port = Some n" by blast
  let ?c = "stupidP2PClient_init ip n (ui_world u)"
  obtain ret c where c: "initClient api ?c = (ret, c)" by fastforce
  have "py_ok ?c" by (simp add: stupidP2PClient_init_def py_ok_def)
  from initClient_ok [OF this c] show ?thesis
    using n c assms by (auto simp: buttonConnectionClicked_def window_ok_def printTips_def Let_def)
next
  case False
  then show ?thesis using assms by (auto simp: buttonConnectionClicked_def split: option.splits)
qed

lemma recvData_call:
  assumes "py_started c"
  obtains ds c' where "recvData c = Some (ds, c')" "py_started c'"
proof -
  have "recvData c \<noteq> None" using assms by (auto simp: recvData_def py_started_def split: prod.split)
  then obtain ds c' where r: "recvData c = Some (ds, c')" by fastforce
  then show ?thesis using py_step_started [OF py_fetch [OF r] assms] by (rule that)
qed

lemma ui_recv_step_ok:
  assumes "window_ok u"
  shows "\<exists>u'. ui_recv_step u = Some u' \<and> window_ok u'"
proof (cases "ui_recvThread u = Some Thread_running")
  case True
  then obtain c t where c: "ui_client u = Some c" "py_started c" "recvThread c = Some t" "startFlag u = 1"
    using assms by (auto simp: window_ok_def py_started_def)
  obtain ds c' where r: "recvData c = Some (ds, c')" "py_started c'" using recvData_call [OF c(2)] .
  then show ?thesis using True c r assms by (auto simp: ui_recv_step_def window_ok_def split: prod.splits)
next
  case False
  then show ?thesis using assms by (simp add: ui_recv_step_def)
qed

lemma closeEvent_ok:
  assumes "window_ok u"
  shows "\<exists>b u'. closeEvent api yes u = Some (b, u') \<and> window_ok u'"
proof (cases "yes \<and> startFlag u = 1")
  case True
  then obtain c t where c: "ui_client u = Some c" "py_started c" "ui_recvThread u = Some t"
    using assms by (auto simp: window_ok_def)
  then obtain c' where "deinitClient api c = Some c'" using deinitClient_ok [of c api] by (auto simp: py_started_def)
  then show ?thesis using True c by (auto simp: closeEvent_def window_ok_def)
next
  case False
  then show ?thesis using assms by (auto simp: closeEvent_def)
qed

section \<open>All interleavings of the user, the threads and the network\<close>

inductive ui_step :: "'o py_net \<Rightarrow> 'o client_window \<Rightarrow> 'o client_window \<Rightarrow> bool" for api where
  "ui_step api u (buttonConnectionClicked api ip port u)"
| "buttonRegisterClicked api env s u = Some u' \<Longrightarrow> env_ok env \<Longrightarrow> encodable s \<Longrightarrow> ui_step api u u'"
| "buttonUnregisterCliecked api env u = Some u' \<Longrightarrow> env_ok env \<Longrightarrow> ui_step api u u'"
| "buttoCheckAliveCliecked api env s u = Some u' \<Longrightarrow> env_ok env \<Longrightarrow> encodable s \<Longrightarrow> ui_step api u u'"
| "buttonSubscribeCliecked api env s u = Some u' \<Longrightarrow> env_ok env \<Longrightarrow> encodable s \<Longrightarrow> ui_step api u u'"
| "buttonUnsubscribeCliecked api env u = Some u' \<Longrightarrow> env_ok env \<Longrightarrow> ui_step api u u'"
| "buttonSendDataCliecked api env s u = Some u' \<Longrightarrow> env_ok env \<Longrightarrow> encodable s \<Longrightarrow> ui_step api u u'"
| "ui_recv_step u = Some u' \<Longrightarrow> ui_step api u u'"
| "closeEvent api yes u = Some (b, u') \<Longrightarrow> ui_step api u u'"
| "ui_client u = Some c \<Longrightarrow> py_step api c c' \<Longrightarrow> ui_step api u (u\<lparr>ui_client := Some c'\<rparr>)"

definition window_new :: "'o client_window \<Rightarrow> bool" where
  "window_new u \<longleftrightarrow> (\<exists>w. u = client_window_init w)"

definition window_good :: "'o client_window \<Rightarrow> bool" where
  "window_good u \<longleftrightarrow> window_ok u \<and> (\<forall>d. ui_subscribeId u = Some d \<longrightarrow> encodable d)"

lemma slots_subscribeId:
  "ui_subscribeId (buttonConnectionClicked api ip port u) = ui_subscribeId u"
  "buttonRegisterClicked api env s u = Some u' \<Longrightarrow> ui_subscribeId u' = ui_subscribeId u"
  "buttonUnregisterCliecked api env u = Some u' \<Longrightarrow> ui_subscribeId u' = ui_subscribeId u"
  "buttoCheckAliveCliecked api env s u = Some u' \<Longrightarrow> ui_subscribeId u' = ui_subscribeId u"
  "buttonUnsubscribeCliecked api env u = Some u' \<Longrightarrow> ui_subscribeId u' = ui_subscribeId u"
  "buttonSendDataCliecked api env s u = Some u' \<Longrightarrow> ui_subscribeId u' = ui_subscribeId u"
  "ui_recv_step u = Some u' \<Longrightarrow> ui_subscribeId u' = ui_subscribeId u"
  "closeEvent api yes u = Some (b, u') \<Longrightarrow> ui_subscribeId u' = ui_subscribeId u"
  "buttonSubscribeCliecked api env s u = Some u' \<Longrightarrow> ui_subscribeId u' \<in> {ui_subscribeId u, Some s}"
proof -
  have call: "ui_subscribeId u2 = ui_subscribeId u1" if "ui_call f h u1 = Some u2" for f h and u1 u2 :: "'a client_window"
    using that by (auto simp: ui_call_def checkCommandReturn_def bind_eq_Some_conv)
  note defs = with_connection_def Let_def bind_eq_Some_conv
  show "ui_subscribeId (buttonConnectionClicked api ip port u) = ui_subscribeId u"
    by (simp add: buttonConnectionClicked_def printTips_def Let_def split: option.splits prod.splits)
  show "buttonRegisterClicked api env s u = Some u' \<Longrightarrow> ui_subscribeId u' = ui_subscribeId u"
    by (auto simp: buttonRegisterClicked_def defs dest!: call split: if_splits)
  show "buttonUnregisterCliecked api env u = Some u' \<Longrightarrow> ui_subscribeId u' = ui_subscribeId u"
    by (auto simp: buttonUnregisterCliecked_def defs dest!: call split: if_splits)
  show "buttoCheckAliveCliecked api env s u = Some u' \<Longrightarrow> ui_subscribeId u' = ui_subscribeId u"
    by (auto simp: buttoCheckAliveCliecked_def defs dest!: call split: if_splits)
  show "buttonUnsubscribeCliecked api env u = Some u' \<Longrightarrow> ui_subscribeId u' = ui_subscribeId u"
    by (auto simp: buttonUnsubscribeCliecked_def defs dest!: call split: if_splits)
  show "buttonSendDataCliecked api env s u = Some u' \<Longrightarrow> ui_subscribeId u' = ui_subscribeId u"
    by (auto simp: buttonSendDataCliecked_def printTextBrowser_def defs dest!: call split: if_splits)
  show "ui_recv_step u = Some u' \<Longrightarrow> ui_subscribeId u' = ui_subscribeId u"
    by (cases "ui_recvThread u = Some Thread_running")
       (auto simp: ui_recv_step_def bind_eq_Some_conv Let_def case_prod_beta)
  show "closeEvent api yes u = Some (b, u') \<Longrightarrow> ui_subscribeId u' = ui_subscribeId u"
    by (auto simp: closeEvent_def bind_eq_Some_conv split: if_splits)
  show "buttonSubscribeCliecked api env s u = Some u' \<Longrightarrow> ui_subscribeId u' \<in> {ui_subscribeId u, Some s}"
    by (auto simp: buttonSubscribeCliecked_def defs dest!: call split: if_splits)
qed

lemma unregister_raises: "window_ok u \<Longrightarrow> env_ok env \<Longrightarrow>
    buttonUnregisterCliecked api env u = None \<longleftrightarrow> startFlag u = 1 \<and> ui_deviceId u = None"
  using slots_ok(5) [of u env api]
  by (cases "startFlag u = 0 \<or> ui_deviceId u \<noteq> None")
     (auto simp: buttonUnregisterCliecked_def with_connection_def window_ok_def)

lemma unsubscribe_raises: "window_good u \<Longrightarrow> env_ok env \<Longrightarrow>
    buttonUnsubscribeCliecked api env u = None \<longleftrightarrow> startFlag u = 1 \<and> ui_subscribeId u = None"
  using slots_ok(6) [of u env _ api]
  by (cases "startFlag u = 0"; cases "ui_subscribeId u")
     (auto simp: buttonUnsubscribeCliecked_def with_connection_def window_ok_def window_good_def)

lemma ui_step_good:
  assumes "window_good u" "ui_step api u u'"
  shows "window_good u'"
proof -
  have ok: "window_ok u" and sub: "\<And>d. ui_subscribeId u = Some d \<Longrightarrow> encodable d"
    using assms(1) by (auto simp: window_good_def)
  note s = slots_ok [OF ok] slots_subscribeId
  from assms(2) show ?thesis
  proof cases
    case (1 ip port)
    then show ?thesis using assms(1) connection_ok [OF ok, of api ip port] slots_subscribeId(1) [of api ip port u] by (auto simp: window_good_def)
  next
    case (2 env t)
    then show ?thesis using assms(1) s(1) [of env t api] slots_subscribeId(2) [of api env t u u'] by (auto simp: window_good_def)
  next
    case (3 env)
    then have "startFlag u = 0 \<or> ui_deviceId u \<noteq> None" using unregister_raises [OF ok, of env api] ok by (auto simp: window_ok_def)
    from s(5) [OF 3(2) this, of api] show ?thesis
      using assms(1) 3 slots_subscribeId(3) [of api env u u'] by (auto simp: window_good_def)
  next
    case (4 env t)
    then show ?thesis using assms(1) s(2) [of env t api] slots_subscribeId(4) [of api env t u u'] by (auto simp: window_good_def)
  next
    case (5 env t)
    then show ?thesis using sub s(3) [of env t api] slots_subscribeId(9) [of api env t u u'] by (auto simp: window_good_def)
  next
    case (6 env)
    then have "startFlag u = 0 \<or> ui_subscribeId u \<noteq> None"
      using unsubscribe_raises [OF assms(1), of env api] ok by (auto simp: window_ok_def)
    then obtain t where "startFlag u = 0 \<or> ui_subscribeId u = Some t" "encodable t"
      using sub encodable_nil by (cases "ui_subscribeId u") blast+
    from s(6) [OF 6(2) this, of api] show ?thesis
      using assms(1) 6 slots_subscribeId(5) [of api env u u'] by (auto simp: window_good_def)
  next
    case (7 env t)
    then show ?thesis using assms(1) s(4) [of env t api] slots_subscribeId(6) [of api env t u u'] by (auto simp: window_good_def)
  next
    case 8
    then show ?thesis using assms(1) ui_recv_step_ok [OF ok] slots_subscribeId(7) [of u u'] by (auto simp: window_good_def)
  next
    case (9 yes b)
    then show ?thesis using assms(1) closeEvent_ok [OF ok, of api yes] slots_subscribeId(8) [of api yes u b u'] by (auto simp: window_good_def)
  next
    case (10 c c')
    then show ?thesis using assms(1) py_step_started [OF 10(3)] by (auto simp: window_good_def window_ok_def)
  qed
qed

interpretation window: invariant_system window_new "ui_step api" window_good for api
proof unfold_locales
  show "window_good u" if "window_new u" for u :: "'a client_window"
    using that by (auto simp: window_new_def window_good_def window_ok_def client_window_init_def)
qed (rule ui_step_good)

section \<open>What the window guarantees\<close>

lemma show_data_texts:
  "list_all2 (\<lambda>d s. utf8_decode d = Some s) ds ss \<Longrightarrow> show_data ds = (map Received_text ss, False)"
  by (induction rule: list_all2_induct) auto

lemma show_data_invalid: "d \<in> set ds \<Longrightarrow> utf8_decode d = None \<Longrightarrow> snd (show_data ds)"
  by (induction ds) (auto split: option.splits prod.splits)

text \<open>The send button writes the text as one data package, waits for the answer, and shows what was sent.\<close>

lemma send_slot:
  assumes "startFlag u = 1" "ui_client u = Some c" "py_started c" "runningFlag c = 1" "needToRestartFlag c = 0" "sock c = Some k"
    and "env_ok env" "s \<noteq> []" "utf8 s = Some bs" "length bs < 2 ^ 32 - 1"
    and "py_sock_send api k (frame (3 # bs)) (pyos c) = (Some n, w)"
  shows "\<exists>u' c1 j. buttonSendDataCliecked api env s u = Some u' \<and> textBrowser u' = textBrowser u @ [Sent_text s] \<and>
    pyos c1 = w \<and> j \<le> 302 \<and> ui_client u' = Some (run_env env j c1)"
proof -
  obtain t where t: "recvThread c = Some t" using assms(3) by (rule py_startedE)
  have i: "sendDataCommand < backIndexMax" "byte_of_nat sendDataCommand = 3" by (simp_all add: const_simps byte_of_nat_def)
  obtain c1 j where c1: "pyos c1 = w" "j \<le> 302"
      "sendCommand api env sendDataCommand bs c = Some (response_of sendDataCommand (run_env env j c1), run_env env j c1)"
    using sendCommand_sent [OF assms(3-5) t assms(6) i(1) assms(10,7), unfolded i(2), OF assms(11)] by blast
  let ?u' = "printTextBrowser (Sent_text s) (checkCommandReturn (response_of sendDataCommand (run_env env j c1)) Ui_send
      (u\<lparr>ui_client := Some (run_env env j c1)\<rparr>))"
  have "buttonSendDataCliecked api env s u = Some ?u'"
    using assms c1(3) by (simp add: buttonSendDataCliecked_def with_connection_def ui_call_def sendData_def)
  moreover have "textBrowser ?u' = textBrowser u @ [Sent_text s]" "ui_client ?u' = Some (run_env env j c1)"
    by (simp_all add: printTextBrowser_def checkCommandReturn_def printTips_def)
  ultimately show ?thesis using c1 by blast
qed

text \<open>The segment that completes a data package of valid UTF-8 makes its text appear in the window.\<close>

lemma window_shows:
  assumes "ui_recvThread u = Some Thread_running" "py_started c" "runningFlag c = 1" "recvThread c = Some t"
    and "\<not> recv_stop t" "recvDataQueue t = []" "utf8_decode bs = Some s" "length bs < 2 ^ 31 - 1"
    and "rev (recvDeque t) @ seg = frame (3 # bs)" "py_sock_recv api (recv_sock t) 1024 (pyos c) = (Received seg, w)"
  shows "\<exists>t' u'. recv_run_step api t (pyos c) = Some (t', w) \<and>
    ui_recv_step (u\<lparr>ui_client := Some (c\<lparr>recvThread := Some t', pyos := w\<rparr>)\<rparr>) = Some u' \<and>
    textBrowser u' = textBrowser u @ [Received_text s] \<and> ui_recvThread u' = Some Thread_running"
proof -
  have t: "thread_ok t" using assms(2,4) by (auto simp: py_started_def py_ok_def)
  let ?t = "(fold py_handle [3 # bs] t)\<lparr>recvDeque := rev []\<rparr>"
  have f: "split_frames py_package_ok (rev (recvDeque t) @ seg) = ([3 # bs], [], False)"
    using split_frames_frame [of "3 # bs" py_package_ok "[]"] assms(8,9) by (simp add: split_frames_short py_package_ok_def)
  have r: "recv_run_step api t (pyos c) = Some (?t, w)"
    by (rule recv_run_step_ok [OF t assms(5,10) f]) (simp add: py_acceptable_def response_index_def const_simps)
  have q: "recvDataQueue ?t = [bs]"
    using fold_messages [OF t, of "[3 # bs]"] assms(6) by (simp add: data_messages_def response_index_def const_simps)
  let ?c = "c\<lparr>recvThread := Some ?t, pyos := w\<rparr>"
  have "recvData ?c = Some ([bs], ?c\<lparr>recvThread := Some (?t\<lparr>recvDataQueue := []\<rparr>)\<rparr>)"
    unfolding recvData_def using assms(3) q by (simp add: drain_eq del: fold_simps)
  then show ?thesis using r assms(1,7) by (simp add: ui_recv_step_def)
qed

text \<open>A window that has connected to the example network.\<close>

lemma ex_window:
  defines "u \<equiv> buttonConnectionClicked sim_py [49] [56, 48] (client_window_init \<lparr>py_out = [], py_in = [], py_refused = 0\<rparr>)"
  obtains c where "startFlag u = 1" "ui_client u = Some c" "py_started c" "runningFlag c = 1" "needToRestartFlag c = 0" "sock c = Some 4"
    "pyos c = \<lparr>py_out = [], py_in = [], py_refused = 0\<rparr>" "textBrowser u = []" "ui_deviceId u = None"
proof -
  have p: "py_int [56, 48] = Some 80" by code_simp
  let ?r = "initClient sim_py (stupidP2PClient_init [49] 80 \<lparr>py_out = [], py_in = [], py_refused = 0\<rparr>)"
  have i: "fst ?r" "sock (snd ?r) = Some 4" "needToRestartFlag (snd ?r) = 0" "pyos (snd ?r) = \<lparr>py_out = [], py_in = [], py_refused = 0\<rparr>"
    by (simp_all add: initClient_def sim_py_def stupidP2PClient_init_def)
  have "py_ok (stupidP2PClient_init [49] 80 \<lparr>py_out = [], py_in = [], py_refused = 0 :: nat\<rparr>)"
    by (simp add: stupidP2PClient_init_def py_ok_def)
  from initClient_ok(2) [OF this prod.collapse [symmetric] i(1)] show ?thesis
    using i by (intro that [of "snd ?r"])
      (simp_all add: u_def buttonConnectionClicked_def p client_window_init_def printTips_def ui_world_def Let_def case_prod_beta)
qed

text \<open>Clicks are steps of the window, and the buttons of a window in order that can raise.\<close>

definition form_ok :: "ui_form \<Rightarrow> bool" where
  "form_ok form \<longleftrightarrow> encodable (lineEdit_my_id form) \<and> encodable (lineEdit_subscribe_id form) \<and> encodable (textEdit_input form)"

lemma click_is_ui_step:
  assumes "buttonAction api env form b u = Some u'" "env_ok env" "form_ok form"
  shows "ui_step api u u'"
  using assms by (cases b) (auto simp: form_ok_def intro: ui_step.intros)

lemma click_raises_iff:
  assumes "window_good u" "env_ok env" "form_ok form"
  shows "buttonAction api env form b u = None \<longleftrightarrow>
    startFlag u = 1 \<and> (b = pushButton_unregister \<and> ui_deviceId u = None \<or> b = pushButton_unsubscribe \<and> ui_subscribeId u = None)"
proof -
  have ok: "window_ok u" using assms(1) by (simp add: window_good_def)
  note raises = unregister_raises [OF ok assms(2), of api] unsubscribe_raises [OF assms(1,2), of api]
  note e = assms(3) [unfolded form_ok_def]
  show ?thesis
    using slots_ok(1) [OF ok assms(2), of "lineEdit_my_id form" api] slots_ok(2,3) [OF ok assms(2), of "lineEdit_subscribe_id form" api]
      slots_ok(4) [OF ok assms(2), of "textEdit_input form" api] raises e
    by (cases b) auto
qed

text \<open>The script of the module ends without an exception and leaves a stopped client, whatever the network and the threads do.\<close>

lemma encodable_str: "list_all (\<lambda>c. of_char c < (0x80 :: nat)) s \<Longrightarrow> length s < 2 ^ 32 - 1 \<Longrightarrow> encodable (py_str s)"
proof -
  have "list_all (\<lambda>c. of_char c < (0x80 :: nat)) s \<Longrightarrow> \<exists>bs. utf8 (py_str s) = Some bs \<and> length bs = length s"
    by (induction s) (auto simp: py_str_def utf8_char_def)
  then show "list_all (\<lambda>c. of_char c < (0x80 :: nat)) s \<Longrightarrow> length s < 2 ^ 32 - 1 \<Longrightarrow> encodable (py_str s)"
    by (auto simp: encodable_def)
qed

lemma client_callE:
  assumes "client_call f" "py_started c"
  obtains r c' where "f c = Some (r, c')" "py_started c'"
  using assms by (auto simp: client_call_def)

theorem py_main_returns:
  assumes "\<And>k. env_ok (envs k)"
  shows "\<exists>ret printed c. py_main api envs w = Some (ret, printed, c) \<and> runningFlag c = 0 \<and> (ret \<longleftrightarrow> printed \<noteq> None)"
proof -
  let ?c0 = "stupidP2PClient_init (py_str ''192.168.11.63'') 4040 w"
  obtain ret c1 where c1: "initClient api ?c0 = (ret, c1)" by fastforce
  have ok: "py_ok ?c0" by (simp add: stupidP2PClient_init_def py_ok_def)
  show ?thesis
  proof (cases ret)
    case False
    then have "runningFlag c1 = 0" using c1 by (auto simp: initClient_def stupidP2PClient_init_def Let_def split: prod.splits if_splits)
    then show ?thesis using c1 False by (auto simp: py_main_def)
  next
    case True
    then have "py_started c1" using initClient_ok(2) [OF ok c1] by simp
    note calls = client_calls [OF assms, where api = api]
    have e: "encodable (py_str ''client1'')" "encodable (py_str ''client2'')" "encodable (py_str ''clinet2'')" "encodable (py_str ''hello'')"
      by (rule encodable_str; simp)+
    obtain r2 c2 where c2: "registerDevice api (envs 0) (py_str ''client1'') c1 = Some (r2, c2)" "py_started c2"
      using client_callE [OF calls(2) [OF e(1)] \<open>py_started c1\<close>] .
    obtain r3 c3 where c3: "checkDeviceAlive api (envs 1) (py_str ''client2'') c2 = Some (r3, c3)" "py_started c3"
      using client_callE [OF calls(3) [OF e(2)] c2(2)] .
    obtain r4 c4 where c4: "subscribeDevice api (envs 2) (py_str ''clinet2'') c3 = Some (r4, c4)" "py_started c4"
      using client_callE [OF calls(4) [OF e(3)] c3(2)] .
    obtain r5 c5 where c5: "sendData api (envs 3) (py_str ''hello'') c4 = Some (r5, c5)" "py_started c5"
      using client_callE [OF calls(6) [OF e(4)] c4(2)] .
    obtain ds c6 where c6: "recvData c5 = Some (ds, c6)" "py_started c6" using recvData_call [OF c5(2)] .
    obtain r7 c7 where c7: "unscribeDevice api (envs 4) (py_str ''client2'') c6 = Some (r7, c7)" "py_started c7"
      using client_callE [OF calls(5) [OF e(2)] c6(2)] .
    obtain r8 c8 where c8: "unregisterDevice api (envs 5) c7 = Some (r8, c8)" "py_started c8"
      using client_callE [OF calls(1) c7(2)] .
    obtain c9 where c9: "deinitClient api c8 = Some c9" "runningFlag c9 = 0" using deinitClient_ok [of c8 api] c8(2) by (auto simp: py_started_def)
    show ?thesis using c1 True c2 c3 c4 c5 c6 c7 c8 c9 by (auto simp: py_main_def)
  qed
qed

text \<open>
  C31. Which slots of the window raise. In every window that the user's clicks, the receive thread of the
  window, the threads of its client and the network can produce, with texts that UTF-8 can encode: the
  connection, register, check, subscribe, send and close slots and the receive thread return; the
  unregister slot raises exactly when the window is connected and the register button was never pressed
  with a connection, the unsubscribe slot exactly when it is connected and the subscribe button never
  was.
\<close>

theorem window_raises_iff:
  assumes "window_new u0" "(ui_step api)\<^sup>*\<^sup>* u0 u" "env_ok env"
  shows "(encodable s \<longrightarrow> buttonRegisterClicked api env s u \<noteq> None \<and> buttoCheckAliveCliecked api env s u \<noteq> None \<and>
      buttonSubscribeCliecked api env s u \<noteq> None \<and> buttonSendDataCliecked api env s u \<noteq> None) \<and>
    (buttonUnregisterCliecked api env u = None \<longleftrightarrow> startFlag u = 1 \<and> ui_deviceId u = None) \<and>
    (buttonUnsubscribeCliecked api env u = None \<longleftrightarrow> startFlag u = 1 \<and> ui_subscribeId u = None) \<and>
    ui_recv_step u \<noteq> None \<and> closeEvent api yes u \<noteq> None"
proof -
  have good: "window_good u" by (rule window.reachable_good [OF assms(1,2)])
  then have ok: "window_ok u" by (simp add: window_good_def)
  show ?thesis
    using slots_ok(1-4) [OF ok assms(3), of s api] unregister_raises [OF ok assms(3), of api]
      unsubscribe_raises [OF good assms(3), of api] ui_recv_step_ok [OF ok] closeEvent_ok [OF ok, of api yes]
    by auto
qed

theorem window_raises_iff_witness:
  "let u = buttonConnectionClicked sim_py [49] [56, 48] (client_window_init \<lparr>py_out = [], py_in = [], py_refused = 0\<rparr>) in
     startFlag u = 1 \<and> buttonUnregisterCliecked sim_py (\<lambda>_ c. c) u = None \<and> buttonSendDataCliecked sim_py (\<lambda>_ c. c) [104] u \<noteq> None"
proof -
  let ?start = "client_window_init \<lparr>py_out = [], py_in = [], py_refused = 0\<rparr>"
  let ?u = "buttonConnectionClicked sim_py [49] [56, 48] ?start"
  have n: "window_new ?start" unfolding window_new_def by blast
  have st: "(ui_step sim_py)\<^sup>*\<^sup>* ?start ?u" by (rule r_into_rtranclp) (rule ui_step.intros(1))
  have e: "env_ok (\<lambda>_ (c :: sim_py_state stupidP2PClient). c)" by (simp add: env_ok_def)
  have u: "startFlag ?u = 1" "ui_deviceId ?u = None" by (rule ex_window, assumption)+
  have t: "encodable [104]" by (simp add: encodable_def utf8_char_def)
  show ?thesis unfolding Let_def using window_raises_iff [OF n st e, of "[104]" True] u t by blast
qed

end
