(* ===== verification/Muduo_LogStream.thy ===== *)
theory Muduo_LogStream
  imports Muduo_StringPiece
begin

text \<open>
  \<^verbatim>\<open>p2pServer/muduo/include/muduo/base/LogStream.h\<close> and the helpers of \<^verbatim>\<open>Types.h\<close> and
  \<^verbatim>\<open>Logging.h\<close> it works with: the fixed-size buffer a log line is composed in, the insertion
  operators that are inline in the header, and the base name of a source file. An append that does
  not fit is dropped as a whole, so that a line is never written past the buffer: \<open>fb_ok\<close> is kept by
  every operator and none of them faults. The formatting of numbers is outside the repository;
  \<open>insert_double\<close> is the parameter for \<^verbatim>\<open>operator<<(double)\<close>.
\<close>

section \<open>FixedBuffer\<close>

definition kSmallBuffer :: nat where
  [const_simps]: "kSmallBuffer = 4000"

definition kLargeBuffer :: nat where
  [const_simps]: "kLargeBuffer = 4000 * 1000"

datatype cookie = CookieStart | CookieEnd

text \<open>\<open>cur\<close> is the offset of \<^verbatim>\<open>cur_\<close> in \<^verbatim>\<open>data_\<close>, \<open>SIZE\<close> the length of \<open>fb_data\<close>.\<close>

record FixedBuffer =
  fb_cookie :: cookie
  fb_data :: bytes
  cur :: nat

definition setCookie :: "cookie \<Rightarrow> FixedBuffer \<Rightarrow> FixedBuffer" where
  "setCookie k b = b\<lparr>fb_cookie := k\<rparr>"

text \<open>The constructor leaves the array as it finds it.\<close>

definition FixedBuffer_new :: "bytes \<Rightarrow> FixedBuffer" where
  "FixedBuffer_new memory = setCookie CookieStart \<lparr>fb_cookie = CookieEnd, fb_data = memory, cur = 0\<rparr>"

definition FixedBuffer_destroy :: "FixedBuffer \<Rightarrow> FixedBuffer" where
  "FixedBuffer_destroy b = setCookie CookieEnd b"

definition fb_end :: "FixedBuffer \<Rightarrow> nat" where
  "fb_end b = length (fb_data b)"

definition fb_length :: "FixedBuffer \<Rightarrow> int" where
  "fb_length b = int_of_size (cur b)"

definition fb_current :: "FixedBuffer \<Rightarrow> nat" where
  "fb_current b = cur b"

text \<open>\<^verbatim>\<open>static_cast<int>(end() - cur_)\<close>, and its conversion to \<^verbatim>\<open>size_t\<close> by \<^verbatim>\<open>implicit_cast\<close>.\<close>

definition fb_avail :: "FixedBuffer \<Rightarrow> int" where
  "fb_avail b = sint (word_of_int (int (fb_end b) - int (cur b)) :: 32 word)"

definition implicit_cast_size :: "int \<Rightarrow> nat" where
  "implicit_cast_size n = nat (n mod 2 ^ 64)"

definition fb_append :: "bytes \<Rightarrow> nat \<Rightarrow> FixedBuffer \<Rightarrow> FixedBuffer option" where
  "fb_append buf len b =
     (if implicit_cast_size (fb_avail b) > len then do {
        assert_that (len \<le> length buf \<and> cur b + len \<le> fb_end b);
        Some (b\<lparr>fb_data := blit (fb_data b) (cur b) (take len buf), cur := cur b + len\<rparr>) }
      else Some b)"

definition fb_add :: "nat \<Rightarrow> FixedBuffer \<Rightarrow> FixedBuffer" where
  "fb_add len b = b\<lparr>cur := cur b + len\<rparr>"

definition fb_reset :: "FixedBuffer \<Rightarrow> FixedBuffer" where
  "fb_reset b = b\<lparr>cur := 0\<rparr>"

definition memZero :: "bytes \<Rightarrow> nat \<Rightarrow> bytes option" where
  "memZero p n = (if n \<le> length p then Some (blit p 0 (replicate n 0)) else None)"

definition fb_bzero :: "FixedBuffer \<Rightarrow> FixedBuffer option" where
  "fb_bzero b = do { d \<leftarrow> memZero (fb_data b) (length (fb_data b)); Some (b\<lparr>fb_data := d\<rparr>) }"

definition fb_toStringPiece :: "FixedBuffer \<Rightarrow> StringPiece" where
  "fb_toStringPiece b = StringPiece_new (fb_data b) (fb_length b)"

definition fb_toString :: "FixedBuffer \<Rightarrow> bytes option" where
  "fb_toString b = (if 0 \<le> fb_length b \<and> nat (fb_length b) \<le> length (fb_data b)
     then Some (take (nat (fb_length b)) (fb_data b)) else None)"

section \<open>LogStream\<close>

text \<open>A \<^verbatim>\<open>LogStream\<close> is its buffer; each operator returns the stream.\<close>

type_synonym LogStream = FixedBuffer

definition ls_bool :: "bool \<Rightarrow> LogStream \<Rightarrow> LogStream option" where
  "ls_bool v s = fb_append (if v then [0x31] else [0x30]) 1 s"

definition ls_float :: "('d \<Rightarrow> LogStream \<Rightarrow> LogStream option) \<Rightarrow> ('f \<Rightarrow> 'd) \<Rightarrow> 'f \<Rightarrow> LogStream \<Rightarrow> LogStream option" where
  "ls_float insert_double to_double v s = insert_double (to_double v) s"

definition ls_char :: "byte \<Rightarrow> LogStream \<Rightarrow> LogStream option" where
  "ls_char v s = fb_append [v] 1 s"

text \<open>A C string is the memory it points to; \<open>None\<close> is the null pointer.\<close>

definition ls_cstr :: "bytes option \<Rightarrow> LogStream \<Rightarrow> LogStream option" where
  "ls_cstr str s =
     (case str of
        Some p \<Rightarrow> do { n \<leftarrow> strlen p; fb_append p n s }
      | None \<Rightarrow> fb_append [0x28, 0x6e, 0x75, 0x6c, 0x6c, 0x29] 6 s)"

definition ls_ucstr :: "bytes option \<Rightarrow> LogStream \<Rightarrow> LogStream option" where
  "ls_ucstr str s = ls_cstr str s"

definition ls_string :: "bytes \<Rightarrow> LogStream \<Rightarrow> LogStream option" where
  "ls_string v s = fb_append v (length v) s"

definition ls_piece :: "StringPiece \<Rightarrow> LogStream \<Rightarrow> LogStream option" where
  "ls_piece v s = fb_append (sp_data v) (implicit_cast_size (sp_size v)) s"

definition ls_buffer :: "FixedBuffer \<Rightarrow> LogStream \<Rightarrow> LogStream option" where
  "ls_buffer v s = ls_piece (fb_toStringPiece v) s"

definition ls_append :: "bytes \<Rightarrow> int \<Rightarrow> LogStream \<Rightarrow> LogStream option" where
  "ls_append data len s = fb_append data (implicit_cast_size len) s"

definition resetBuffer :: "LogStream \<Rightarrow> LogStream" where
  "resetBuffer s = fb_reset s"

record Fmt =
  fmt_buf :: bytes
  fmt_length :: int

definition ls_fmt :: "Fmt \<Rightarrow> LogStream \<Rightarrow> LogStream option" where
  "ls_fmt fmt s = ls_append (fmt_buf fmt) (fmt_length fmt) s"

section \<open>Logging\<close>

datatype LogLevel = TRACE | DEBUG | INFO | WARN | ERROR | FATAL | NUM_LOG_LEVELS

fun level_value :: "LogLevel \<Rightarrow> nat" where
  "level_value TRACE = 0"
| "level_value DEBUG = 1"
| "level_value INFO = 2"
| "level_value WARN = 3"
| "level_value ERROR = 4"
| "level_value FATAL = 5"
| "level_value NUM_LOG_LEVELS = 6"

text \<open>
  The guard of the macros \<^verbatim>\<open>LOG_TRACE\<close>, \<^verbatim>\<open>LOG_DEBUG\<close> and \<^verbatim>\<open>LOG_INFO\<close>; the other macros have none.
\<close>

definition log_enabled :: "LogLevel \<Rightarrow> LogLevel \<Rightarrow> bool" where
  "log_enabled g_logLevel macro \<longleftrightarrow>
     (if macro = TRACE then level_value g_logLevel \<le> level_value TRACE
      else if macro = DEBUG then level_value g_logLevel \<le> level_value DEBUG
      else if macro = INFO then level_value g_logLevel \<le> level_value INFO
      else True)"

text \<open>\<^verbatim>\<open>strrchr\<close>: the part of a string from its last \<open>c\<close> on.\<close>

fun strrchr :: "byte \<Rightarrow> bytes \<Rightarrow> bytes option" where
  "strrchr c [] = None"
| "strrchr c (b # bs) = (case strrchr c bs of Some r \<Rightarrow> Some r | None \<Rightarrow> if b = c then Some (b # bs) else None)"

record SourceFile =
  sf_data :: bytes
  sf_size :: int

text \<open>
  The two constructors, on a string without its terminating zero: from an array of \<open>N\<close> bytes
  the size is computed from the pointers, from a pointer by \<^verbatim>\<open>strlen\<close>.
\<close>

definition SourceFile_array :: "bytes \<Rightarrow> SourceFile" where
  "SourceFile_array arr =
     (case strrchr 0x2f arr of
        Some slash \<Rightarrow> \<lparr>sf_data = tl slash, sf_size = int_of_size (length arr) - int_of_size (length arr - length (tl slash))\<rparr>
      | None \<Rightarrow> \<lparr>sf_data = arr, sf_size = int_of_size (length arr)\<rparr>)"

definition SourceFile_ptr :: "bytes \<Rightarrow> SourceFile" where
  "SourceFile_ptr filename =
     (let data = (case strrchr 0x2f filename of Some slash \<Rightarrow> tl slash | None \<Rightarrow> filename) in
      \<lparr>sf_data = data, sf_size = int_of_size (length data)\<rparr>)"

section \<open>No overflow\<close>

definition fb_ok :: "FixedBuffer \<Rightarrow> bool" where
  "fb_ok b \<longleftrightarrow> cur b < length (fb_data b) \<and> length (fb_data b) < 2 ^ 31"

definition fb_contents :: "FixedBuffer \<Rightarrow> bytes" where
  "fb_contents b = take (cur b) (fb_data b)"

lemma fb_avail_ok: "fb_ok b \<Longrightarrow> implicit_cast_size (fb_avail b) = length (fb_data b) - cur b"
proof -
  assume ok: "fb_ok b"
  let ?n = "length (fb_data b) - cur b"
  have n: "?n < 2 ^ 31" "int (length (fb_data b)) - int (cur b) = int ?n" using ok by (auto simp: fb_ok_def)
  have "fb_avail b = int ?n"
    unfolding fb_avail_def fb_end_def n(2) using sint_word_of_nat_32 [OF n(1)] by (simp only: of_int_of_nat_eq)
  then show ?thesis using ok by (simp add: implicit_cast_size_def fb_ok_def)
qed

text \<open>An append is all or nothing, and one byte always stays free.\<close>

lemma fb_append_ok:
  assumes "fb_ok b" "len \<le> length buf"
  shows "\<exists>b'. fb_append buf len b = Some b' \<and> fb_ok b' \<and> length (fb_data b') = length (fb_data b) \<and>
     fb_contents b' = (if cur b + len < length (fb_data b) then fb_contents b @ take len buf else fb_contents b)"
proof -
  have a: "implicit_cast_size (fb_avail b) = length (fb_data b) - cur b" by (rule fb_avail_ok [OF assms(1)])
  show ?thesis
  proof (cases "cur b + len < length (fb_data b)")
    case True
    let ?b = "b\<lparr>fb_data := blit (fb_data b) (cur b) (take len buf), cur := cur b + len\<rparr>"
    have "fb_append buf len b = Some ?b" using True assms a by (simp add: fb_append_def fb_end_def)
    moreover have "take (cur b + len) (blit (fb_data b) (cur b) (take len buf)) = take (cur b) (fb_data b) @ take len buf"
      using True assms by (simp add: blit_def fb_ok_def)
    ultimately show ?thesis using True assms by (simp add: fb_ok_def fb_contents_def)
  next
    case False
    then show ?thesis using assms a by (auto simp: fb_append_def)
  qed
qed

lemma strlen_le: "strlen p = Some n \<Longrightarrow> n < length p"
  by (induction p arbitrary: n) (auto split: if_splits)

lemma fb_toString_ok: "fb_ok b \<Longrightarrow> fb_toString b = Some (fb_contents b)"
  by (simp add: fb_toString_def fb_length_def fb_contents_def fb_ok_def)

section \<open>The base name\<close>

lemma strrchr_None: "strrchr c bs = None \<longleftrightarrow> c \<notin> set bs"
  by (induction bs) (auto split: option.splits)

lemma strrchr_Some: "strrchr c bs = Some r \<Longrightarrow> c \<in> set bs"
  using strrchr_None [of c bs] by auto

text \<open>Both constructors give the part after the last slash, with its exact length.\<close>

definition base_name :: "bytes \<Rightarrow> bytes" where
  "base_name path = rev (takeWhile (\<lambda>x. x \<noteq> 0x2f) (rev path))"

lemma tl_strrchr: "strrchr c bs = Some r \<Longrightarrow> tl r = rev (takeWhile (\<lambda>x. x \<noteq> c) (rev bs)) \<and> r \<noteq> [] \<and> length r \<le> length bs"
proof (induction bs arbitrary: r)
  case Nil
  then show ?case by simp
next
  case (Cons b bs)
  show ?case
  proof (cases "strrchr c bs")
    case (Some r')
    then have "c \<in> set bs" by (rule strrchr_Some)
    then have "takeWhile (\<lambda>x. x \<noteq> c) (rev bs @ [b]) = takeWhile (\<lambda>x. x \<noteq> c) (rev bs)" by (intro takeWhile_append1) auto
    then show ?thesis using Some Cons.IH Cons.prems by fastforce
  next
    case None
    then have "c \<notin> set bs" by (simp add: strrchr_None)
    then have "takeWhile (\<lambda>x. x \<noteq> c) (rev bs @ [b]) = rev bs @ takeWhile (\<lambda>x. x \<noteq> c) [b]" by (intro takeWhile_append2) auto
    then show ?thesis using None Cons.prems by (auto split: if_splits)
  qed
qed

lemma SourceFile_agree:
  assumes len: "length path < 2 ^ 31"
  shows "SourceFile_array path = \<lparr>sf_data = base_name path, sf_size = int (length (base_name path))\<rparr> \<and>
    SourceFile_ptr path = SourceFile_array path"
proof (cases "strrchr 0x2f path")
  case None
  then have "\<forall>x\<in>set (rev path). x \<noteq> 0x2f" by (auto simp: strrchr_None)
  then have "base_name path = path" by (simp only: base_name_def takeWhile_eq_all_conv [THEN iffD2] rev_rev_ident)
  then show ?thesis using None len by (simp add: SourceFile_array_def SourceFile_ptr_def)
next
  case (Some r)
  have r: "tl r = base_name path" "length (base_name path) < length path"
    using tl_strrchr [OF Some] by (cases r; auto simp: base_name_def)+
  then have "length path - length (base_name path) < 2 ^ 31" "length (base_name path) < 2 ^ 31" using len by linarith+
  then show ?thesis using Some len r by (simp add: SourceFile_array_def SourceFile_ptr_def of_nat_diff Let_def)
qed

end
