(* ===== verification/Muduo_Http.thy ===== *)
theory Muduo_Http
  imports Muduo_Timestamp
begin

text \<open>
  \<^verbatim>\<open>p2pServer/muduo/include/muduo/net/http\<close>: the request, its parse context and the response, as far
  as their methods are inline in the headers. A \<^verbatim>\<open>std::string\<close> is its bytes, a
  \<^verbatim>\<open>std::map<string, string>\<close> a finite map, a pair of pointers into a buffer is a buffer with two
  offsets. The lemmas: a method name and its code determine each other, a header line is found again
  under its name with the white space around its value removed, and \<^verbatim>\<open>reset\<close> makes a context as good
  as a new one. \<^verbatim>\<open>parseRequest\<close>, \<^verbatim>\<open>processRequestLine\<close> and \<^verbatim>\<open>appendToBuffer\<close> are defined in the
  binary library.
\<close>

type_synonym headers = "bytes \<rightharpoonup> bytes"

section \<open>HttpRequest\<close>

datatype Method = kInvalid | kGet | kPost | kHead | kPut | kDelete

datatype Version = kUnknown | kHttp10 | kHttp11

record HttpRequest =
  req_method :: Method
  req_version :: Version
  req_path :: bytes
  req_query :: bytes
  req_receiveTime :: Timestamp
  req_headers :: headers

definition HttpRequest_new :: HttpRequest where
  "HttpRequest_new = \<lparr>req_method = kInvalid, req_version = kUnknown, req_path = [], req_query = [],
     req_receiveTime = Timestamp_default, req_headers = Map.empty\<rparr>"

definition setVersion :: "Version \<Rightarrow> HttpRequest \<Rightarrow> HttpRequest" where
  "setVersion v r = r\<lparr>req_version := v\<rparr>"

definition getVersion :: "HttpRequest \<Rightarrow> Version" where
  "getVersion r = req_version r"

text \<open>\<^verbatim>\<open>string(start, end)\<close> for two offsets into a buffer; outside the buffer it is undefined.\<close>

definition string_range :: "bytes \<Rightarrow> nat \<Rightarrow> nat \<Rightarrow> bytes option" where
  "string_range buf start end_ptr =
     (if start \<le> end_ptr \<and> end_ptr \<le> length buf then Some (take (end_ptr - start) (drop start buf)) else None)"

text \<open>The bytes of a string literal.\<close>

definition lit :: "string \<Rightarrow> bytes" where
  "lit s = map of_char s"

definition method_of :: "bytes \<Rightarrow> Method" where
  "method_of m =
     (if m = lit ''GET'' then kGet
      else if m = lit ''POST'' then kPost
      else if m = lit ''HEAD'' then kHead
      else if m = lit ''PUT'' then kPut
      else if m = lit ''DELETE'' then kDelete
      else kInvalid)"

definition setMethod :: "bytes \<Rightarrow> nat \<Rightarrow> nat \<Rightarrow> HttpRequest \<Rightarrow> (bool \<times> HttpRequest) option" where
  "setMethod buf start end_ptr r = do {
     assert_that (req_method r = kInvalid);
     m \<leftarrow> string_range buf start end_ptr;
     let r = r\<lparr>req_method := method_of m\<rparr>;
     Some (req_method r \<noteq> kInvalid, r) }"

fun method_name :: "Method \<Rightarrow> bytes" where
  "method_name kGet = lit ''GET''"
| "method_name kPost = lit ''POST''"
| "method_name kHead = lit ''HEAD''"
| "method_name kPut = lit ''PUT''"
| "method_name kDelete = lit ''DELETE''"
| "method_name kInvalid = lit ''UNKNOWN''"

definition methodString :: "HttpRequest \<Rightarrow> bytes" where
  "methodString r = method_name (req_method r)"

definition setPath :: "bytes \<Rightarrow> nat \<Rightarrow> nat \<Rightarrow> HttpRequest \<Rightarrow> HttpRequest option" where
  "setPath buf start end_ptr r = do { p \<leftarrow> string_range buf start end_ptr; Some (r\<lparr>req_path := p\<rparr>) }"

definition setQuery :: "bytes \<Rightarrow> nat \<Rightarrow> nat \<Rightarrow> HttpRequest \<Rightarrow> HttpRequest option" where
  "setQuery buf start end_ptr r = do { p \<leftarrow> string_range buf start end_ptr; Some (r\<lparr>req_query := p\<rparr>) }"

definition setReceiveTime :: "Timestamp \<Rightarrow> HttpRequest \<Rightarrow> HttpRequest" where
  "setReceiveTime t r = r\<lparr>req_receiveTime := t\<rparr>"

text \<open>\<^verbatim>\<open>isspace\<close> in the C locale.\<close>

definition isspace :: "byte \<Rightarrow> bool" where
  "isspace b \<longleftrightarrow> b = 0x20 \<or> (0x09 \<le> b \<and> b \<le> 0x0d)"

text \<open>The first loop of \<^verbatim>\<open>addHeader\<close>: the offset of the first byte that is not white space.\<close>

function skip_space :: "bytes \<Rightarrow> nat \<Rightarrow> nat \<Rightarrow> nat" where
  "skip_space buf colon end_ptr =
     (if colon < end_ptr \<and> colon < length buf \<and> isspace (buf ! colon) then skip_space buf (Suc colon) end_ptr else colon)"
  by pat_completeness auto
termination
  by (relation "measure (\<lambda>(buf, colon, end_ptr). end_ptr - colon)") auto

declare skip_space.simps [simp del]

text \<open>The second loop: the last byte goes as long as it is white space.\<close>

function trim_end :: "bytes \<Rightarrow> bytes" where
  "trim_end value = (if value \<noteq> [] \<and> isspace (last value) then trim_end (butlast value) else value)"
  by pat_completeness auto
termination
  by (relation "measure length") auto

declare trim_end.simps [simp del]

definition addHeader :: "bytes \<Rightarrow> nat \<Rightarrow> nat \<Rightarrow> nat \<Rightarrow> HttpRequest \<Rightarrow> HttpRequest option" where
  "addHeader buf start colon end_ptr r = do {
     field \<leftarrow> string_range buf start colon;
     let colon = skip_space buf (Suc colon) end_ptr;
     value \<leftarrow> string_range buf colon end_ptr;
     Some (r\<lparr>req_headers := (req_headers r)(field \<mapsto> trim_end value)\<rparr>) }"

definition getHeader :: "bytes \<Rightarrow> HttpRequest \<Rightarrow> bytes" where
  "getHeader field r = (case req_headers r field of Some v \<Rightarrow> v | None \<Rightarrow> [])"

definition HttpRequest_swap :: "HttpRequest \<Rightarrow> HttpRequest \<Rightarrow> HttpRequest \<times> HttpRequest" where
  "HttpRequest_swap r that =
     (\<lparr>req_method = req_method that, req_version = req_version that, req_path = req_path that, req_query = req_query that,
       req_receiveTime = fst (Timestamp_swap (req_receiveTime r) (req_receiveTime that)), req_headers = req_headers that\<rparr>,
      \<lparr>req_method = req_method r, req_version = req_version r, req_path = req_path r, req_query = req_query r,
       req_receiveTime = snd (Timestamp_swap (req_receiveTime r) (req_receiveTime that)), req_headers = req_headers r\<rparr>)"

section \<open>HttpContext\<close>

datatype HttpRequestParseState = kExpectRequestLine | kExpectHeaders | kExpectBody | kGotAll

record HttpContext =
  ctx_state :: HttpRequestParseState
  ctx_request :: HttpRequest

definition HttpContext_new :: HttpContext where
  "HttpContext_new = \<lparr>ctx_state = kExpectRequestLine, ctx_request = HttpRequest_new\<rparr>"

definition gotAll :: "HttpContext \<Rightarrow> bool" where
  "gotAll c \<longleftrightarrow> ctx_state c = kGotAll"

definition HttpContext_reset :: "HttpContext \<Rightarrow> HttpContext" where
  "HttpContext_reset c =
     (let c = c\<lparr>ctx_state := kExpectRequestLine\<rparr>; dummy = HttpRequest_new in
      c\<lparr>ctx_request := fst (HttpRequest_swap (ctx_request c) dummy)\<rparr>)"

section \<open>HttpResponse\<close>

datatype HttpStatusCode = kUnknownStatus | k200Ok | k301MovedPermanently | k400BadRequest | k404NotFound

fun status_code :: "HttpStatusCode \<Rightarrow> nat" where
  "status_code kUnknownStatus = 0"
| "status_code k200Ok = 200"
| "status_code k301MovedPermanently = 301"
| "status_code k400BadRequest = 400"
| "status_code k404NotFound = 404"

record HttpResponse =
  res_headers :: headers
  res_statusCode :: HttpStatusCode
  res_statusMessage :: bytes
  res_closeConnection :: bool
  res_body :: bytes

definition HttpResponse_new :: "bool \<Rightarrow> HttpResponse" where
  "HttpResponse_new close = \<lparr>res_headers = Map.empty, res_statusCode = kUnknownStatus, res_statusMessage = [],
     res_closeConnection = close, res_body = []\<rparr>"

definition setStatusCode :: "HttpStatusCode \<Rightarrow> HttpResponse \<Rightarrow> HttpResponse" where
  "setStatusCode status r = r\<lparr>res_statusCode := status\<rparr>"

definition setStatusMessage :: "bytes \<Rightarrow> HttpResponse \<Rightarrow> HttpResponse" where
  "setStatusMessage message r = r\<lparr>res_statusMessage := message\<rparr>"

definition setCloseConnection :: "bool \<Rightarrow> HttpResponse \<Rightarrow> HttpResponse" where
  "setCloseConnection on r = r\<lparr>res_closeConnection := on\<rparr>"

definition closeConnection :: "HttpResponse \<Rightarrow> bool" where
  "closeConnection r = res_closeConnection r"

definition response_addHeader :: "bytes \<Rightarrow> bytes \<Rightarrow> HttpResponse \<Rightarrow> HttpResponse" where
  "response_addHeader key val r = r\<lparr>res_headers := (res_headers r)(key \<mapsto> val)\<rparr>"

definition setContentType :: "bytes \<Rightarrow> HttpResponse \<Rightarrow> HttpResponse" where
  "setContentType contentType r = response_addHeader (lit ''Content-Type'') contentType r"

definition setBody :: "bytes \<Rightarrow> HttpResponse \<Rightarrow> HttpResponse" where
  "setBody body r = r\<lparr>res_body := body\<rparr>"

section \<open>What they do\<close>

lemma lit_simps:
  "lit ''GET'' = [0x47, 0x45, 0x54]" "lit ''POST'' = [0x50, 0x4f, 0x53, 0x54]" "lit ''HEAD'' = [0x48, 0x45, 0x41, 0x44]"
  "lit ''PUT'' = [0x50, 0x55, 0x54]" "lit ''DELETE'' = [0x44, 0x45, 0x4c, 0x45, 0x54, 0x45]"
  "lit ''UNKNOWN'' = [0x55, 0x4e, 0x4b, 0x4e, 0x4f, 0x57, 0x4e]"
  by (simp_all add: lit_def)

lemma method_round_trip: "m \<noteq> kInvalid \<Longrightarrow> method_of (method_name m) = m"
  by (cases m) (simp_all add: method_of_def lit_simps)

lemma method_of_name: "method_of s \<noteq> kInvalid \<Longrightarrow> method_name (method_of s) = s"
  by (auto simp: method_of_def)

lemma skip_space_spec:
  "end_ptr \<le> length buf \<Longrightarrow> colon \<le> end_ptr \<Longrightarrow>
   colon \<le> skip_space buf colon end_ptr \<and> skip_space buf colon end_ptr \<le> end_ptr \<and>
   drop (skip_space buf colon end_ptr) (take end_ptr buf) = dropWhile isspace (drop colon (take end_ptr buf))"
proof (induction buf colon end_ptr rule: skip_space.induct)
  case (1 buf colon end_ptr)
  show ?case
  proof (cases "colon < end_ptr \<and> isspace (buf ! colon)")
    case True
    then have s: "skip_space buf colon end_ptr = skip_space buf (Suc colon) end_ptr"
      using "1.prems" by (simp add: skip_space.simps [of buf colon])
    have "drop colon (take end_ptr buf) = buf ! colon # drop (Suc colon) (take end_ptr buf)"
      using True "1.prems" by (simp flip: Cons_nth_drop_Suc)
    then show ?thesis using "1.IH" True "1.prems" unfolding s by auto
  next
    case False
    then have s: "skip_space buf colon end_ptr = colon" by (auto simp: skip_space.simps [of buf colon])
    have "dropWhile isspace (drop colon (take end_ptr buf)) = drop colon (take end_ptr buf)"
    proof (cases "colon < end_ptr")
      case True
      then have "drop colon (take end_ptr buf) = buf ! colon # drop (Suc colon) (take end_ptr buf)"
        using "1.prems" by (simp flip: Cons_nth_drop_Suc)
      then show ?thesis using False True by simp
    next
      case no: False
      then show ?thesis by simp
    qed
    then show ?thesis using "1.prems" unfolding s by simp
  qed
qed

lemma trim_end_spec: "trim_end v = rev (dropWhile isspace (rev v))"
proof (induction v rule: trim_end.induct)
  case (1 v)
  show ?case
  proof (cases v rule: rev_cases)
    case Nil
    then show ?thesis by (simp add: trim_end.simps)
  next
    case (snoc u b)
    then show ?thesis using 1 by (simp add: trim_end.simps [of "u @ [b]"])
  qed
qed

text \<open>The value of a header line: white space removed at both ends.\<close>

definition trim :: "bytes \<Rightarrow> bytes" where
  "trim v = rev (dropWhile isspace (rev (dropWhile isspace v)))"

lemma addHeader_ok:
  assumes "start \<le> colon" "colon < end_ptr" "end_ptr \<le> length buf"
  shows "\<exists>r'. addHeader buf start colon end_ptr r = Some r' \<and>
     req_headers r' = (req_headers r)(take (colon - start) (drop start buf) \<mapsto> trim (take (end_ptr - Suc colon) (drop (Suc colon) buf))) \<and>
     r' = r\<lparr>req_headers := req_headers r'\<rparr>"
proof -
  let ?c = "skip_space buf (Suc colon) end_ptr"
  have c: "?c \<le> end_ptr" "drop ?c (take end_ptr buf) = dropWhile isspace (drop (Suc colon) (take end_ptr buf))"
    using skip_space_spec [of end_ptr buf "Suc colon"] assms by auto
  have "take (end_ptr - ?c) (drop ?c buf) = dropWhile isspace (take (end_ptr - Suc colon) (drop (Suc colon) buf))"
    using c(2) by (simp add: drop_take)
  then show ?thesis using assms c(1)
    by (simp add: addHeader_def string_range_def trim_end_spec trim_def Let_def)
qed

lemma reset_new: "HttpContext_reset c = HttpContext_new"
  by (simp add: HttpContext_reset_def HttpContext_new_def HttpRequest_swap_def HttpRequest_new_def Timestamp_swap_def Let_def)

lemma HttpRequest_swap_eq: "HttpRequest_swap r s = (s, r)"
  by (simp add: HttpRequest_swap_def Timestamp_swap_def)

end
