(* ===== verification/Muduo_Sync.thy ===== *)
theory Muduo_Sync
  imports P2P_Framing
begin

text \<open>
  Locks and queues of \<^verbatim>\<open>p2pServer/muduo/include/muduo/base\<close>: \<^verbatim>\<open>Mutex.h\<close>, \<^verbatim>\<open>Condition.h\<close>,
  \<^verbatim>\<open>BlockingQueue.h\<close>, \<^verbatim>\<open>BoundedBlockingQueue.h\<close> and \<^verbatim>\<open>Atomic.h\<close>. A thread id is a positive
  number. The pthread mutex is the thread that owns it; \<open>lock\<close> is possible only while nobody does, so an
  operation written with it is one critical section, and threads interleave between critical sections.
  A condition is the threads that sleep on it and those that have been woken and not yet run.
  Waking a thread without a notification is a step of its own (\<^verbatim>\<open>spurious wakeup\<close>).

  The step relations \<open>bq_step\<close> and \<open>bbq_step\<close> run the methods in any order by any threads. Shown for all
  reachable states: the mutex is free and without holder between critical sections, no assertion of the
  methods fails, elements come out exactly once and in order, the bounded queue never exceeds its
  capacity, and no wake-up is lost (a thread sleeps on \<^verbatim>\<open>notEmpty_\<close> only if every queued element has a
  woken thread to take it).
\<close>

section \<open>MutexLock\<close>

type_synonym tid = nat

record MutexLock =
  mutex_owner :: "tid option"
  holder :: tid

definition MutexLock_new :: MutexLock where
  "MutexLock_new = \<lparr>mutex_owner = None, holder = 0\<rparr>"

text \<open>Destroying a locked mutex is undefined.\<close>

definition MutexLock_destroy :: "MutexLock \<Rightarrow> unit option" where
  "MutexLock_destroy m = do { assert_that (holder m = 0); assert_that (mutex_owner m = None) }"

definition isLockedByThisThread :: "tid \<Rightarrow> MutexLock \<Rightarrow> bool" where
  "isLockedByThisThread this m \<longleftrightarrow> holder m = this"

definition assertLocked :: "tid \<Rightarrow> MutexLock \<Rightarrow> unit option" where
  "assertLocked this m = assert_that (isLockedByThisThread this m)"

definition unassignHolder :: "MutexLock \<Rightarrow> MutexLock" where
  "unassignHolder m = m\<lparr>holder := 0\<rparr>"

definition assignHolder :: "tid \<Rightarrow> MutexLock \<Rightarrow> MutexLock" where
  "assignHolder this m = m\<lparr>holder := this\<rparr>"

text \<open>\<open>None\<close>: the call blocks.\<close>

definition lock :: "tid \<Rightarrow> MutexLock \<Rightarrow> MutexLock option" where
  "lock this m = (if mutex_owner m = None then Some (assignHolder this (m\<lparr>mutex_owner := Some this\<rparr>)) else None)"

text \<open>\<open>None\<close>: unlocking a mutex of another thread, which is undefined.\<close>

definition unlock :: "tid \<Rightarrow> MutexLock \<Rightarrow> MutexLock option" where
  "unlock this m =
     (let m = unassignHolder m in if mutex_owner m = Some this then Some (m\<lparr>mutex_owner := None\<rparr>) else None)"

text \<open>\<^verbatim>\<open>MutexLockGuard\<close> and \<^verbatim>\<open>UnassignGuard\<close>: constructor and destructor.\<close>

definition MutexLockGuard :: "tid \<Rightarrow> MutexLock \<Rightarrow> MutexLock option" where
  "MutexLockGuard this m = lock this m"

definition MutexLockGuard_end :: "tid \<Rightarrow> MutexLock \<Rightarrow> MutexLock option" where
  "MutexLockGuard_end this m = unlock this m"

definition UnassignGuard :: "MutexLock \<Rightarrow> MutexLock" where
  "UnassignGuard m = unassignHolder m"

definition UnassignGuard_end :: "tid \<Rightarrow> MutexLock \<Rightarrow> MutexLock" where
  "UnassignGuard_end this m = assignHolder this m"

section \<open>Condition\<close>

record Condition =
  sleeping :: "tid set"
  woken :: "tid set"

definition Condition_new :: Condition where
  "Condition_new = \<lparr>sleeping = {}, woken = {}\<rparr>"

text \<open>
  \<^verbatim>\<open>wait()\<close> in two halves: \<^verbatim>\<open>pthread_cond_wait\<close> gives the mutex up and sleeps in one step; when the
  thread has been woken it takes the mutex again and returns.
\<close>

definition cond_wait :: "tid \<Rightarrow> MutexLock \<Rightarrow> Condition \<Rightarrow> (MutexLock \<times> Condition) option" where
  "cond_wait this m c =
     (let m = UnassignGuard m in
      if mutex_owner m = Some this
      then Some (m\<lparr>mutex_owner := None\<rparr>, c\<lparr>sleeping := insert this (sleeping c)\<rparr>) else None)"

definition cond_resume :: "tid \<Rightarrow> MutexLock \<Rightarrow> Condition \<Rightarrow> (MutexLock \<times> Condition) option" where
  "cond_resume this m c =
     (if this \<in> woken c \<and> mutex_owner m = None
      then Some (UnassignGuard_end this (m\<lparr>mutex_owner := Some this\<rparr>), c\<lparr>woken := woken c - {this}\<rparr>) else None)"

text \<open>\<^verbatim>\<open>notify()\<close> wakes one sleeping thread if there is one; \<open>w\<close> is the choice of the system.\<close>

definition notify :: "tid \<Rightarrow> Condition \<Rightarrow> Condition" where
  "notify w c = (if w \<in> sleeping c then c\<lparr>sleeping := sleeping c - {w}, woken := insert w (woken c)\<rparr> else c)"

definition notifyAll :: "Condition \<Rightarrow> Condition" where
  "notifyAll c = \<lparr>sleeping = {}, woken = woken c \<union> sleeping c\<rparr>"

definition wakes :: "tid \<Rightarrow> Condition \<Rightarrow> bool" where
  "wakes w c \<longleftrightarrow> (sleeping c \<noteq> {} \<longrightarrow> w \<in> sleeping c)"

definition cond_ok :: "Condition \<Rightarrow> bool" where
  "cond_ok c \<longleftrightarrow> finite (sleeping c) \<and> finite (woken c) \<and> sleeping c \<inter> woken c = {}"

text \<open>
  The invariant of a condition: a thread sleeps only if \<open>n\<close> woken threads are about to run.
\<close>

definition no_lost_wakeup :: "Condition \<Rightarrow> nat \<Rightarrow> bool" where
  "no_lost_wakeup c n \<longleftrightarrow> cond_ok c \<and> (sleeping c \<noteq> {} \<longrightarrow> n \<le> card (woken c))"

lemma cond_ok_notify: "cond_ok c \<Longrightarrow> cond_ok (notify w c)"
  by (auto simp: cond_ok_def notify_def)

lemma card_notify: "cond_ok c \<Longrightarrow> card (woken (notify w c)) = (if w \<in> sleeping c then Suc (card (woken c)) else card (woken c))"
  by (auto simp: notify_def cond_ok_def card_insert_if)

lemma sleeping_notify: "sleeping (notify w c) \<subseteq> sleeping c"
  by (auto simp: notify_def)

text \<open>How the operations of a condition keep the wake-up count.\<close>

lemma no_lost_wakeup_notify: "no_lost_wakeup c n \<Longrightarrow> wakes w c \<Longrightarrow> no_lost_wakeup (notify w c) (Suc n)"
  using card_notify [of c w] cond_ok_notify [of c w] sleeping_notify [of w c]
  by (auto simp: no_lost_wakeup_def wakes_def split: if_splits)

lemma no_lost_wakeup_spurious: "no_lost_wakeup c n \<Longrightarrow> no_lost_wakeup (notify w c) n"
  using card_notify [of c w] cond_ok_notify [of c w] sleeping_notify [of w c]
  by (auto simp: no_lost_wakeup_def split: if_splits)

lemma no_lost_wakeup_less: "no_lost_wakeup c n \<Longrightarrow> k \<le> n \<Longrightarrow> no_lost_wakeup c k"
  by (auto simp: no_lost_wakeup_def)

lemma no_lost_wakeup_sleep: "cond_ok c \<Longrightarrow> t \<notin> woken c \<Longrightarrow> no_lost_wakeup (c\<lparr>sleeping := insert t (sleeping c)\<rparr>) 0"
  by (auto simp: no_lost_wakeup_def cond_ok_def)

lemma no_lost_wakeup_resume:
  "no_lost_wakeup c n \<Longrightarrow> t \<in> woken c \<Longrightarrow> k \<le> n - 1 \<Longrightarrow> no_lost_wakeup (c\<lparr>woken := woken c - {t}\<rparr>) k"
  by (auto simp: no_lost_wakeup_def cond_ok_def)

lemma no_lost_wakeup_ok: "no_lost_wakeup c n \<Longrightarrow> cond_ok c"
  by (simp add: no_lost_wakeup_def)

section \<open>BlockingQueue\<close>

record 't BlockingQueue =
  bq_mutex :: MutexLock
  bq_notEmpty :: Condition
  bq_queue :: "'t list"

definition BlockingQueue_new :: "'t BlockingQueue" where
  "BlockingQueue_new = \<lparr>bq_mutex = MutexLock_new, bq_notEmpty = Condition_new, bq_queue = []\<rparr>"

definition bq_put :: "tid \<Rightarrow> tid \<Rightarrow> 't \<Rightarrow> 't BlockingQueue \<Rightarrow> 't BlockingQueue option" where
  "bq_put this w x q = do {
     m \<leftarrow> MutexLockGuard this (bq_mutex q);
     let q = q\<lparr>bq_mutex := m, bq_queue := bq_queue q @ [x], bq_notEmpty := notify w (bq_notEmpty q)\<rparr>;
     m \<leftarrow> MutexLockGuard_end this (bq_mutex q);
     Some (q\<lparr>bq_mutex := m\<rparr>) }"

text \<open>
  The body of \<^verbatim>\<open>take\<close> from the test of the loop on, with the mutex held: either the thread goes to sleep
  (\<open>Inl ()\<close>), or it returns the first element.
\<close>

definition bq_take_loop :: "tid \<Rightarrow> 't BlockingQueue \<Rightarrow> ((unit + 't) \<times> 't BlockingQueue) option" where
  "bq_take_loop this q =
     (if bq_queue q = [] then do {
        (m, c) \<leftarrow> cond_wait this (bq_mutex q) (bq_notEmpty q);
        Some (Inl (), q\<lparr>bq_mutex := m, bq_notEmpty := c\<rparr>) }
      else do {
        assert_that (bq_queue q \<noteq> []);
        let front = hd (bq_queue q);
        let q = q\<lparr>bq_queue := tl (bq_queue q)\<rparr>;
        m \<leftarrow> MutexLockGuard_end this (bq_mutex q);
        Some (Inr front, q\<lparr>bq_mutex := m\<rparr>) })"

definition bq_take :: "tid \<Rightarrow> 't BlockingQueue \<Rightarrow> ((unit + 't) \<times> 't BlockingQueue) option" where
  "bq_take this q = do {
     m \<leftarrow> MutexLockGuard this (bq_mutex q);
     bq_take_loop this (q\<lparr>bq_mutex := m\<rparr>) }"

definition bq_resume :: "tid \<Rightarrow> 't BlockingQueue \<Rightarrow> ((unit + 't) \<times> 't BlockingQueue) option" where
  "bq_resume this q = do {
     (m, c) \<leftarrow> cond_resume this (bq_mutex q) (bq_notEmpty q);
     bq_take_loop this (q\<lparr>bq_mutex := m, bq_notEmpty := c\<rparr>) }"

definition bq_size :: "tid \<Rightarrow> 't BlockingQueue \<Rightarrow> (nat \<times> 't BlockingQueue) option" where
  "bq_size this q = do {
     m \<leftarrow> MutexLockGuard this (bq_mutex q);
     let n = length (bq_queue q);
     m \<leftarrow> MutexLockGuard_end this m;
     Some (n, q\<lparr>bq_mutex := m\<rparr>) }"

section \<open>Any interleaving of puts and takes\<close>

text \<open>The queue with the history of the elements put and taken.\<close>

record 't bq_sys =
  the_queue :: "'t BlockingQueue"
  put_log :: "'t list"
  take_log :: "'t list"

fun log_take :: "(unit + 't) \<Rightarrow> 't list \<Rightarrow> 't list" where
  "log_take (Inl u) xs = xs"
| "log_take (Inr x) xs = xs @ [x]"

text \<open>A thread calls \<^verbatim>\<open>take\<close> only when it is not already inside it.\<close>

inductive bq_step :: "'t bq_sys \<Rightarrow> 't bq_sys \<Rightarrow> bool" where
  bq_step_put: "bq_step s (s\<lparr>the_queue := q, put_log := put_log s @ [x]\<rparr>)"
    if "this \<noteq> 0" "wakes w (bq_notEmpty (the_queue s))" "bq_put this w x (the_queue s) = Some q"
| bq_step_take: "bq_step s (s\<lparr>the_queue := q, take_log := log_take r (take_log s)\<rparr>)"
    if "this \<noteq> 0" "this \<notin> sleeping (bq_notEmpty (the_queue s)) \<union> woken (bq_notEmpty (the_queue s))"
      "bq_take this (the_queue s) = Some (r, q)"
| bq_step_resume: "bq_step s (s\<lparr>the_queue := q, take_log := log_take r (take_log s)\<rparr>)"
    if "this \<noteq> 0" "bq_resume this (the_queue s) = Some (r, q)"
| bq_step_spurious: "bq_step s (s\<lparr>the_queue := (the_queue s)\<lparr>bq_notEmpty := notify w (bq_notEmpty (the_queue s))\<rparr>\<rparr>)"

definition bq_start :: "'t bq_sys \<Rightarrow> bool" where
  "bq_start s \<longleftrightarrow> s = \<lparr>the_queue = BlockingQueue_new, put_log = [], take_log = []\<rparr>"

definition bq_ok :: "'t bq_sys \<Rightarrow> bool" where
  "bq_ok s \<longleftrightarrow>
     bq_mutex (the_queue s) = MutexLock_new \<and> put_log s = take_log s @ bq_queue (the_queue s) \<and>
     no_lost_wakeup (bq_notEmpty (the_queue s)) (length (bq_queue (the_queue s)))"

lemmas sync_defs = MutexLockGuard_def MutexLockGuard_end_def lock_def unlock_def assignHolder_def unassignHolder_def
  UnassignGuard_def UnassignGuard_end_def cond_wait_def cond_resume_def MutexLock_new_def

lemma lock_free: "MutexLockGuard this MutexLock_new = Some \<lparr>mutex_owner = Some this, holder = this\<rparr>"
  and unlock_held: "MutexLockGuard_end this \<lparr>mutex_owner = Some this, holder = h\<rparr> = Some MutexLock_new"
  and wait_held: "cond_wait this \<lparr>mutex_owner = Some this, holder = h\<rparr> c = Some (MutexLock_new, c\<lparr>sleeping := insert this (sleeping c)\<rparr>)"
  and resume_free: "cond_resume this MutexLock_new c =
     (if this \<in> woken c then Some (\<lparr>mutex_owner = Some this, holder = this\<rparr>, c\<lparr>woken := woken c - {this}\<rparr>) else None)"
  by (simp_all add: sync_defs Let_def)

lemmas lock_simps = lock_free unlock_held wait_held resume_free

text \<open>The critical sections on a queue whose mutex is free: total, and the mutex is free again.\<close>

lemma bq_put_eq:
  "bq_mutex q = MutexLock_new \<Longrightarrow>
   bq_put this w x q = Some (q\<lparr>bq_queue := bq_queue q @ [x], bq_notEmpty := notify w (bq_notEmpty q)\<rparr>)"
  by (cases q) (simp add: bq_put_def lock_simps)

lemma bq_take_loop_eq:
  "bq_mutex q = \<lparr>mutex_owner = Some this, holder = this\<rparr> \<Longrightarrow>
   bq_take_loop this q =
     (case bq_queue q of
        [] \<Rightarrow> Some (Inl (), q\<lparr>bq_mutex := MutexLock_new, bq_notEmpty := (bq_notEmpty q)\<lparr>sleeping := insert this (sleeping (bq_notEmpty q))\<rparr>\<rparr>)
      | x # xs \<Rightarrow> Some (Inr x, q\<lparr>bq_mutex := MutexLock_new, bq_queue := xs\<rparr>))"
  by (cases q) (auto simp: bq_take_loop_def lock_simps split: list.splits)

lemma bq_take_eq:
  "bq_mutex q = MutexLock_new \<Longrightarrow>
   bq_take this q =
     (case bq_queue q of
        [] \<Rightarrow> Some (Inl (), q\<lparr>bq_notEmpty := (bq_notEmpty q)\<lparr>sleeping := insert this (sleeping (bq_notEmpty q))\<rparr>\<rparr>)
      | x # xs \<Rightarrow> Some (Inr x, q\<lparr>bq_queue := xs\<rparr>))"
  by (cases q) (auto simp: bq_take_def lock_simps bq_take_loop_eq split: list.splits)

lemma bq_resume_eq:
  "bq_mutex q = MutexLock_new \<Longrightarrow>
   bq_resume this q =
     (if this \<in> woken (bq_notEmpty q) then
        (case bq_queue q of
           [] \<Rightarrow> Some (Inl (), q\<lparr>bq_notEmpty := (bq_notEmpty q)\<lparr>woken := woken (bq_notEmpty q) - {this}, sleeping := insert this (sleeping (bq_notEmpty q))\<rparr>\<rparr>)
         | x # xs \<Rightarrow> Some (Inr x, q\<lparr>bq_queue := xs, bq_notEmpty := (bq_notEmpty q)\<lparr>woken := woken (bq_notEmpty q) - {this}\<rparr>\<rparr>))
      else None)"
  by (cases q) (auto simp: bq_resume_def lock_simps bq_take_loop_eq split: list.splits)

lemma bq_step_ok: "bq_step s s' \<Longrightarrow> bq_ok s \<Longrightarrow> bq_ok s'"
proof (induction rule: bq_step.induct)
  case (bq_step_put this w s x q)
  have ok: "bq_mutex (the_queue s) = MutexLock_new" using bq_step_put.prems by (simp add: bq_ok_def)
  then show ?case
    using bq_step_put(3) bq_step_put.prems no_lost_wakeup_notify [OF _ bq_step_put(2)]
    by (auto simp: bq_ok_def bq_put_eq [OF ok])
next
  case (bq_step_take this s r q)
  let ?c = "bq_notEmpty (the_queue s)"
  have ok: "bq_mutex (the_queue s) = MutexLock_new" "cond_ok ?c"
    using bq_step_take.prems by (auto simp: bq_ok_def no_lost_wakeup_def)
  show ?case
  proof (cases "bq_queue (the_queue s)")
    case Nil
    then show ?thesis using bq_step_take bq_take_eq [OF ok(1), of this] no_lost_wakeup_sleep [OF ok(2), of this]
      by (auto simp: bq_ok_def)
  next
    case (Cons x xs)
    then show ?thesis using bq_step_take bq_take_eq [OF ok(1), of this] no_lost_wakeup_less [of ?c "Suc (length xs)" "length xs"]
      by (auto simp: bq_ok_def)
  qed
next
  case (bq_step_resume this s r q)
  let ?c = "bq_notEmpty (the_queue s)"
  have ok: "bq_mutex (the_queue s) = MutexLock_new" "no_lost_wakeup ?c (length (bq_queue (the_queue s)))"
    using bq_step_resume.prems by (auto simp: bq_ok_def)
  then have mem: "this \<in> woken ?c" using bq_step_resume(2) by (auto simp: bq_resume_eq [OF ok(1)] split: if_splits)
  have res: "no_lost_wakeup (?c\<lparr>woken := woken ?c - {this}\<rparr>) (length (bq_queue (the_queue s)) - 1)"
    by (rule no_lost_wakeup_resume [OF ok(2) mem]) simp
  show ?case
  proof (cases "bq_queue (the_queue s)")
    case Nil
    then show ?thesis using mem bq_step_resume bq_resume_eq [OF ok(1), of this] no_lost_wakeup_sleep [OF no_lost_wakeup_ok [OF res], of this]
      by (auto simp: bq_ok_def)
  next
    case (Cons x xs)
    then show ?thesis using mem bq_step_resume bq_resume_eq [OF ok(1), of this] res by (auto simp: bq_ok_def)
  qed
next
  case (bq_step_spurious s w)
  then show ?case using no_lost_wakeup_spurious by (auto simp: bq_ok_def)
qed

lemma bq_start_ok: "bq_start s \<Longrightarrow> bq_ok s"
  by (simp add: bq_start_def bq_ok_def BlockingQueue_new_def Condition_new_def no_lost_wakeup_def cond_ok_def)

interpretation blocking_queue: invariant_system bq_start bq_step bq_ok
  by unfold_locales (auto intro: bq_start_ok bq_step_ok)

section \<open>BoundedBlockingQueue\<close>

text \<open>
  \<^verbatim>\<open>boost::circular_buffer\<close> is not part of the repository: its operations are the parameter \<open>circ_api\<close>,
  what its documentation promises is \<open>circ_law\<close>, where \<open>items\<close> are the elements in the buffer from front to back.
\<close>

record ('b, 't) circ_api =
  cb_new :: "nat \<Rightarrow> 'b"
  cb_full :: "'b \<Rightarrow> bool"
  cb_empty :: "'b \<Rightarrow> bool"
  cb_push_back :: "'t \<Rightarrow> 'b \<Rightarrow> 'b"
  cb_front :: "'b \<Rightarrow> 't"
  cb_pop_front :: "'b \<Rightarrow> 'b"
  cb_size :: "'b \<Rightarrow> nat"
  cb_capacity :: "'b \<Rightarrow> nat"

definition circ_law :: "('b, 't) circ_api \<Rightarrow> ('b \<Rightarrow> 't list) \<Rightarrow> bool" where
  "circ_law api items \<longleftrightarrow>
     (\<forall>n. items (cb_new api n) = [] \<and> cb_capacity api (cb_new api n) = n) \<and>
     (\<forall>b. cb_size api b = length (items b) \<and> (cb_empty api b \<longleftrightarrow> items b = []) \<and> (cb_full api b \<longleftrightarrow> length (items b) = cb_capacity api b)) \<and>
     (\<forall>b x. \<not> cb_full api b \<longrightarrow> items (cb_push_back api x b) = items b @ [x] \<and> cb_capacity api (cb_push_back api x b) = cb_capacity api b) \<and>
     (\<forall>b. \<not> cb_empty api b \<longrightarrow> cb_front api b = hd (items b) \<and> items (cb_pop_front api b) = tl (items b) \<and>
        cb_capacity api (cb_pop_front api b) = cb_capacity api b)"

record 'b BoundedBlockingQueue =
  bbq_mutex :: MutexLock
  bbq_notEmpty :: Condition
  bbq_notFull :: Condition
  bbq_queue :: 'b

definition BoundedBlockingQueue_new :: "('b, 't) circ_api \<Rightarrow> nat \<Rightarrow> 'b BoundedBlockingQueue" where
  "BoundedBlockingQueue_new api maxSize =
     \<lparr>bbq_mutex = MutexLock_new, bbq_notEmpty = Condition_new, bbq_notFull = Condition_new, bbq_queue = cb_new api maxSize\<rparr>"

text \<open>\<open>put\<close> from the test of its loop on: asleep (\<open>False\<close>) or done (\<open>True\<close>).\<close>

definition bbq_put_loop :: "('b, 't) circ_api \<Rightarrow> tid \<Rightarrow> tid \<Rightarrow> 't \<Rightarrow> 'b BoundedBlockingQueue \<Rightarrow> (bool \<times> 'b BoundedBlockingQueue) option" where
  "bbq_put_loop api this w x q =
     (if cb_full api (bbq_queue q) then do {
        (m, c) \<leftarrow> cond_wait this (bbq_mutex q) (bbq_notFull q);
        Some (False, q\<lparr>bbq_mutex := m, bbq_notFull := c\<rparr>) }
      else do {
        assert_that (\<not> cb_full api (bbq_queue q));
        let q = q\<lparr>bbq_queue := cb_push_back api x (bbq_queue q), bbq_notEmpty := notify w (bbq_notEmpty q)\<rparr>;
        m \<leftarrow> MutexLockGuard_end this (bbq_mutex q);
        Some (True, q\<lparr>bbq_mutex := m\<rparr>) })"

definition bbq_put where
  "bbq_put api this w x q = do {
     m \<leftarrow> MutexLockGuard this (bbq_mutex q);
     bbq_put_loop api this w x (q\<lparr>bbq_mutex := m\<rparr>) }"

definition bbq_put_resume where
  "bbq_put_resume api this w x q = do {
     (m, c) \<leftarrow> cond_resume this (bbq_mutex q) (bbq_notFull q);
     bbq_put_loop api this w x (q\<lparr>bbq_mutex := m, bbq_notFull := c\<rparr>) }"

definition bbq_take_loop :: "('b, 't) circ_api \<Rightarrow> tid \<Rightarrow> tid \<Rightarrow> 'b BoundedBlockingQueue \<Rightarrow> ((unit + 't) \<times> 'b BoundedBlockingQueue) option" where
  "bbq_take_loop api this w q =
     (if cb_empty api (bbq_queue q) then do {
        (m, c) \<leftarrow> cond_wait this (bbq_mutex q) (bbq_notEmpty q);
        Some (Inl (), q\<lparr>bbq_mutex := m, bbq_notEmpty := c\<rparr>) }
      else do {
        assert_that (\<not> cb_empty api (bbq_queue q));
        let front = cb_front api (bbq_queue q);
        let q = q\<lparr>bbq_queue := cb_pop_front api (bbq_queue q), bbq_notFull := notify w (bbq_notFull q)\<rparr>;
        m \<leftarrow> MutexLockGuard_end this (bbq_mutex q);
        Some (Inr front, q\<lparr>bbq_mutex := m\<rparr>) })"

definition bbq_take where
  "bbq_take api this w q = do {
     m \<leftarrow> MutexLockGuard this (bbq_mutex q);
     bbq_take_loop api this w (q\<lparr>bbq_mutex := m\<rparr>) }"

definition bbq_take_resume where
  "bbq_take_resume api this w q = do {
     (m, c) \<leftarrow> cond_resume this (bbq_mutex q) (bbq_notEmpty q);
     bbq_take_loop api this w (q\<lparr>bbq_mutex := m, bbq_notEmpty := c\<rparr>) }"

text \<open>\<^verbatim>\<open>empty()\<close>, \<^verbatim>\<open>full()\<close>, \<^verbatim>\<open>size()\<close> and \<^verbatim>\<open>capacity()\<close>: an observation under the lock.\<close>

definition bbq_observe :: "('b \<Rightarrow> 'r) \<Rightarrow> tid \<Rightarrow> 'b BoundedBlockingQueue \<Rightarrow> ('r \<times> 'b BoundedBlockingQueue) option" where
  "bbq_observe f this q = do {
     m \<leftarrow> MutexLockGuard this (bbq_mutex q);
     let r = f (bbq_queue q);
     m \<leftarrow> MutexLockGuard_end this m;
     Some (r, q\<lparr>bbq_mutex := m\<rparr>) }"

definition bbq_empty where
  "bbq_empty api = bbq_observe (cb_empty api)"

definition bbq_full where
  "bbq_full api = bbq_observe (cb_full api)"

definition bbq_size where
  "bbq_size api = bbq_observe (cb_size api)"

definition bbq_capacity where
  "bbq_capacity api = bbq_observe (cb_capacity api)"

text \<open>
  The system: \<open>pending\<close> holds the argument of a thread inside \<^verbatim>\<open>put\<close>. A put is logged when the element enters.
\<close>

record ('b, 't) bbq_sys =
  bounded :: "'b BoundedBlockingQueue"
  pending :: "tid \<rightharpoonup> 't"
  b_put_log :: "'t list"
  b_take_log :: "'t list"

definition idle :: "tid \<Rightarrow> 'b BoundedBlockingQueue \<Rightarrow> bool" where
  "idle this q \<longleftrightarrow> this \<notin> sleeping (bbq_notEmpty q) \<union> woken (bbq_notEmpty q) \<union> sleeping (bbq_notFull q) \<union> woken (bbq_notFull q)"

inductive bbq_step :: "('b, 't) circ_api \<Rightarrow> ('b, 't) bbq_sys \<Rightarrow> ('b, 't) bbq_sys \<Rightarrow> bool" for api where
  bbq_step_put: "bbq_step api s (s\<lparr>bounded := q, pending := (pending s)(this \<mapsto> x), b_put_log := b_put_log s @ (if r then [x] else [])\<rparr>)"
    if "this \<noteq> 0" "idle this (bounded s)" "wakes w (bbq_notEmpty (bounded s))" "bbq_put api this w x (bounded s) = Some (r, q)"
| bbq_step_put_resume: "bbq_step api s (s\<lparr>bounded := q, b_put_log := b_put_log s @ (if r then [x] else [])\<rparr>)"
    if "this \<noteq> 0" "pending s this = Some x" "wakes w (bbq_notEmpty (bounded s))" "bbq_put_resume api this w x (bounded s) = Some (r, q)"
| bbq_step_take: "bbq_step api s (s\<lparr>bounded := q, b_take_log := log_take r (b_take_log s)\<rparr>)"
    if "this \<noteq> 0" "idle this (bounded s)" "wakes w (bbq_notFull (bounded s))" "bbq_take api this w (bounded s) = Some (r, q)"
| bbq_step_take_resume: "bbq_step api s (s\<lparr>bounded := q, b_take_log := log_take r (b_take_log s)\<rparr>)"
    if "this \<noteq> 0" "wakes w (bbq_notFull (bounded s))" "bbq_take_resume api this w (bounded s) = Some (r, q)"
| bbq_step_spurious_empty: "bbq_step api s (s\<lparr>bounded := (bounded s)\<lparr>bbq_notEmpty := notify w (bbq_notEmpty (bounded s))\<rparr>\<rparr>)"
| bbq_step_spurious_full: "bbq_step api s (s\<lparr>bounded := (bounded s)\<lparr>bbq_notFull := notify w (bbq_notFull (bounded s))\<rparr>\<rparr>)"

definition bbq_start :: "('b, 't) circ_api \<Rightarrow> nat \<Rightarrow> ('b, 't) bbq_sys \<Rightarrow> bool" where
  "bbq_start api n s \<longleftrightarrow> s = \<lparr>bounded = BoundedBlockingQueue_new api n, pending = Map.empty, b_put_log = [], b_take_log = []\<rparr>"

definition bbq_keeps :: "('b, 't) circ_api \<Rightarrow> ('b \<Rightarrow> 't list) \<Rightarrow> nat \<Rightarrow> 'b BoundedBlockingQueue \<Rightarrow> bool" where
  "bbq_keeps api items n q \<longleftrightarrow>
     (let k = length (items (bbq_queue q)) in
      bbq_mutex q = MutexLock_new \<and> cb_capacity api (bbq_queue q) = n \<and> k \<le> n \<and>
      no_lost_wakeup (bbq_notEmpty q) k \<and> no_lost_wakeup (bbq_notFull q) (n - k))"

definition bbq_ok :: "('b, 't) circ_api \<Rightarrow> ('b \<Rightarrow> 't list) \<Rightarrow> nat \<Rightarrow> ('b, 't) bbq_sys \<Rightarrow> bool" where
  "bbq_ok api items n s \<longleftrightarrow>
     bbq_keeps api items n (bounded s) \<and> b_put_log s = b_take_log s @ items (bbq_queue (bounded s))"

abbreviation held :: "tid \<Rightarrow> MutexLock" where
  "held t \<equiv> \<lparr>mutex_owner = Some t, holder = t\<rparr>"

lemma bbq_put_loop_eq:
  "bbq_mutex q = held this \<Longrightarrow>
   bbq_put_loop api this w x q =
     (if cb_full api (bbq_queue q)
      then Some (False, q\<lparr>bbq_mutex := MutexLock_new, bbq_notFull := (bbq_notFull q)\<lparr>sleeping := insert this (sleeping (bbq_notFull q))\<rparr>\<rparr>)
      else Some (True, q\<lparr>bbq_mutex := MutexLock_new, bbq_queue := cb_push_back api x (bbq_queue q), bbq_notEmpty := notify w (bbq_notEmpty q)\<rparr>))"
  by (cases q) (simp add: bbq_put_loop_def lock_simps)

lemma bbq_take_loop_eq:
  "bbq_mutex q = held this \<Longrightarrow>
   bbq_take_loop api this w q =
     (if cb_empty api (bbq_queue q)
      then Some (Inl (), q\<lparr>bbq_mutex := MutexLock_new, bbq_notEmpty := (bbq_notEmpty q)\<lparr>sleeping := insert this (sleeping (bbq_notEmpty q))\<rparr>\<rparr>)
      else Some (Inr (cb_front api (bbq_queue q)),
        q\<lparr>bbq_mutex := MutexLock_new, bbq_queue := cb_pop_front api (bbq_queue q), bbq_notFull := notify w (bbq_notFull q)\<rparr>))"
  by (cases q) (simp add: bbq_take_loop_def lock_simps)

lemma bbq_put_ok:
  assumes law: "circ_law api items" and q: "bbq_mutex q = held this" "cb_capacity api (bbq_queue q) = n" "length (items (bbq_queue q)) \<le> n"
    and c: "no_lost_wakeup (bbq_notEmpty q) (length (items (bbq_queue q)))" "no_lost_wakeup (bbq_notFull q) (n - length (items (bbq_queue q)) - 1)"
      "this \<notin> woken (bbq_notFull q)" "wakes w (bbq_notEmpty q)"
  shows "\<exists>r q'. bbq_put_loop api this w x q = Some (r, q') \<and> bbq_keeps api items n q' \<and>
     items (bbq_queue q') = items (bbq_queue q) @ (if r then [x] else [])"
proof (cases "cb_full api (bbq_queue q)")
  case True
  then have "length (items (bbq_queue q)) = n" using law q(2) by (simp add: circ_law_def)
  then show ?thesis using True q c no_lost_wakeup_sleep [OF no_lost_wakeup_ok [OF c(2)] c(3)]
    by (intro exI [of _ False]) (simp add: bbq_put_loop_eq [OF q(1)] bbq_keeps_def)
next
  case False
  then have "items (cb_push_back api x (bbq_queue q)) = items (bbq_queue q) @ [x]" "cb_capacity api (cb_push_back api x (bbq_queue q)) = n"
      "length (items (bbq_queue q)) < n"
    using law q(2,3) by (auto simp: circ_law_def)
  then show ?thesis using False c no_lost_wakeup_notify [OF c(1,4)]
    by (intro exI [of _ True]) (simp add: bbq_put_loop_eq [OF q(1)] bbq_keeps_def)
qed

lemma bbq_take_ok:
  assumes law: "circ_law api items" and q: "bbq_mutex q = held this" "cb_capacity api (bbq_queue q) = n" "length (items (bbq_queue q)) \<le> n"
    and c: "no_lost_wakeup (bbq_notEmpty q) (length (items (bbq_queue q)) - 1)" "no_lost_wakeup (bbq_notFull q) (n - length (items (bbq_queue q)))"
      "this \<notin> woken (bbq_notEmpty q)" "wakes w (bbq_notFull q)"
  shows "\<exists>r q'. bbq_take_loop api this w q = Some (r, q') \<and> bbq_keeps api items n q' \<and>
     log_take r [] @ items (bbq_queue q') = items (bbq_queue q)"
proof (cases "cb_empty api (bbq_queue q)")
  case True
  then have "items (bbq_queue q) = []" using law by (simp add: circ_law_def)
  then show ?thesis using True q c no_lost_wakeup_sleep [OF no_lost_wakeup_ok [OF c(1)] c(3)] by (simp add: bbq_take_loop_eq [OF q(1)] bbq_keeps_def)
next
  case False
  then obtain y ys where y: "items (bbq_queue q) = y # ys" "cb_front api (bbq_queue q) = y" "items (cb_pop_front api (bbq_queue q)) = ys"
      "cb_capacity api (cb_pop_front api (bbq_queue q)) = n"
    using law q(2) by (cases "items (bbq_queue q)") (auto simp: circ_law_def)
  then have "Suc (n - Suc (length ys)) = n - length ys" using q(3) by simp
  then show ?thesis using False y q(3) c no_lost_wakeup_notify [OF c(2,4)] by (simp add: bbq_take_loop_eq [OF q(1)] bbq_keeps_def)
qed

lemma log_take_append: "log_take r xs = xs @ log_take r []"
  by (cases r) auto

text \<open>The four ways into the loops, on a queue between two critical sections.\<close>

lemma bbq_enter:
  assumes law: "circ_law api items" and q: "bbq_keeps api items n q"
  shows "idle this q \<Longrightarrow> wakes w (bbq_notEmpty q) \<Longrightarrow>
      \<exists>r q'. bbq_put api this w x q = Some (r, q') \<and> bbq_keeps api items n q' \<and> items (bbq_queue q') = items (bbq_queue q) @ (if r then [x] else [])"
    and "idle this q \<Longrightarrow> wakes w (bbq_notFull q) \<Longrightarrow>
      \<exists>r q'. bbq_take api this w q = Some (r, q') \<and> bbq_keeps api items n q' \<and> log_take r [] @ items (bbq_queue q') = items (bbq_queue q)"
proof -
  let ?k = "length (items (bbq_queue q))"
  have m: "bbq_mutex q = MutexLock_new"
    and k: "cb_capacity api (bbq_queue q) = n" "?k \<le> n" "no_lost_wakeup (bbq_notEmpty q) ?k" "no_lost_wakeup (bbq_notFull q) (n - ?k)"
    using q by (auto simp: bbq_keeps_def Let_def)
  show "\<exists>r q'. bbq_put api this w x q = Some (r, q') \<and> bbq_keeps api items n q' \<and> items (bbq_queue q') = items (bbq_queue q) @ (if r then [x] else [])"
    if "idle this q" "wakes w (bbq_notEmpty q)"
  proof -
    let ?q = "q\<lparr>bbq_mutex := held this\<rparr>"
    have "\<exists>r q'. bbq_put_loop api this w x ?q = Some (r, q') \<and> bbq_keeps api items n q' \<and> items (bbq_queue q') = items (bbq_queue ?q) @ (if r then [x] else [])"
      using that k by (intro bbq_put_ok [OF law]) (auto simp: idle_def intro: no_lost_wakeup_less)
    then show ?thesis using that by (simp add: bbq_put_def m lock_simps)
  qed
  show "\<exists>r q'. bbq_take api this w q = Some (r, q') \<and> bbq_keeps api items n q' \<and> log_take r [] @ items (bbq_queue q') = items (bbq_queue q)"
    if "idle this q" "wakes w (bbq_notFull q)"
  proof -
    let ?q = "q\<lparr>bbq_mutex := held this\<rparr>"
    have "\<exists>r q'. bbq_take_loop api this w ?q = Some (r, q') \<and> bbq_keeps api items n q' \<and> log_take r [] @ items (bbq_queue q') = items (bbq_queue ?q)"
      using that k by (intro bbq_take_ok [OF law]) (auto simp: idle_def intro: no_lost_wakeup_less)
    then show ?thesis using that by (simp add: bbq_take_def m lock_simps)
  qed
qed

lemma bbq_reenter:
  assumes law: "circ_law api items" and q: "bbq_keeps api items n q"
  shows "this \<in> woken (bbq_notFull q) \<Longrightarrow> wakes w (bbq_notEmpty q) \<Longrightarrow>
      \<exists>r q'. bbq_put_resume api this w x q = Some (r, q') \<and> bbq_keeps api items n q' \<and> items (bbq_queue q') = items (bbq_queue q) @ (if r then [x] else [])"
    and "this \<in> woken (bbq_notEmpty q) \<Longrightarrow> wakes w (bbq_notFull q) \<Longrightarrow>
      \<exists>r q'. bbq_take_resume api this w q = Some (r, q') \<and> bbq_keeps api items n q' \<and> log_take r [] @ items (bbq_queue q') = items (bbq_queue q)"
proof -
  let ?k = "length (items (bbq_queue q))"
  have m: "bbq_mutex q = MutexLock_new"
    and k: "cb_capacity api (bbq_queue q) = n" "?k \<le> n" "no_lost_wakeup (bbq_notEmpty q) ?k" "no_lost_wakeup (bbq_notFull q) (n - ?k)"
    using q by (auto simp: bbq_keeps_def Let_def)
  show "\<exists>r q'. bbq_put_resume api this w x q = Some (r, q') \<and> bbq_keeps api items n q' \<and> items (bbq_queue q') = items (bbq_queue q) @ (if r then [x] else [])"
    if "this \<in> woken (bbq_notFull q)" "wakes w (bbq_notEmpty q)"
  proof -
    let ?q = "q\<lparr>bbq_mutex := held this, bbq_notFull := (bbq_notFull q)\<lparr>woken := woken (bbq_notFull q) - {this}\<rparr>\<rparr>"
    have "\<exists>r q'. bbq_put_loop api this w x ?q = Some (r, q') \<and> bbq_keeps api items n q' \<and> items (bbq_queue q') = items (bbq_queue ?q) @ (if r then [x] else [])"
      using that k by (intro bbq_put_ok [OF law]) (auto intro: no_lost_wakeup_resume)
    then show ?thesis using that by (simp add: bbq_put_resume_def m lock_simps)
  qed
  show "\<exists>r q'. bbq_take_resume api this w q = Some (r, q') \<and> bbq_keeps api items n q' \<and> log_take r [] @ items (bbq_queue q') = items (bbq_queue q)"
    if "this \<in> woken (bbq_notEmpty q)" "wakes w (bbq_notFull q)"
  proof -
    let ?q = "q\<lparr>bbq_mutex := held this, bbq_notEmpty := (bbq_notEmpty q)\<lparr>woken := woken (bbq_notEmpty q) - {this}\<rparr>\<rparr>"
    have "\<exists>r q'. bbq_take_loop api this w ?q = Some (r, q') \<and> bbq_keeps api items n q' \<and> log_take r [] @ items (bbq_queue q') = items (bbq_queue ?q)"
      using that k by (intro bbq_take_ok [OF law]) (auto intro: no_lost_wakeup_resume)
    then show ?thesis using that by (simp add: bbq_take_resume_def m lock_simps)
  qed
qed

lemma bbq_step_ok:
  assumes law: "circ_law api items"
  shows "bbq_step api s s' \<Longrightarrow> bbq_ok api items n s \<Longrightarrow> bbq_ok api items n s'"
proof (induction rule: bbq_step.induct)
  case (bbq_step_put this s w x r q)
  then have "bbq_keeps api items n (bounded s)" by (simp add: bbq_ok_def)
  from bbq_enter(1) [OF law this bbq_step_put(2,3), of x] show ?case using bbq_step_put by (auto simp: bbq_ok_def)
next
  case (bbq_step_put_resume this s x w r q)
  then have k: "bbq_keeps api items n (bounded s)" by (simp add: bbq_ok_def)
  then have "this \<in> woken (bbq_notFull (bounded s))"
    using bbq_step_put_resume(4) by (auto simp: bbq_put_resume_def bbq_keeps_def Let_def lock_simps split: if_splits)
  from bbq_reenter(1) [OF law k this bbq_step_put_resume(3), of x] show ?case using bbq_step_put_resume by (auto simp: bbq_ok_def)
next
  case (bbq_step_take this s w r q)
  then have "bbq_keeps api items n (bounded s)" by (simp add: bbq_ok_def)
  from bbq_enter(2) [OF law this bbq_step_take(2,3)] show ?case
    using bbq_step_take by (auto simp: bbq_ok_def log_take_append [of r "b_take_log s"])
next
  case (bbq_step_take_resume this w s r q)
  then have k: "bbq_keeps api items n (bounded s)" by (simp add: bbq_ok_def)
  then have "this \<in> woken (bbq_notEmpty (bounded s))"
    using bbq_step_take_resume(3) by (auto simp: bbq_take_resume_def bbq_keeps_def Let_def lock_simps split: if_splits)
  from bbq_reenter(2) [OF law k this bbq_step_take_resume(2)] show ?case
    using bbq_step_take_resume by (auto simp: bbq_ok_def log_take_append [of r "b_take_log s"])
qed (auto simp: bbq_ok_def bbq_keeps_def Let_def intro: no_lost_wakeup_spurious)

lemma bbq_start_ok: "circ_law api items \<Longrightarrow> bbq_start api n s \<Longrightarrow> bbq_ok api items n s"
  by (auto simp: bbq_start_def bbq_ok_def bbq_keeps_def BoundedBlockingQueue_new_def Condition_new_def no_lost_wakeup_def cond_ok_def circ_law_def)

interpretation bounded_queue: invariant_system "bbq_start api n" "bbq_step api" "\<lambda>s. circ_law api items \<longrightarrow> bbq_ok api items n s" for api n items
  by unfold_locales (auto intro: bbq_start_ok bbq_step_ok)

text \<open>A list with a capacity satisfies the law.\<close>

definition list_circ :: "(nat \<times> 't list, 't) circ_api" where
  "list_circ = \<lparr>cb_new = (\<lambda>n. (n, [])), cb_full = (\<lambda>(n, xs). length xs = n), cb_empty = (\<lambda>(n, xs). xs = []),
     cb_push_back = (\<lambda>x (n, xs). (n, xs @ [x])), cb_front = (\<lambda>(n, xs). hd xs), cb_pop_front = (\<lambda>(n, xs). (n, tl xs)),
     cb_size = (\<lambda>(n, xs). length xs), cb_capacity = fst\<rparr>"

lemma list_circ_law: "circ_law list_circ snd"
  by (auto simp: circ_law_def list_circ_def)

section \<open>Atomic integers\<close>

text \<open>
  \<^verbatim>\<open>AtomicIntegerT\<close>: each method is one atomic read-modify-write; the result is paired with the new value.
  The builtin wraps around, but the \<^verbatim>\<open>+\<close> that computes the result of \<^verbatim>\<open>addAndGet\<close> is an addition of signed
  integers, undefined when it overflows (\<open>None\<close>).
\<close>

definition AtomicInteger_new :: "'a::len word" where
  "AtomicInteger_new = 0"

definition compare_and_swap :: "'a::len word \<Rightarrow> 'a word \<Rightarrow> 'a word \<Rightarrow> 'a word \<times> 'a word" where
  "compare_and_swap old new v = (v, if v = old then new else v)"

definition atomic_get :: "'a::len word \<Rightarrow> 'a word \<times> 'a word" where
  "atomic_get v = compare_and_swap 0 0 v"

definition getAndAdd :: "'a::len word \<Rightarrow> 'a word \<Rightarrow> 'a word \<times> 'a word" where
  "getAndAdd x v = (v, v + x)"

definition signed_plus :: "'a::len word \<Rightarrow> 'a word \<Rightarrow> 'a word option" where
  "signed_plus a b = (if sint (a + b) = sint a + sint b then Some (a + b) else None)"

definition addAndGet :: "'a::len word \<Rightarrow> 'a word \<Rightarrow> ('a word \<times> 'a word) option" where
  "addAndGet x v = (let (old, v) = getAndAdd x v in map_option (\<lambda>r. (r, v)) (signed_plus old x))"

definition incrementAndGet :: "'a::len word \<Rightarrow> ('a word \<times> 'a word) option" where
  "incrementAndGet v = addAndGet 1 v"

definition decrementAndGet :: "'a::len word \<Rightarrow> ('a word \<times> 'a word) option" where
  "decrementAndGet v = addAndGet (- 1) v"

definition atomic_add :: "'a::len word \<Rightarrow> 'a word \<Rightarrow> 'a word" where
  "atomic_add x v = snd (getAndAdd x v)"

definition atomic_increment :: "'a::len word \<Rightarrow> 'a word option" where
  "atomic_increment v = map_option snd (incrementAndGet v)"

definition atomic_decrement :: "'a::len word \<Rightarrow> 'a word option" where
  "atomic_decrement v = map_option snd (decrementAndGet v)"

definition getAndSet :: "'a::len word \<Rightarrow> 'a word \<Rightarrow> 'a word \<times> 'a word" where
  "getAndSet newValue v = (v, newValue)"

lemma addAndGet_eq:
  "addAndGet x v = (if sint (v + x) = sint v + sint x then Some (v + x, v + x) else None)"
  by (simp add: addAndGet_def getAndAdd_def signed_plus_def)

lemma atomic_get_eq: "atomic_get v = (v, v)"
  by (simp add: atomic_get_def compare_and_swap_def)

section \<open>Properties of the two queues\<close>

text \<open>
  C32. The blocking queue neither loses nor duplicates nor reorders: after any interleaving of \<^verbatim>\<open>put\<close> and
  \<^verbatim>\<open>take\<close> by any threads, with any choice of the thread that is woken and with spurious wake-ups, the
  elements put are those taken followed by those still inside, the mutex is free between calls, and no
  thread sleeps in \<^verbatim>\<open>take\<close> unless a woken thread is on its way to each element in the queue.
\<close>

theorem blocking_queue_fifo:
  assumes "bq_start s0" "bq_step\<^sup>*\<^sup>* s0 s"
  shows "put_log s = take_log s @ bq_queue (the_queue s) \<and> bq_mutex (the_queue s) = MutexLock_new \<and>
    (sleeping (bq_notEmpty (the_queue s)) \<noteq> {} \<longrightarrow> length (bq_queue (the_queue s)) \<le> card (woken (bq_notEmpty (the_queue s))))"
  using blocking_queue.reachable_good [OF assms] by (auto simp: bq_ok_def no_lost_wakeup_def)

theorem blocking_queue_fifo_witness:
  "\<exists>s. bq_step\<^sup>*\<^sup>* \<lparr>the_queue = BlockingQueue_new, put_log = [], take_log = []\<rparr> s \<and> put_log s = [7 :: nat] \<and>
     put_log s = take_log s @ bq_queue (the_queue s)"
proof -
  let ?s0 = "\<lparr>the_queue = BlockingQueue_new, put_log = [], take_log = [] :: nat list\<rparr>"
  have m: "bq_mutex (the_queue ?s0) = MutexLock_new" "wakes 1 (bq_notEmpty (the_queue ?s0))"
    by (simp_all add: BlockingQueue_new_def wakes_def Condition_new_def)
  obtain q where q: "bq_put 2 1 7 (the_queue ?s0) = Some q" using bq_put_eq [OF m(1)] by blast
  have "bq_step ?s0 (?s0\<lparr>the_queue := q, put_log := put_log ?s0 @ [7]\<rparr>)" by (rule bq_step_put [OF _ m(2) q]) simp
  then have s: "bq_step\<^sup>*\<^sup>* ?s0 (?s0\<lparr>the_queue := q, put_log := put_log ?s0 @ [7]\<rparr>)" by (rule r_into_rtranclp)
  have "bq_start ?s0" by (simp add: bq_start_def)
  from blocking_queue_fifo [OF this s] s show ?thesis by (intro exI conjI) auto
qed

text \<open>
  The bounded blocking queue stays within its capacity and keeps the order: after any interleaving of
  \<^verbatim>\<open>put\<close> and \<^verbatim>\<open>take\<close> it holds at most its capacity of elements, the elements put are those taken followed by
  those inside, no thread sleeps in \<^verbatim>\<open>take\<close> unless as many threads are woken as there are elements, and none
  in \<^verbatim>\<open>put\<close> unless as many are woken as there are free places.
\<close>

theorem bounded_queue_bounds:
  assumes "circ_law api items" "bbq_start api n s0" "(bbq_step api)\<^sup>*\<^sup>* s0 s"
  shows "length (items (bbq_queue (bounded s))) \<le> n \<and> b_put_log s = b_take_log s @ items (bbq_queue (bounded s)) \<and>
    (sleeping (bbq_notEmpty (bounded s)) \<noteq> {} \<longrightarrow> length (items (bbq_queue (bounded s))) \<le> card (woken (bbq_notEmpty (bounded s)))) \<and>
    (sleeping (bbq_notFull (bounded s)) \<noteq> {} \<longrightarrow> n - length (items (bbq_queue (bounded s))) \<le> card (woken (bbq_notFull (bounded s))))"
  using bounded_queue.reachable_good [OF assms(2,3), of items] assms(1) by (auto simp: bbq_ok_def bbq_keeps_def Let_def no_lost_wakeup_def)

theorem bounded_queue_bounds_witness:
  "\<exists>s. (bbq_step list_circ)\<^sup>*\<^sup>* \<lparr>bounded = BoundedBlockingQueue_new list_circ 1, pending = Map.empty, b_put_log = [], b_take_log = []\<rparr> s \<and>
     b_put_log s = [7 :: nat] \<and> length (snd (bbq_queue (bounded s))) \<le> 1 \<and> b_put_log s = b_take_log s @ snd (bbq_queue (bounded s))"
proof -
  let ?new = "\<lparr>bounded = BoundedBlockingQueue_new list_circ 1, pending = Map.empty, b_put_log = [], b_take_log = []\<rparr> :: (nat \<times> nat list, nat) bbq_sys"
  have w: "wakes 1 (bbq_notEmpty (bounded ?new))" "idle 2 (bounded ?new)"
    by (simp_all add: BoundedBlockingQueue_new_def wakes_def Condition_new_def idle_def)
  obtain q where q: "bbq_put list_circ 2 1 7 (bounded ?new) = Some (True, q)"
    by (simp add: bbq_put_def BoundedBlockingQueue_new_def lock_simps bbq_put_loop_eq) (simp add: list_circ_def)
  let ?s = "?new\<lparr>bounded := q, pending := (pending ?new)(2 \<mapsto> 7), b_put_log := b_put_log ?new @ (if True then [7] else [])\<rparr>"
  have "bbq_step list_circ ?new ?s" by (rule bbq_step_put [OF _ w(2,1) q]) simp
  then have s: "(bbq_step list_circ)\<^sup>*\<^sup>* ?new ?s" by (rule r_into_rtranclp)
  have "bbq_start list_circ 1 ?new" by (simp add: bbq_start_def)
  from bounded_queue_bounds [OF list_circ_law this s] s show ?thesis by (intro exI conjI) auto
qed

end
