(* ===== verification/Muduo_Channel.thy ===== *)
theory Muduo_Channel
  imports P2P_Prelude "HOL-Library.Signed_Division"
begin

text \<open>
  \<^verbatim>\<open>net/Channel.h\<close> and \<^verbatim>\<open>base/Date.h\<close> of \<^verbatim>\<open>p2pServer/muduo/include/muduo\<close>: the interest of an I/O
  channel as a bit mask, and days counted by their Julian number. The three mask constants, the
  registration of a changed mask with the poller, and the conversion to a calendar date are defined in
  the binary library and are parameters. \<open>events_law\<close> is what the \<^verbatim>\<open>poll(2)\<close> constants behind the masks
  satisfy: reading and writing are different bits, \<^verbatim>\<open>kNoneEvent\<close> is no bit.
\<close>

section \<open>Channel\<close>

record 'l channel_api =
  kNoneEvent :: "32 word"
  kReadEvent :: "32 word"
  kWriteEvent :: "32 word"
  channel_update :: "32 word \<Rightarrow> 'l \<Rightarrow> 'l"

record ('c, 'l) Channel =
  channel_fd :: int
  channel_events :: "32 word"
  channel_revents :: "32 word"
  channel_index :: int
  channel_logHup :: bool
  readCallback :: "'c option"
  writeCallback :: "'c option"
  closeCallback :: "'c option"
  errorCallback :: "'c option"
  channel_loop :: 'l

definition setReadCallback :: "'c \<Rightarrow> ('c, 'l) Channel \<Rightarrow> ('c, 'l) Channel" where
  "setReadCallback cb ch = ch\<lparr>readCallback := Some cb\<rparr>"

definition setWriteCallback :: "'c \<Rightarrow> ('c, 'l) Channel \<Rightarrow> ('c, 'l) Channel" where
  "setWriteCallback cb ch = ch\<lparr>writeCallback := Some cb\<rparr>"

definition setCloseCallback :: "'c \<Rightarrow> ('c, 'l) Channel \<Rightarrow> ('c, 'l) Channel" where
  "setCloseCallback cb ch = ch\<lparr>closeCallback := Some cb\<rparr>"

definition setErrorCallback :: "'c \<Rightarrow> ('c, 'l) Channel \<Rightarrow> ('c, 'l) Channel" where
  "setErrorCallback cb ch = ch\<lparr>errorCallback := Some cb\<rparr>"

definition set_revents :: "32 word \<Rightarrow> ('c, 'l) Channel \<Rightarrow> ('c, 'l) Channel" where
  "set_revents revt ch = ch\<lparr>channel_revents := revt\<rparr>"

definition isNoneEvent :: "'l channel_api \<Rightarrow> ('c, 'l) Channel \<Rightarrow> bool" where
  "isNoneEvent api ch \<longleftrightarrow> channel_events ch = kNoneEvent api"

text \<open>\<^verbatim>\<open>update()\<close> tells the loop the new mask.\<close>

definition set_events :: "'l channel_api \<Rightarrow> 32 word \<Rightarrow> ('c, 'l) Channel \<Rightarrow> ('c, 'l) Channel" where
  "set_events api ev ch = ch\<lparr>channel_events := ev, channel_loop := channel_update api ev (channel_loop ch)\<rparr>"

definition enableReading :: "'l channel_api \<Rightarrow> ('c, 'l) Channel \<Rightarrow> ('c, 'l) Channel" where
  "enableReading api ch = set_events api (channel_events ch OR kReadEvent api) ch"

definition disableReading :: "'l channel_api \<Rightarrow> ('c, 'l) Channel \<Rightarrow> ('c, 'l) Channel" where
  "disableReading api ch = set_events api (channel_events ch AND NOT (kReadEvent api)) ch"

definition enableWriting :: "'l channel_api \<Rightarrow> ('c, 'l) Channel \<Rightarrow> ('c, 'l) Channel" where
  "enableWriting api ch = set_events api (channel_events ch OR kWriteEvent api) ch"

definition disableWriting :: "'l channel_api \<Rightarrow> ('c, 'l) Channel \<Rightarrow> ('c, 'l) Channel" where
  "disableWriting api ch = set_events api (channel_events ch AND NOT (kWriteEvent api)) ch"

definition disableAll :: "'l channel_api \<Rightarrow> ('c, 'l) Channel \<Rightarrow> ('c, 'l) Channel" where
  "disableAll api ch = set_events api (kNoneEvent api) ch"

definition isWriting :: "'l channel_api \<Rightarrow> ('c, 'l) Channel \<Rightarrow> bool" where
  "isWriting api ch \<longleftrightarrow> channel_events ch AND kWriteEvent api \<noteq> 0"

definition isReading :: "'l channel_api \<Rightarrow> ('c, 'l) Channel \<Rightarrow> bool" where
  "isReading api ch \<longleftrightarrow> channel_events ch AND kReadEvent api \<noteq> 0"

definition set_index :: "int \<Rightarrow> ('c, 'l) Channel \<Rightarrow> ('c, 'l) Channel" where
  "set_index idx ch = ch\<lparr>channel_index := idx\<rparr>"

definition doNotLogHup :: "('c, 'l) Channel \<Rightarrow> ('c, 'l) Channel" where
  "doNotLogHup ch = ch\<lparr>channel_logHup := False\<rparr>"

definition events_law :: "'l channel_api \<Rightarrow> bool" where
  "events_law api \<longleftrightarrow> kNoneEvent api = 0 \<and> kReadEvent api \<noteq> 0 \<and> kWriteEvent api \<noteq> 0 \<and> kReadEvent api AND kWriteEvent api = 0"

text \<open>Reading and writing interest are independent of each other.\<close>

lemma mask_set: "(e OR a) AND b = (if a = b then b else if a AND b = 0 then e AND b else (e OR a) AND b)" for e a b :: "'a::len word"
  by (auto simp: bit_eq_iff bit_simps)

lemma mask_clear: "a AND b = 0 \<Longrightarrow> (e AND NOT a) AND b = e AND b" for e a b :: "'a::len word"
  by (auto simp: bit_eq_iff bit_simps)

lemma mask_clear_self: "(e AND NOT a) AND a = 0" for e a :: "'a::len word"
  by (auto simp: bit_eq_iff bit_simps)

lemma channel_interest:
  assumes "events_law api"
  shows "isReading api (enableReading api ch)" "isWriting api (enableReading api ch) = isWriting api ch"
    "\<not> isReading api (disableReading api ch)" "isWriting api (disableReading api ch) = isWriting api ch"
    "isWriting api (enableWriting api ch)" "isReading api (enableWriting api ch) = isReading api ch"
    "\<not> isWriting api (disableWriting api ch)" "isReading api (disableWriting api ch) = isReading api ch"
    "isNoneEvent api (disableAll api ch)" "\<not> isReading api (disableAll api ch)" "\<not> isWriting api (disableAll api ch)"
proof -
  let ?r = "kReadEvent api" and ?w = "kWriteEvent api"
  have l: "?r \<noteq> 0" "?w \<noteq> 0" "?r AND ?w = 0" "?w AND ?r = 0" "kNoneEvent api = 0" "?r \<noteq> ?w"
    using assms by (auto simp: events_law_def and.commute)
  note defs = isReading_def isWriting_def isNoneEvent_def enableReading_def disableReading_def enableWriting_def disableWriting_def
    disableAll_def set_events_def
  show "isReading api (enableReading api ch)" "isWriting api (enableReading api ch) = isWriting api ch"
    "\<not> isReading api (disableReading api ch)" "isWriting api (disableReading api ch) = isWriting api ch"
    "isWriting api (enableWriting api ch)" "isReading api (enableWriting api ch) = isReading api ch"
    "\<not> isWriting api (disableWriting api ch)" "isReading api (disableWriting api ch) = isReading api ch"
    "isNoneEvent api (disableAll api ch)" "\<not> isReading api (disableAll api ch)" "\<not> isWriting api (disableAll api ch)"
    using l by (simp_all add: defs mask_set [of _ ?r ?r] mask_set [of _ ?w ?w] mask_set [of _ ?r ?w] mask_set [of _ ?w ?r]
        mask_clear [of ?r ?w] mask_clear [of ?w ?r] mask_clear_self)
qed

section \<open>Date\<close>

datatype Date = Date (julianDayNumber: int)

record YearMonthDay =
  ymd_year :: int
  ymd_month :: int
  ymd_day :: int

definition kDaysPerWeek :: int where
  [const_simps]: "kDaysPerWeek = 7"

definition Date_default :: Date where
  "Date_default = Date 0"

definition Date_swap :: "Date \<Rightarrow> Date \<Rightarrow> Date \<times> Date" where
  "Date_swap this that = (that, this)"

definition Date_valid :: "Date \<Rightarrow> bool" where
  "Date_valid d \<longleftrightarrow> julianDayNumber d > 0"

definition date_year :: "(Date \<Rightarrow> YearMonthDay) \<Rightarrow> Date \<Rightarrow> int" where
  "date_year yearMonthDay d = ymd_year (yearMonthDay d)"

definition date_month :: "(Date \<Rightarrow> YearMonthDay) \<Rightarrow> Date \<Rightarrow> int" where
  "date_month yearMonthDay d = ymd_month (yearMonthDay d)"

definition date_day :: "(Date \<Rightarrow> YearMonthDay) \<Rightarrow> Date \<Rightarrow> int" where
  "date_day yearMonthDay d = ymd_day (yearMonthDay d)"

definition weekDay :: "Date \<Rightarrow> int" where
  "weekDay d = (julianDayNumber d + 1) smod kDaysPerWeek"

definition Date_less :: "Date \<Rightarrow> Date \<Rightarrow> bool" where
  "Date_less x y \<longleftrightarrow> julianDayNumber x < julianDayNumber y"

definition Date_eq :: "Date \<Rightarrow> Date \<Rightarrow> bool" where
  "Date_eq x y \<longleftrightarrow> julianDayNumber x = julianDayNumber y"

lemma Date_eq_iff: "Date_eq x y \<longleftrightarrow> x = y"
  by (auto simp: Date_eq_def intro: Date.expand)

instantiation Date :: linorder
begin

definition less_Date :: "Date \<Rightarrow> Date \<Rightarrow> bool" where
  "less_Date = Date_less"

definition less_eq_Date :: "Date \<Rightarrow> Date \<Rightarrow> bool" where
  "less_eq_Date x y \<longleftrightarrow> Date_less x y \<or> Date_eq x y"

instance
proof
  fix x y z :: Date
  show "x < y \<longleftrightarrow> x \<le> y \<and> \<not> y \<le> x" "x \<le> x" "x \<le> y \<or> y \<le> x"
    "x \<le> y \<Longrightarrow> y \<le> z \<Longrightarrow> x \<le> z" "x \<le> y \<Longrightarrow> y \<le> x \<Longrightarrow> x = y"
    by (auto simp: less_Date_def less_eq_Date_def Date_less_def Date_eq_def intro: Date.expand)
qed

end

text \<open>On valid dates the week day runs through 0 to 6 and starts again.\<close>

lemma weekDay_cycle:
  assumes "Date_valid (Date n)"
  shows "0 \<le> weekDay (Date n)" "weekDay (Date n) < 7" "weekDay (Date (n + 1)) = (weekDay (Date n) + 1) mod 7"
proof -
  have "weekDay (Date k) = (k + 1) mod 7" if "0 < k" for k
    using that by (simp add: weekDay_def const_simps signed_modulo_int_def signed_divide_int_def minus_mult_div_eq_mod)
  then show "0 \<le> weekDay (Date n)" "weekDay (Date n) < 7" "weekDay (Date (n + 1)) = (weekDay (Date n) + 1) mod 7"
    using assms by (simp_all add: Date_valid_def mod_add_left_eq)
qed

end
