(* ===== verification/Muduo_Handles.thy ===== *)
theory Muduo_Handles
  imports P2P_Framing
begin

text \<open>
  Classes of \<^verbatim>\<open>p2pServer/muduo/include/muduo/base\<close> that own something: \<^verbatim>\<open>GzipFile.h\<close> owns a handle of zlib, and
  \<^verbatim>\<open>AsyncLogging.h\<close> a running thread; and the checked casts of \<^verbatim>\<open>Types.h\<close>, \<^verbatim>\<open>net/Callbacks.h\<close> and \<^verbatim>\<open>Logging.h\<close>. zlib is the
  parameter \<open>gz_api\<close>; \<open>gz_law\<close> says that \<^verbatim>\<open>gzopen\<close> returns a handle that is not in use and \<^verbatim>\<open>gzclose\<close> takes it out of
  use. A program is a sequence of \<open>gz_step\<close>s on objects, each of which is a variable with a \<^verbatim>\<open>file_\<close>.
\<close>

section \<open>GzipFile.h\<close>

type_synonym GzipFile = "nat option"

record 'z gz_api =
  gzopen :: "bytes \<Rightarrow> bytes \<Rightarrow> 'z \<Rightarrow> nat option \<times> 'z"
  gzclose :: "nat \<Rightarrow> 'z \<Rightarrow> 'z"
  gzread :: "nat option \<Rightarrow> nat \<Rightarrow> 'z \<Rightarrow> int \<times> bytes \<times> 'z"
  gzwrite :: "nat option \<Rightarrow> bytes \<Rightarrow> 'z \<Rightarrow> int \<times> 'z"
  gztell :: "nat option \<Rightarrow> 'z \<Rightarrow> int"

text \<open>The new object and what is left of the source.\<close>

definition GzipFile_move :: "GzipFile \<Rightarrow> GzipFile \<times> GzipFile" where
  "GzipFile_move rhs = (rhs, None)"

definition GzipFile_destroy :: "'z gz_api \<Rightarrow> GzipFile \<Rightarrow> 'z \<Rightarrow> 'z" where
  "GzipFile_destroy api file z = (case file of Some f \<Rightarrow> gzclose api f z | None \<Rightarrow> z)"

definition GzipFile_swap :: "GzipFile \<Rightarrow> GzipFile \<Rightarrow> GzipFile \<times> GzipFile" where
  "GzipFile_swap file rhs = (rhs, file)"

definition GzipFile_assign :: "GzipFile \<Rightarrow> GzipFile \<Rightarrow> GzipFile \<times> GzipFile" where
  "GzipFile_assign file rhs = GzipFile_swap file rhs"

definition GzipFile_valid :: "GzipFile \<Rightarrow> bool" where
  "GzipFile_valid file \<longleftrightarrow> file \<noteq> None"

definition GzipFile_read :: "'z gz_api \<Rightarrow> GzipFile \<Rightarrow> nat \<Rightarrow> 'z \<Rightarrow> int \<times> bytes \<times> 'z" where
  "GzipFile_read api file len z = gzread api file len z"

definition GzipFile_write :: "'z gz_api \<Rightarrow> GzipFile \<Rightarrow> bytes \<Rightarrow> 'z \<Rightarrow> int \<times> 'z" where
  "GzipFile_write api file buf z = gzwrite api file buf z"

definition GzipFile_tell :: "'z gz_api \<Rightarrow> GzipFile \<Rightarrow> 'z \<Rightarrow> int" where
  "GzipFile_tell api file z = gztell api file z"

text \<open>The modes \<^verbatim>\<open>"rbe"\<close>, \<^verbatim>\<open>"abe"\<close>, \<^verbatim>\<open>"wbxe"\<close> and \<^verbatim>\<open>"wbe"\<close>.\<close>

definition openForRead :: "'z gz_api \<Rightarrow> bytes \<Rightarrow> 'z \<Rightarrow> GzipFile \<times> 'z" where
  "openForRead api filename z = gzopen api filename [114, 98, 101] z"

definition openForAppend :: "'z gz_api \<Rightarrow> bytes \<Rightarrow> 'z \<Rightarrow> GzipFile \<times> 'z" where
  "openForAppend api filename z = gzopen api filename [97, 98, 101] z"

definition openForWriteExclusive :: "'z gz_api \<Rightarrow> bytes \<Rightarrow> 'z \<Rightarrow> GzipFile \<times> 'z" where
  "openForWriteExclusive api filename z = gzopen api filename [119, 98, 120, 101] z"

definition openForWriteTruncate :: "'z gz_api \<Rightarrow> bytes \<Rightarrow> 'z \<Rightarrow> GzipFile \<times> 'z" where
  "openForWriteTruncate api filename z = gzopen api filename [119, 98, 101] z"

section \<open>Every handle has one owner\<close>

definition gz_law :: "'z gz_api \<Rightarrow> ('z \<Rightarrow> nat set) \<Rightarrow> bool" where
  "gz_law api live \<longleftrightarrow>
     (\<forall>n m z r z'. gzopen api n m z = (r, z') \<longrightarrow>
        (case r of None \<Rightarrow> live z' = live z | Some f \<Rightarrow> f \<notin> live z \<and> live z' = insert f (live z))) \<and>
     (\<forall>f z. live (gzclose api f z) = live z - {f}) \<and>
     (\<forall>f l z. live (snd (snd (gzread api f l z))) = live z) \<and> (\<forall>f b z. live (snd (gzwrite api f b z)) = live z)"

text \<open>The variables that hold an object, with their \<^verbatim>\<open>file_\<close>, and the state of zlib.\<close>

record 'z gz_program =
  gz_vars :: "nat \<rightharpoonup> GzipFile"
  gz_state :: 'z

definition opens :: "'z gz_api \<Rightarrow> bytes \<Rightarrow> 'z \<Rightarrow> (GzipFile \<times> 'z) set" where
  "opens api n z = {openForRead api n z, openForAppend api n z, openForWriteExclusive api n z, openForWriteTruncate api n z}"

inductive gz_step :: "'z gz_api \<Rightarrow> 'z gz_program \<Rightarrow> 'z gz_program \<Rightarrow> bool" for api where
  gz_open: "gz_vars p v = None \<Longrightarrow> (file, z) \<in> opens api n (gz_state p) \<Longrightarrow>
    gz_step api p (p\<lparr>gz_vars := (gz_vars p)(v \<mapsto> file), gz_state := z\<rparr>)"
| gz_move: "gz_vars p v = None \<Longrightarrow> gz_vars p w = Some rhs \<Longrightarrow> GzipFile_move rhs = (file, rest) \<Longrightarrow>
    gz_step api p (p\<lparr>gz_vars := (gz_vars p)(v \<mapsto> file, w \<mapsto> rest)\<rparr>)"
| gz_assign: "gz_vars p v = Some lhs \<Longrightarrow> gz_vars p w = Some rhs \<Longrightarrow> v \<noteq> w \<Longrightarrow> GzipFile_assign lhs rhs = (file, rest) \<Longrightarrow>
    gz_step api p (p\<lparr>gz_vars := (gz_vars p)(v \<mapsto> file, w \<mapsto> rest)\<rparr>)"
| gz_destroy: "gz_vars p v = Some file \<Longrightarrow>
    gz_step api p (p\<lparr>gz_vars := (gz_vars p)(v := None), gz_state := GzipFile_destroy api file (gz_state p)\<rparr>)"
| gz_read: "gz_vars p v = Some file \<Longrightarrow> gz_step api p (p\<lparr>gz_state := snd (snd (GzipFile_read api file len (gz_state p)))\<rparr>)"
| gz_write: "gz_vars p v = Some file \<Longrightarrow> gz_step api p (p\<lparr>gz_state := snd (GzipFile_write api file buf (gz_state p))\<rparr>)"

definition gz_ok :: "('z \<Rightarrow> nat set) \<Rightarrow> 'z gz_program \<Rightarrow> bool" where
  "gz_ok live p \<longleftrightarrow> live (gz_state p) = {f. \<exists>v. gz_vars p v = Some (Some f)} \<and>
     (\<forall>v w f. gz_vars p v = Some (Some f) \<and> gz_vars p w = Some (Some f) \<longrightarrow> v = w)"

definition gz_start :: "('z \<Rightarrow> nat set) \<Rightarrow> 'z gz_program \<Rightarrow> bool" where
  "gz_start live p \<longleftrightarrow> gz_vars p = Map.empty \<and> live (gz_state p) = {}"

lemma opens_gzopen: "(file, z') \<in> opens api n z \<Longrightarrow> \<exists>m. gzopen api n m z = (file, z')"
  by (auto simp: opens_def openForRead_def openForAppend_def openForWriteExclusive_def openForWriteTruncate_def)

lemma gz_lawD:
  assumes "gz_law api live"
  shows "gzopen api n m z = (Some f, z') \<Longrightarrow> f \<notin> live z \<and> live z' = insert f (live z)" "gzopen api n m z = (None, z') \<Longrightarrow> live z' = live z"
    "live (gzclose api f z) = live z - {f}" "live (snd (snd (gzread api r l z))) = live z" "live (snd (gzwrite api r b z)) = live z"
  using assms unfolding gz_law_def by (fastforce dest: spec)+

lemma gz_okI:
  assumes "live z = {g. \<exists>w. vs w = Some (Some g)}" "\<And>v w g. vs v = Some (Some g) \<Longrightarrow> vs w = Some (Some g) \<Longrightarrow> v = w"
  shows "gz_ok live (p\<lparr>gz_vars := vs, gz_state := z\<rparr>)"
  unfolding gz_ok_def using assms by simp

text \<open>Exchanging the files of two variables keeps the invariant.\<close>

lemma gz_ok_exchange:
  assumes ok: "gz_ok live p" and s: "\<And>u. \<sigma> (\<sigma> u) = u"
    and o: "\<And>u f. vs u = Some (Some f) \<longleftrightarrow> gz_vars p (\<sigma> u) = Some (Some f)"
  shows "gz_ok live (p\<lparr>gz_vars := vs\<rparr>)"
proof -
  have l: "live (gz_state p) = {f. \<exists>v. gz_vars p v = Some (Some f)}"
    and u: "\<And>v w f. gz_vars p v = Some (Some f) \<Longrightarrow> gz_vars p w = Some (Some f) \<Longrightarrow> v = w" using ok by (auto simp: gz_ok_def)
  have "(\<exists>v. gz_vars p (\<sigma> v) = Some (Some f)) \<longleftrightarrow> (\<exists>v. gz_vars p v = Some (Some f))" for f by (metis s)
  moreover have "v = w" if "gz_vars p (\<sigma> v) = Some (Some f)" "gz_vars p (\<sigma> w) = Some (Some f)" for v w f
    using u [OF that] s by metis
  ultimately show ?thesis using l by (auto simp: gz_ok_def o)
qed

lemma gz_step_ok:
  assumes law: "gz_law api live" and "gz_step api p p'" "gz_ok live p"
  shows "gz_ok live p'"
  using assms(2,3)
proof (induction rule: gz_step.induct)
  case (gz_open p v x z n)
  obtain m where m: "gzopen api n m (gz_state p) = (x, z)" using opens_gzopen [OF gz_open(2)] by blast
  have l: "live (gz_state p) = {f. \<exists>v. gz_vars p v = Some (Some f)}"
    and u: "\<And>v w f. gz_vars p v = Some (Some f) \<Longrightarrow> gz_vars p w = Some (Some f) \<Longrightarrow> v = w" using gz_open(3) by (auto simp: gz_ok_def)
  have e: "((gz_vars p)(v \<mapsto> x)) w = Some (Some g) \<longleftrightarrow> w = v \<and> x = Some g \<or> gz_vars p w = Some (Some g)" for w g using gz_open(1) by auto
  have z: "live z = {g. x = Some g} \<union> live (gz_state p)" "\<And>g. x = Some g \<Longrightarrow> g \<notin> live (gz_state p)"
    using gz_lawD(1,2) [OF law] m by (cases x; force)+
  have "live z = {g. \<exists>w. ((gz_vars p)(v \<mapsto> x)) w = Some (Some g)}" unfolding e z(1) l by blast
  moreover have "w1 = w2" if "((gz_vars p)(v \<mapsto> x)) w1 = Some (Some g)" "((gz_vars p)(v \<mapsto> x)) w2 = Some (Some g)" for w1 w2 g
    using that u z(2) [of g] unfolding e l by blast
  ultimately show ?case by (rule gz_okI)
next
  case (gz_move p v w rhs x rest)
  then have "v \<noteq> w" by auto
  then show ?case
    using gz_move by (intro gz_ok_exchange [where \<sigma> = "\<lambda>u. if u = v then w else if u = w then v else u"]) (auto simp: GzipFile_move_def)
next
  case (gz_assign p v lhs w rhs x rest)
  then show ?case
    by (intro gz_ok_exchange [where \<sigma> = "\<lambda>u. if u = v then w else if u = w then v else u"])
       (auto simp: GzipFile_assign_def GzipFile_swap_def)
next
  case (gz_destroy p v x)
  have l: "live (gz_state p) = {f. \<exists>v. gz_vars p v = Some (Some f)}"
    and u: "\<And>v w f. gz_vars p v = Some (Some f) \<Longrightarrow> gz_vars p w = Some (Some f) \<Longrightarrow> v = w" using gz_destroy(2) by (auto simp: gz_ok_def)
  have e: "((gz_vars p)(v := None)) w = Some (Some g) \<longleftrightarrow> w \<noteq> v \<and> gz_vars p w = Some (Some g)" for w g by auto
  have "live (GzipFile_destroy api x (gz_state p)) = live (gz_state p) - {g. x = Some g}"
    using gz_lawD(3) [OF law] by (cases x) (auto simp: GzipFile_destroy_def)
  also have "\<dots> = {g. \<exists>w. ((gz_vars p)(v := None)) w = Some (Some g)}"
  proof -
    have "(\<exists>w. gz_vars p w = Some (Some g)) \<and> x \<noteq> Some g \<longleftrightarrow> (\<exists>w. w \<noteq> v \<and> gz_vars p w = Some (Some g))" for g
      using u [of v g] gz_destroy(1) by (metis option.inject)
    then show ?thesis unfolding e l by blast
  qed
  finally have "live (GzipFile_destroy api x (gz_state p)) = {g. \<exists>w. ((gz_vars p)(v := None)) w = Some (Some g)}" .
  moreover have "w1 = w2" if "((gz_vars p)(v := None)) w1 = Some (Some g)" "((gz_vars p)(v := None)) w2 = Some (Some g)" for w1 w2 g
    using that u unfolding e by blast
  ultimately show ?case by (rule gz_okI)
qed (simp_all add: gz_ok_def GzipFile_read_def GzipFile_write_def gz_lawD(4,5) [OF law])

interpretation gz_files: invariant_system "gz_start live" "gz_step api" "\<lambda>p. gz_law api live \<longrightarrow> gz_ok live p" for api live
proof unfold_locales
  show "gz_law api live \<longrightarrow> gz_ok live p" if "gz_start live p" for p using that by (simp add: gz_start_def gz_ok_def)
qed (blast intro: gz_step_ok)

text \<open>
  File handles are closed exactly once: whatever a program does with its objects, every open handle belongs to exactly
  one of them, so that destroying one closes a handle that is open and leaves those of the others
  alone, and when all objects are destroyed no handle is open.
\<close>

theorem gz_handles_owned:
  assumes "gz_law api live" "gz_start live start" "(gz_step api)\<^sup>*\<^sup>* start p"
  shows "(\<forall>f. f \<in> live (gz_state p) \<longleftrightarrow> (\<exists>!v. gz_vars p v = Some (Some f))) \<and>
    (\<forall>v f. gz_vars p v = Some (Some f) \<longrightarrow> f \<in> live (gz_state p) \<and>
       live (GzipFile_destroy api (Some f) (gz_state p)) = live (gz_state p) - {f}) \<and>
    (gz_vars p = Map.empty \<longrightarrow> live (gz_state p) = {})"
proof -
  have "gz_ok live p" using gz_files.reachable_good [OF assms(2,3)] assms(1) by blast
  then have l: "live (gz_state p) = {f. \<exists>v. gz_vars p v = Some (Some f)}"
    and u: "\<And>v w f. gz_vars p v = Some (Some f) \<Longrightarrow> gz_vars p w = Some (Some f) \<Longrightarrow> v = w" by (auto simp: gz_ok_def)
  have "f \<in> live (gz_state p) \<longleftrightarrow> (\<exists>!v. gz_vars p v = Some (Some f))" for f unfolding l using u by blast
  then show ?thesis using l gz_lawD(3) [OF assms(1)] by (auto simp: GzipFile_destroy_def)
qed

section \<open>AsyncLogging.h\<close>

text \<open>
  The thread object and the latch are implemented elsewhere: \<open>thread_start\<close> and \<open>thread_join\<close> stand for \<^verbatim>\<open>thread_.start()\<close>
  with the wait for the latch, and for \<^verbatim>\<open>cond_.notify()\<close> with \<^verbatim>\<open>thread_.join()\<close>; \<open>None\<close> is a failed assertion in them.
\<close>

record 't log_thread_api =
  thread_start :: "'t \<Rightarrow> 't option"
  thread_join :: "'t \<Rightarrow> 't option"

record 't AsyncLogging =
  al_running :: bool
  al_thread :: 't

definition AsyncLogging_start :: "'t log_thread_api \<Rightarrow> 't AsyncLogging \<Rightarrow> 't AsyncLogging option" where
  "AsyncLogging_start api l =
     map_option (\<lambda>t. l\<lparr>al_running := True, al_thread := t\<rparr>) (thread_start api (al_thread l))"

definition AsyncLogging_stop :: "'t log_thread_api \<Rightarrow> 't AsyncLogging \<Rightarrow> 't AsyncLogging option" where
  "AsyncLogging_stop api l =
     map_option (\<lambda>t. l\<lparr>al_running := False, al_thread := t\<rparr>) (thread_join api (al_thread l))"

definition AsyncLogging_destroy :: "'t log_thread_api \<Rightarrow> 't AsyncLogging \<Rightarrow> 't AsyncLogging option" where
  "AsyncLogging_destroy api l = (if al_running l then AsyncLogging_stop api l else Some l)"

text \<open>The destructor joins a running thread, and one that has been stopped is not joined again.\<close>

lemma AsyncLogging_joined_once:
  assumes "thread_start api (al_thread l) = Some t" "thread_join api t = Some t'"
  shows "\<exists>l1 l2. AsyncLogging_start api l = Some l1 \<and> AsyncLogging_destroy api l1 = Some l2 \<and> AsyncLogging_stop api l1 = Some l2 \<and>
    al_thread l2 = t' \<and> AsyncLogging_destroy api l2 = Some l2"
  using assms by (simp add: AsyncLogging_start_def AsyncLogging_destroy_def AsyncLogging_stop_def)

section \<open>Checked casts\<close>

text \<open>
  Pointers are addresses with \<open>0\<close> for \<^verbatim>\<open>NULL\<close>; \<open>is_a p\<close> says whether the object at \<open>p\<close> is of the target class, which is what
  \<^verbatim>\<open>dynamic_cast\<close> finds. \<open>ndebug\<close> says whether assertions are compiled out; a cast to a wrong class is then undefined.
\<close>

definition implicit_cast :: "'a \<Rightarrow> 'a" where
  "implicit_cast f = f"

definition down_cast :: "bool \<Rightarrow> (nat \<Rightarrow> bool) \<Rightarrow> nat \<Rightarrow> nat option" where
  "down_cast ndebug is_a f =
     (if \<not> ndebug \<and> \<not> (f = 0 \<or> is_a f) then None
      else if f = 0 \<or> is_a f then Some f else None)"

definition get_pointer :: "nat option \<Rightarrow> nat" where
  "get_pointer ptr = (case ptr of None \<Rightarrow> 0 | Some p \<Rightarrow> p)"

text \<open>A \<^verbatim>\<open>shared_ptr\<close> is \<open>None\<close> when empty; the result shares the object.\<close>

definition down_pointer_cast :: "bool \<Rightarrow> (nat \<Rightarrow> bool) \<Rightarrow> nat option \<Rightarrow> nat option option" where
  "down_pointer_cast ndebug is_a f =
     (if \<not> ndebug \<and> \<not> (f = None \<or> is_a (get_pointer f)) then None
      else if f = None \<or> is_a (get_pointer f) then Some f else None)"

text \<open>\<^verbatim>\<open>CHECK_NOTNULL\<close>: the logger of level \<^verbatim>\<open>FATAL\<close> aborts the process.\<close>

definition CheckNotNull :: "nat \<Rightarrow> nat option" where
  "CheckNotNull ptr = (if ptr = 0 then None else Some ptr)"

lemma casts_agree: "p \<noteq> 0 \<Longrightarrow> down_pointer_cast ndebug is_a (Some p) = map_option Some (down_cast ndebug is_a p)"
  by (simp add: down_pointer_cast_def down_cast_def get_pointer_def)

end
