(* ===== verification/Send_Fifo_Race.thy ===== *)
theory Send_Fifo_Race
  imports Send_Fifo P2P_Framing
begin

text \<open>
  What the locking of the send ring achieves (\<^verbatim>\<open>API/C/netWork.h\<close>). \<^verbatim>\<open>send_command_fifo_push\<close> runs on a thread of
  the application and locks the mutex; \<^verbatim>\<open>send_command_fifo_pop\<close> runs on the send thread and begins with
  \<^verbatim>\<open>pthread_mutex_unlock\<close>. Here both are cut into the accesses they make to shared memory, \<^verbatim>\<open>num++\<close> and \<^verbatim>\<open>num--\<close> into a
  load and a store. POSIX leaves the unlocking of a mutex that the thread does not own undefined; the model
  takes what the usual implementation does, which is to release it. The result: in every schedule of one
  push and one pop the cells, the two positions and the heap end as if the functions had been
  atomic, but the counter can end one too high or one too low.
\<close>

section \<open>The accesses of the two functions\<close>

record ring_race =
  ring :: net_work_send_command_fifo_t
  ring_heap :: cheap
  ring_locked :: bool
  push_pc :: nat
  push_num :: int
  pop_pc :: nat
  pop_num :: int

definition push_micro :: "addr \<Rightarrow> int \<Rightarrow> ring_race \<Rightarrow> ring_race option" where
  "push_micro data sz s =
     (let f = ring s; pc = push_pc s; s' = s\<lparr>push_pc := Suc pc\<rparr> in
      if pc = 0 then (if ring_locked s then Some s else Some (s'\<lparr>ring_locked := True\<rparr>))
      else if pc = 1 then
        (let old = cmd_data (cmds f ! cmd_w f) in
         map_option (\<lambda>h. s'\<lparr>ring_heap := h\<rparr>) (if old \<noteq> 0 then free old (ring_heap s) else Some (ring_heap s)))
      else if pc = 2 then Some (s'\<lparr>ring := f\<lparr>cmds := (cmds f)[cmd_w f := \<lparr>cmd_data = data, cmd_size = sz\<rparr>]\<rparr>\<rparr>)
      else if pc = 3 then Some (s'\<lparr>ring := f\<lparr>cmd_w := ring_next NET_SEND_COMMAND_NUM (cmd_w f)\<rparr>\<rparr>)
      else if pc = 4 then Some (s'\<lparr>push_num := cmd_num f\<rparr>)
      else if pc = 5 then Some (s'\<lparr>ring := f\<lparr>cmd_num := push_num s + 1\<rparr>\<rparr>)
      else if pc = 6 then Some (s'\<lparr>ring_locked := False\<rparr>)
      else Some s)"

definition pop_micro :: "ring_race \<Rightarrow> ring_race option" where
  "pop_micro s =
     (let f = ring s; pc = pop_pc s; s' = s\<lparr>pop_pc := Suc pc\<rparr> in
      if pc = 0 then Some (s'\<lparr>ring_locked := False\<rparr>)
      else if pc = 1 then map_option (\<lambda>h. s'\<lparr>ring_heap := h\<rparr>) (free (cmd_data (cmds f ! cmd_r f)) (ring_heap s))
      else if pc = 2 then Some (s'\<lparr>ring := f\<lparr>cmd_r := ring_next NET_SEND_COMMAND_NUM (cmd_r f)\<rparr>\<rparr>)
      else if pc = 3 then Some (s'\<lparr>pop_num := cmd_num f\<rparr>)
      else if pc = 4 then Some (s'\<lparr>ring := f\<lparr>cmd_num := pop_num s - 1\<rparr>\<rparr>)
      else if pc = 5 then Some (s'\<lparr>ring_locked := False\<rparr>)
      else Some s)"

text \<open>A schedule says whose turn it is, \<open>True\<close> for the pushing thread.\<close>

fun race_run :: "addr \<Rightarrow> int \<Rightarrow> bool list \<Rightarrow> ring_race \<Rightarrow> ring_race option" where
  "race_run data sz [] s = Some s"
| "race_run data sz (b # bs) s =
     (case (if b then push_micro data sz s else pop_micro s) of None \<Rightarrow> None | Some s' \<Rightarrow> race_run data sz bs s')"

definition race_start :: "net_work_send_command_fifo_t \<Rightarrow> cheap \<Rightarrow> ring_race" where
  "race_start f h = \<lparr>ring = f, ring_heap = h, ring_locked = False, push_pc = 0, push_num = 0, pop_pc = 0, pop_num = 0\<rparr>"

definition race_over :: "ring_race \<Rightarrow> bool" where
  "race_over s \<longleftrightarrow> push_pc s = 7 \<and> pop_pc s = 6"

section \<open>All schedules\<close>

text \<open>
  \<open>race_mem f h h' c s\<close>: the ring is \<open>f\<close> with the accesses made so far, \<open>c\<close> is the new cell and \<open>h'\<close> the heap without the
  popped block. \<open>race_num n\<close> relates the two program counters, the counter of the ring and the two registers, for
  a counter that was \<open>n\<close>: as long as only one side has stored, its result is exact.
\<close>

definition race_mem :: "net_work_send_command_fifo_t \<Rightarrow> cheap \<Rightarrow> cheap \<Rightarrow> net_work_command_t \<Rightarrow> ring_race \<Rightarrow> bool" where
  "race_mem f h h' c s \<longleftrightarrow>
     cmds (ring s) = (if 2 < push_pc s then (cmds f)[cmd_w f := c] else cmds f) \<and>
     cmd_w (ring s) = (if 3 < push_pc s then ring_next NET_SEND_COMMAND_NUM (cmd_w f) else cmd_w f) \<and>
     cmd_r (ring s) = (if 2 < pop_pc s then ring_next NET_SEND_COMMAND_NUM (cmd_r f) else cmd_r f) \<and>
     ring_heap s = (if 1 < pop_pc s then h' else h)"

definition race_num :: "int \<Rightarrow> nat \<Rightarrow> nat \<Rightarrow> int \<Rightarrow> int \<Rightarrow> int \<Rightarrow> bool" where
  "race_num n a b k i j \<longleftrightarrow> a \<le> 7 \<and> b \<le> 6 \<and>
     (if a \<le> 5 then
        if b \<le> 4 then k = n \<and> (a = 5 \<longrightarrow> i = n) \<and> (b = 4 \<longrightarrow> j = n)
        else k = n - 1 \<and> (a = 5 \<longrightarrow> i = n \<or> i = n - 1)
      else
        if b \<le> 4 then k = n + 1 \<and> (b = 4 \<longrightarrow> j = n \<or> j = n + 1)
        else k = n - 1 \<or> k = n \<or> k = n + 1)"

lemma race_num_push:
  "race_num n a b k i j \<Longrightarrow> a < 7 \<Longrightarrow> race_num n (Suc a) b (if a = 5 then i + 1 else k) (if a = 4 then k else i) j"
  by (simp add: race_num_def split: if_splits) arith+

lemma race_num_pop:
  "race_num n a b k i j \<Longrightarrow> b < 6 \<Longrightarrow> race_num n a (Suc b) (if b = 4 then j - 1 else k) i (if b = 3 then k else j)"
  by (simp add: race_num_def split: if_splits) arith+

definition race_inv :: "net_work_send_command_fifo_t \<Rightarrow> cheap \<Rightarrow> cheap \<Rightarrow> net_work_command_t \<Rightarrow> ring_race \<Rightarrow> bool" where
  "race_inv f h h' c s \<longleftrightarrow> race_mem f h h' c s \<and> race_num (cmd_num f) (push_pc s) (pop_pc s) (cmd_num (ring s)) (push_num s) (pop_num s)"

lemma race_inv_start: "race_inv f h h' c (race_start f h)"
  by (simp add: race_inv_def race_mem_def race_num_def race_start_def)

text \<open>What both need of the ring: the cell to write is empty and is not the cell to release.\<close>

definition race_ready :: "net_work_send_command_fifo_t \<Rightarrow> cheap \<Rightarrow> cheap \<Rightarrow> bool" where
  "race_ready f h h' \<longleftrightarrow> cmd_data (cmds f ! cmd_w f) = 0 \<and> cmd_r f \<noteq> cmd_w f \<and>
     free (cmd_data (cmds f ! cmd_r f)) h = Some h'"

lemma pc_cases: "n \<le> 7 \<Longrightarrow> n = 0 \<or> n = 1 \<or> n = 2 \<or> n = 3 \<or> n = 4 \<or> n = 5 \<or> n = 6 \<or> n = (7 :: nat)"
  by arith

lemma push_micro_inv:
  assumes "race_ready f h h'" "race_inv f h h' \<lparr>cmd_data = d, cmd_size = z\<rparr> s"
  shows "\<exists>s'. push_micro d z s = Some s' \<and> race_inv f h h' \<lparr>cmd_data = d, cmd_size = z\<rparr> s'"
proof -
  have m: "race_mem f h h' \<lparr>cmd_data = d, cmd_size = z\<rparr> s"
    and n: "race_num (cmd_num f) (push_pc s) (pop_pc s) (cmd_num (ring s)) (push_num s) (pop_num s)"
    using assms(2) by (simp_all add: race_inv_def)
  have "push_pc s \<le> 7" using n by (simp add: race_num_def)
  note cases = pc_cases [OF this]
  show ?thesis
    using cases m race_num_push [OF n] n assms(1)
    by (elim disjE) (simp_all add: push_micro_def race_inv_def race_mem_def race_ready_def)
qed

lemma pop_micro_inv:
  assumes "race_ready f h h'" "race_inv f h h' \<lparr>cmd_data = d, cmd_size = z\<rparr> s"
  shows "\<exists>s'. pop_micro s = Some s' \<and> race_inv f h h' \<lparr>cmd_data = d, cmd_size = z\<rparr> s'"
proof -
  have m: "race_mem f h h' \<lparr>cmd_data = d, cmd_size = z\<rparr> s"
    and n: "race_num (cmd_num f) (push_pc s) (pop_pc s) (cmd_num (ring s)) (push_num s) (pop_num s)"
    using assms(2) by (simp_all add: race_inv_def)
  have "pop_pc s \<le> 6" using n by (simp add: race_num_def)
  then have cases: "pop_pc s = 0 \<or> pop_pc s = 1 \<or> pop_pc s = 2 \<or> pop_pc s = 3 \<or> pop_pc s = 4 \<or> pop_pc s = 5 \<or> pop_pc s = 6"
    by arith
  show ?thesis
    using cases m race_num_pop [OF n] n assms(1)
    by (elim disjE) (simp_all add: pop_micro_def race_inv_def race_mem_def race_ready_def)
qed

lemma race_run_inv:
  assumes "race_ready f h h'" "race_inv f h h' \<lparr>cmd_data = d, cmd_size = z\<rparr> s"
  shows "\<exists>s'. race_run d z sched s = Some s' \<and> race_inv f h h' \<lparr>cmd_data = d, cmd_size = z\<rparr> s'"
  using assms(2)
proof (induction sched arbitrary: s)
  case (Cons b sched)
  obtain s' where "(if b then push_micro d z s else pop_micro s) = Some s'" "race_inv f h h' \<lparr>cmd_data = d, cmd_size = z\<rparr> s'"
    using push_micro_inv [OF assms(1) Cons.prems] pop_micro_inv [OF assms(1) Cons.prems] by (cases b) auto
  then show ?case using Cons.IH by simp
qed simp

lemma race_over_result:
  assumes "race_inv f h h' c s" "race_over s"
  shows "\<exists>k\<in>{- 1, 0, 1}. ring s = f\<lparr>cmds := (cmds f)[cmd_w f := c], cmd_r := ring_next NET_SEND_COMMAND_NUM (cmd_r f),
      cmd_w := ring_next NET_SEND_COMMAND_NUM (cmd_w f), cmd_num := cmd_num f + k\<rparr>" "ring_heap s = h'"
proof -
  have m: "race_mem f h h' c s" and n: "cmd_num (ring s) - cmd_num f \<in> {- 1, 0, 1}"
    using assms by (auto simp: race_inv_def race_num_def race_over_def)
  have "ring s = f\<lparr>cmds := (cmds f)[cmd_w f := c], cmd_r := ring_next NET_SEND_COMMAND_NUM (cmd_r f),
      cmd_w := ring_next NET_SEND_COMMAND_NUM (cmd_w f), cmd_num := cmd_num f + (cmd_num (ring s) - cmd_num f)\<rparr>"
    using m assms(2) by (simp add: race_mem_def race_over_def)
  then show "\<exists>k\<in>{- 1, 0, 1}. ring s = f\<lparr>cmds := (cmds f)[cmd_w f := c], cmd_r := ring_next NET_SEND_COMMAND_NUM (cmd_r f),
      cmd_w := ring_next NET_SEND_COMMAND_NUM (cmd_w f), cmd_num := cmd_num f + k\<rparr>" using n by blast
  show "ring_heap s = h'" using m assms(2) by (simp add: race_mem_def race_over_def)
qed

text \<open>The three schedules: one after the other, a lost decrement, a lost increment.\<close>

definition race_schedule :: "int \<Rightarrow> bool list" where
  "race_schedule k =
     (if k = 0 then replicate 7 True @ replicate 6 False
      else if k = 1 then replicate 5 True @ replicate 6 False @ replicate 2 True
      else replicate 4 False @ replicate 7 True @ replicate 2 False)"

lemma race_schedule_run:
  assumes "race_ready f h h'" "k \<in> {- 1, 0, 1}"
  shows "\<exists>s. race_run d z (race_schedule k) (race_start f h) = Some s \<and> race_over s \<and> cmd_num (ring s) = cmd_num f + k"
  using assms
  by (auto simp: race_schedule_def race_start_def race_over_def push_micro_def pop_micro_def race_ready_def numeral_eq_Suc)

section \<open>The race on the counter\<close>

lemma sq_race_ready:
  assumes sq: "sq h f p ((a, m) # es)" and room: "p + length ((a, m) # es) < NET_SEND_COMMAND_NUM"
  shows "race_ready f h (h\<lparr>store := (store h)(a := None)\<rparr>)"
proof -
  note q = sqD [OF sq]
  have r: "cmd_r f = p" "cmd_w f = p + length ((a, m) # es)" using q(5,6) room by auto
  have c: "cmds f ! p = \<lparr>cmd_data = a, cmd_size = int (length m)\<rparr>" "store h a = Some (CBytes m)" using q(8) [of 0] q(9) [of 0] by simp_all
  have "a \<noteq> 0" using q(1) c(2) by (auto simp: cheap_ok_def)
  then show ?thesis using q(11) [of "cmd_w f"] room c unfolding race_ready_def r by (simp add: free_def)
qed

lemma push_pop_result:
  assumes "race_ready f h h'"
  shows "do { (f1, h1) \<leftarrow> send_command_fifo_push f d z h; send_command_fifo_pop f1 h1 } =
    Some (f\<lparr>cmds := (cmds f)[cmd_w f := \<lparr>cmd_data = d, cmd_size = z\<rparr>], cmd_r := ring_next NET_SEND_COMMAND_NUM (cmd_r f),
      cmd_w := ring_next NET_SEND_COMMAND_NUM (cmd_w f)\<rparr>, h')"
  using assms by (simp add: race_ready_def send_command_fifo_push_def send_command_fifo_pop_def)

text \<open>A counter that is one too high makes the emptied ring offer a cell without a block; one too low hides a pending command.\<close>

lemma count_too_high: "sq h f p [] \<Longrightarrow> p < NET_SEND_COMMAND_NUM \<Longrightarrow>
    \<not> send_command_fifo_empty (f\<lparr>cmd_num := cmd_num f + 1\<rparr>) \<and> cmd_data (send_command_fifo_top (f\<lparr>cmd_num := cmd_num f + 1\<rparr>)) = 0"
  by (simp add: sq_def send_command_fifo_empty_def send_command_fifo_top_def)

lemma count_too_low: "sq h f p [e] \<Longrightarrow> send_command_fifo_empty (f\<lparr>cmd_num := cmd_num f - 1\<rparr>)"
  by (simp add: sq_def send_command_fifo_empty_def)

text \<open>
  C37. The send ring under the locking the code has: from a ring in order with a pending command and room, every
  schedule of the accesses of one push and one pop is defined, and when both are over the cells, the positions and
  the heap are those of the two functions run one after the other, while the counter is exact, one too high or
  one too low. Each of the three happens in some schedule.
\<close>

theorem ring_race_count:
  assumes "sq h f p ((a, m) # es)" "p + length ((a, m) # es) < NET_SEND_COMMAND_NUM" "store h b = Some (CBytes m')" "b \<notin> fst ` set ((a, m) # es)"
  shows "\<exists>f2 h2. do { (f1, h1) \<leftarrow> send_command_fifo_push f b (int (length m')) h; send_command_fifo_pop f1 h1 } = Some (f2, h2) \<and>
    sq h2 f2 (Suc p) (es @ [(b, m')]) \<and>
    (\<forall>sched. \<exists>s. race_run b (int (length m')) sched (race_start f h) = Some s \<and>
       (race_over s \<longrightarrow> ring_heap s = h2 \<and> (\<exists>k\<in>{- 1, 0, 1}. ring s = f2\<lparr>cmd_num := cmd_num f2 + k\<rparr>))) \<and>
    (\<forall>k\<in>{- 1, 0, 1}. \<exists>sched s. race_run b (int (length m')) sched (race_start f h) = Some s \<and> race_over s \<and>
       ring s = f2\<lparr>cmd_num := cmd_num f2 + k\<rparr>)"
proof -
  let ?h2 = "h\<lparr>store := (store h)(a := None)\<rparr>" and ?z = "int (length m')" and ?N = NET_SEND_COMMAND_NUM
  let ?c = "\<lparr>cmd_data = b, cmd_size = ?z\<rparr>"
  let ?f2 = "f\<lparr>cmds := (cmds f)[cmd_w f := ?c], cmd_r := ring_next ?N (cmd_r f), cmd_w := ring_next ?N (cmd_w f)\<rparr>"
  have ready: "race_ready f h ?h2" by (rule sq_race_ready [OF assms(1,2)])
  note pp = push_pop_result [OF ready, of b ?z]
  obtain f1 where f1: "send_command_fifo_push f b ?z h = Some (f1, h)" "sq h f1 p ((a, m) # es @ [(b, m')])"
    using send_fifo_push_ok [OF assms] by auto
  obtain f' where f': "send_command_fifo_pop f1 h = Some (f', ?h2)" "sq ?h2 f' (Suc p) (es @ [(b, m')])"
    using send_fifo_pop_ok [OF f1(2)] by auto
  have eq: "f' = ?f2" using pp f1(1) f'(1) by simp
  have run: "\<exists>s. race_run b ?z sched (race_start f h) = Some s \<and> race_inv f h ?h2 ?c s" for sched
    by (rule race_run_inv [OF ready race_inv_start])
  have over: "ring_heap s = ?h2 \<and> (\<exists>k\<in>{- 1, 0, 1}. ring s = ?f2\<lparr>cmd_num := cmd_num ?f2 + k\<rparr>)"
    if "race_inv f h ?h2 ?c s" "race_over s" for s using race_over_result [OF that] by simp
  have each: "\<exists>sched s. race_run b ?z sched (race_start f h) = Some s \<and> race_over s \<and> ring s = ?f2\<lparr>cmd_num := cmd_num ?f2 + k\<rparr>"
    if k: "k \<in> {- 1, 0, 1}" for k
  proof -
    obtain s where s: "race_run b ?z (race_schedule k) (race_start f h) = Some s" "race_over s" "cmd_num (ring s) = cmd_num f + k"
      using race_schedule_run [OF ready k] by blast
    then have "race_inv f h ?h2 ?c s" using run [of "race_schedule k"] by simp
    then have "ring s = ?f2\<lparr>cmd_num := cmd_num ?f2 + k\<rparr>" using over [OF _ s(2)] s(3) by auto
    then show ?thesis using s by blast
  qed
  show ?thesis using pp f'(2) eq run over each by (intro exI [of _ ?f2] exI [of _ ?h2]) blast
qed

theorem ring_race_count_witness:
  "\<exists>f h f2 sched s. send_command_fifo_length f = 1 \<and> send_command_fifo_length f2 = 1 \<and>
     race_run 2 1 sched (race_start f h) = Some s \<and> race_over s \<and> ring s = f2\<lparr>cmd_num := 2\<rparr>"
proof -
  let ?f0 = "\<lparr>cmds = replicate NET_SEND_COMMAND_NUM \<lparr>cmd_data = 0, cmd_size = 0\<rparr>, cmd_r = 0, cmd_w = 0, cmd_num = 0\<rparr>"
  let ?h = "\<lparr>store = [1 \<mapsto> CBytes [65], 2 \<mapsto> CBytes [66]], fresh = 3, oom = (\<lambda>_. False)\<rparr>"
  have "cheap_ok ?h" by (auto simp: cheap_ok_def split: if_splits)
  then have "sq ?h (snd (send_command_fifo_init ?f0)) 0 []" by (rule send_fifo_init_ok) simp
  moreover have n: "0 + length ([] :: (addr \<times> bytes) list) < NET_SEND_COMMAND_NUM" "0 + length [(1 :: addr, [65 :: byte])] < NET_SEND_COMMAND_NUM"
    by (simp_all add: NET_SEND_COMMAND_NUM_def)
  moreover have b: "store ?h 1 = Some (CBytes [65])" "1 \<notin> fst ` set ([] :: (addr \<times> bytes) list)"
    "store ?h 2 = Some (CBytes [66])" "2 \<notin> fst ` set [(1 :: addr, [65 :: byte])]" by simp_all
  ultimately obtain f where f: "sq ?h f 0 [(1, [65])]" using send_fifo_push_ok [of ?h _ 0 "[]" 1 "[65]"] by auto
  obtain f2 h2 where f2: "sq h2 f2 (Suc 0) [(2, [66])]"
      "\<forall>k\<in>{- 1, 0, 1}. \<exists>sched s. race_run 2 (int (length [66 :: byte])) sched (race_start f ?h) = Some s \<and> race_over s \<and>
         ring s = f2\<lparr>cmd_num := cmd_num f2 + k\<rparr>"
    using ring_race_count [OF f n(2) b(3,4)] by auto
  have "cmd_num f = 1" "cmd_num f2 = 1" using f f2(1) by (simp_all add: sq_def)
  moreover have "(1 :: int) \<in> {- 1, 0, 1}" by simp
  ultimately obtain sched s where "race_run 2 1 sched (race_start f ?h) = Some s" "race_over s" "ring s = f2\<lparr>cmd_num := 2\<rparr>"
      "send_command_fifo_length f = 1" "send_command_fifo_length f2 = 1"
    using bspec [OF f2(2), of 1] by (auto simp: send_command_fifo_length_def)
  then show ?thesis by blast
qed

end
