(* ===== verification/Spec2Isabelle.thy ===== *)
theory Spec2Isabelle
  imports P2p_Server_Main Codec_Stream C_Demo Py_Demo Muduo_LogStream Muduo_Http Muduo_Sync Muduo_Channel Muduo_Handles Send_Fifo_Race
begin

text \<open>
  \<^bold>\<open>The verification library of stupidP2P.\<close>

  \<^bold>\<open>The program.\<close> A relay server (\<^verbatim>\<open>src/p2pServer\<close>) lets devices register under an id, subscribe to the id of
  another device and send data, which the server writes to the connections of all subscribers. Two clients
  speak to it, a C library (\<^verbatim>\<open>src/API/C\<close>) and a Python class (\<^verbatim>\<open>src/API/Python\<close>), each with a test program. All of
  them exchange packages: a length of four bytes in network order, a command byte, data. The server is
  written on headers of the muduo network library (\<^verbatim>\<open>src/p2pServer/muduo/include\<close>); the compiled part of muduo is not
  in the repository.

  \<^bold>\<open>Conventions.\<close> Pure code is a HOL function, code with effects takes and returns its state. \<open>None\<close> is what a
  program cannot go on from: a failed assertion, undefined behaviour, an exception that leaves a thread.
  Error codes are values. Machine integers are words or integers with their wrap-around written
  out. Code outside the repository is a record of functions, and what is relied on is a named
  hypothesis: \<open>tcp_api\<close> with \<open>send_law\<close> (sending appends to the stream of one connection and closes none),
  \<open>shutdown_law\<close>, \<open>lock_law\<close> (closing does not destroy the connection object at once); \<open>os_api\<close> with \<open>recv_law\<close>
  (\<^verbatim>\<open>recv\<close> returns what it says, at most what was asked for) and \<open>os_up\<close>; \<open>py_net\<close>; \<open>circ_api\<close> with \<open>circ_law\<close> (boost's
  circular buffer); \<open>gz_api\<close> with \<open>gz_law\<close> (zlib hands out handles that are not in use); \<open>channel_api\<close> with \<open>events_law\<close>. \<open>sim_api\<close>, \<open>sim_os\<close> and \<open>sim_py\<close> are instances that satisfy them
  and carry the examples.

  \<^bold>\<open>Shared theories.\<close>
  \<^item> \<open>P2P_Prelude\<close>: bytes, object representation of integers, list and ring lemmas, rule collections.
  \<^item> \<open>P2P_Framing\<close>: the wire format. \<open>frame\<close> is a package, \<open>split_frames\<close> the reference splitter. The locale
    \<open>byte_stream\<close> is the contract of a byte buffer, interpreted by the muduo buffer, the receive ring of the
    C client and the deque of the Python client; \<open>invariant_system\<close> carries an invariant along
    a step relation, interpreted by the relay, its two threads, the C client, the Python client, its window, the
    blocking queues, the thread-local objects and the file handles.
  \<^item> \<open>Queue_Spec\<close>: the locale \<open>fifo_queue\<close>, interpreted by the send ring and the message list of the C client.
  \<^item> \<open>C_Heap\<close>, \<open>C_Strings\<close>: \<^verbatim>\<open>malloc\<close>, \<^verbatim>\<open>free\<close> and the string functions of C. \<open>Py_Text\<close>: UTF-8 and \<^verbatim>\<open>int(s)\<close>.

  \<^bold>\<open>The server.\<close>
  \<^item> \<open>Muduo_Endian\<close>, \<open>Muduo_StringPiece\<close>, \<open>Muduo_Timestamp\<close>, \<open>Muduo_Buffer\<close>, \<open>Muduo_Tcp\<close>: the muduo headers the
    server uses, function by function.
  \<^item> \<open>Length_Codec\<close> (\<^verbatim>\<open>codec.h\<close>): \<open>LengthHeaderCodec_send\<close> and \<open>LengthHeaderCodec_onMessage\<close>. \<open>Codec_Stream\<close>: sending and
    receiving are inverse for every segmentation, invalid lengths close the connection, the buffer keeps
    its bounds.
  \<^item> \<open>P2p_Server\<close> (\<^verbatim>\<open>p2pServer.h\<close>, \<^verbatim>\<open>p2pServer.cc\<close>): the record \<open>p2pServer\<close> with \<open>_connectionList\<close>, \<open>_connections\<close> and the
    contexts of the connections, and one function per handler and callback. \<open>P2p_Server_Inv\<close>: the invariant
    \<open>srv_ok\<close>. \<open>P2p_Server_Relay\<close>: the server with its connections under all sequences of callbacks
    (\<open>relay_step\<close>). \<open>P2p_Server_Spec\<close>: the specification \<open>pubsub\<close> in terms of sets and the proof that the
    callbacks implement it. \<open>P2p_Server_Faults\<close>: sequences of events and the states in which
    the relay goes wrong.
  \<^item> \<open>P2p_Server_Threads\<close>: the timer, which runs on another thread than the callbacks, iteration by iteration
    beside them (\<open>threads_step\<close>).
  \<^item> \<open>Muduo_Interfaces\<close>: the inline functions of \<^verbatim>\<open>EventLoop.h\<close>, \<^verbatim>\<open>TcpConnection.h\<close>, \<^verbatim>\<open>TcpServer.h\<close> and \<^verbatim>\<open>TcpClient.h\<close>, by
    which callbacks are registered. \<open>P2p_Server_Main\<close>: what the constructor of the server registers is the relation
    \<open>relay_step\<close>; \<^verbatim>\<open>main.cc\<close>.

  \<^bold>\<open>The C client.\<close>
  \<^item> \<open>Recv_Fifo\<close>, \<open>Send_Fifo\<close>, \<open>Recv_Data_List\<close>, \<open>Client_Types\<close> (\<^verbatim>\<open>netWork.h\<close>, \<^verbatim>\<open>stupidP2P.h\<close>): the three containers and the
    client structure; \<open>Net_Command\<close> (\<^verbatim>\<open>netWork.c\<close>): the package parser.
  \<^item> \<open>Client_List\<close>, \<open>Client_Api\<close> (\<^verbatim>\<open>stupidP2P.c\<close>): the list of clients, the bodies of the three threads and the
    functions of the interface. \<open>Client_Proofs\<close>, \<open>Client_System\<close>: one client under all interleavings of its
    threads, calls and network (\<open>client_step\<close>, invariant \<open>sys_ok\<close>). \<open>Client_Guarantees\<close>: the properties.
  \<^item> \<open>Send_Fifo_Race\<close>: push and pop of the send ring, access by access under the locking they have; in every
    schedule only the counter can differ from the atomic functions.
  \<^item> \<open>C_Demo\<close> (\<^verbatim>\<open>API/C/test/main.c\<close>): options, receive thread, input loop and \<^verbatim>\<open>main\<close>.

  \<^bold>\<open>The Python client.\<close>
  \<^item> \<open>Py_Client\<close> (\<^verbatim>\<open>stupidP2P.py\<close>): both thread classes and the client class. \<open>Py_Proofs\<close>, \<open>Py_Client_Proofs\<close>: the
    parser, the methods, and all interleavings (\<open>py_step\<close>, invariant \<open>py_ok\<close>). \<open>Py_Guarantees\<close>: the properties.
  \<^item> \<open>Py_Demo\<close> (\<^verbatim>\<open>API/Python/test/main.py\<close>): the window, all its slots, its receive thread (\<open>ui_step\<close>),
    the buttons (\<open>buttonAction\<close>), and the script of \<^verbatim>\<open>stupidP2P.py\<close> (\<open>py_main\<close>).

  \<^bold>\<open>Other headers of muduo.\<close> \<open>Muduo_Sync\<close> (\<^verbatim>\<open>Mutex.h\<close>, \<^verbatim>\<open>Condition.h\<close>, the blocking queues, \<^verbatim>\<open>Atomic.h\<close>): elements, order and
  wake-ups under any interleaving. \<open>Muduo_Local\<close> (singletons, thread-local storage, weak callbacks): who
  owns which object. \<open>Muduo_Handles\<close> (\<^verbatim>\<open>GzipFile.h\<close>, \<^verbatim>\<open>AsyncLogging.h\<close>, checked casts): handles are closed once, threads
  joined once. \<open>Muduo_LogStream\<close>, \<open>Muduo_Http\<close>, \<open>Muduo_Channel\<close>: the inline functions of these headers.

  \<^bold>\<open>This theory\<close> has the properties that join components: the two clients understand a stream alike; a
  command travels from the C client to the server and back, with the effect the specification gives it; a text
  typed into one window appears in the others; the programs read a port number alike.

  \<^bold>\<open>Bounds and fuel.\<close> A call of the C client polls at most 300 times, one of the Python client sleeps at most 302 times;
  both are proved to return within that. The send ring is a queue for the first 8192 commands
  (\<open>posted\<close>), the parser takes packages of at most 2048 bytes, a fetch returns at most 1024 messages, the
  codec takes at most 65536 bytes: each bound is a constant of the code, and what happens beyond it is a
  theorem. The invariant of the C client holds while no allocation fails. \<open>timer_walk\<close> has the
  length of the list as fuel, which \<open>timer_walk_loop\<close> shows to be enough; \<open>chat\<close> counts passes of an endless
  loop and returns the running state when they are over. The restart loop of the Python client may run forever: it is a
  partial function, and when it returns is a theorem. The list walks of the C client are partial functions that are
  shown to end on well-formed lists. What other threads do while a call waits is an arbitrary function
  \<open>env\<close> that keeps the client in existence.

  \<^bold>\<open>Not modelled.\<close> The bodies in the compiled muduo library (event loop, sockets, formatting of numbers, the HTTP
  parser) and the getters and setters of classes that only it uses; the generated layout
  \<^verbatim>\<open>clientUI.py\<close>; log output and printed messages other than received data; the make files. Callbacks on the I/O thread,
  passes of client threads and container operations are atomic steps of the systems \<open>relay_step\<close>, \<open>client_step\<close>
  and \<open>py_step\<close>; races inside such a step are covered for the timer of the server and the send ring of the C client only. Digits and white space of scripts other than ASCII
  in Python's \<^verbatim>\<open>int\<close> are left out.
\<close>

section \<open>The two clients read the wire alike\<close>

lemma split_frames_weaken:
  assumes "split_frames ok bs = (ms, rest, False)" "\<And>n. ok n \<Longrightarrow> ok' n"
  shows "split_frames ok' bs = (ms, rest, False)"
  using assms(1)
proof (induction ms arbitrary: bs)
  case Nil
  have "rest = bs" "length bs < 4 \<or> 4 \<le> length bs \<and> 0 \<le> header bs \<and> ok (header bs) \<and> length bs < 4 + nat (header bs)"
    using split_frames_Nil [OF Nil] by auto
  then show ?case using assms(2) by (auto simp: split_frames_short split_frames_partial)
next
  case (Cons m ms)
  note f = split_frames_Cons [OF Cons.prems]
  show ?case
    using f Cons.IH assms(2) by (auto simp: split_frames_full)
qed

text \<open>The entry of the Python table and the flag of the C structure that an answer is written to.\<close>

lemma answer_places: "callback_flag b = Option.bind (response_index b) (\<lambda>i. command_flag (word_of_nat i))"
  by (simp add: callback_flag_def response_index_def command_flag_def const_simps)

lemma command_flag_inj:
  assumes "command_flag (word_of_nat i) = Some f" "command_flag (word_of_nat j) = Some f" "i < 8" "j < 8"
  shows "i = j"
proof -
  have "i \<in> {0, 1, 2, 3, 4, 5, 6, 7}" "j \<in> {0, 1, 2, 3, 4, 5, 6, 7}" using assms(3,4) by auto
  then show ?thesis using assms(1,2) by (auto simp: command_flag_def const_simps)
qed

lemma same_answers:
  assumes "command_flag (word_of_nat i) = Some f" "i < backIndexMax"
  shows "callback_flag b = Some f \<longleftrightarrow> response_index b = Some i"
proof -
  have "j < 8" if "response_index b = Some j" for j using that by (auto simp: response_index_def const_simps split: if_splits)
  then show ?thesis
    using assms command_flag_inj by (auto simp: answer_places bind_eq_Some_conv const_simps)
qed

lemma fold_handle_status:
  "read_flag f (fold handle_status ms st) =
     last (read_flag f st # map (\<lambda>m. if m ! 1 = 1 then 1 else 0) (filter (\<lambda>m. callback_flag (hd m) = Some f) ms))"
  by (induction ms arbitrary: st) (auto simp: handle_status_def split: option.splits)

lemma fold_answered:
  assumes "command_flag (word_of_nat i) = Some f" "i < backIndexMax" "answers i ms \<noteq> []"
  shows "read_flag f (fold handle_status ms st) = (if last (answers i ms) = 1 then 1 else 0)"
proof -
  have "map (\<lambda>m. if m ! 1 = 1 then 1 else 0) (filter (\<lambda>m. callback_flag (hd m) = Some f) ms) =
      map (\<lambda>x. if x = 1 then 1 else 0 :: byte) (answers i ms)"
    unfolding answers_def same_answers [OF assms(1,2)] by simp
  then show ?thesis using assms(3) by (simp add: fold_handle_status last_map)
qed

lemma same_messages: "concat (map received ms) = data_messages ms"
  by (induction ms) (simp_all add: received_def data_messages_def)

lemma same_acceptable: "acceptable m \<Longrightarrow> py_acceptable m"
  by (auto simp: acceptable_def py_acceptable_def answer_places response_index_def command_flag_def const_simps split: if_splits)

text \<open>
  C10. The two clients understand the same stream alike: on the same received bytes, with packages of 1 to
  2048 bytes, as long as no allocation fails and the Python queue has room, the ring parser of the C client and the deque parser of the Python client both return, leave
  the same incomplete rest, hand the application the same messages in the same order, and agree for every
  answered command on whether it succeeded.
\<close>

theorem clients_agree:
  assumes "client_ok h c k cs es" "\<forall>k. \<not> oom h k" "length command = COMMAND_SIZE" "thread_ok t"
    and "rev (recvDeque t) = fifo_contents (recv_fifo c)"
    and "split_frames package_ok (fifo_contents (recv_fifo c)) = (ms, rest, False)" "\<forall>m\<in>set ms. acceptable m"
    and "length (recvDataQueue t) + length ms \<le> 4096"
  shows "\<exists>c' h' es' t' ds. parse_loop command c h = Some (c', h') \<and> client_ok h' c' k cs es' \<and> parse_deque t = Some t' \<and>
    fifo_contents (recv_fifo c') = rest \<and> rev (recvDeque t') = rest \<and>
    msgs es' = msgs es @ ds \<and> recvDataQueue t' = recvDataQueue t @ ds \<and>
    (\<forall>i f. i < backIndexMax \<and> command_flag (word_of_nat i) = Some f \<and> answers i ms \<noteq> [] \<longrightarrow>
       (read_flag f (command_status c') = 1 \<longleftrightarrow> commandResponse t' ! i = 1))"
proof -
  have sf: "split_frames py_package_ok (rev (recvDeque t)) = (ms, rest, False)"
    unfolding assms(5) by (rule split_frames_weaken [OF assms(6)]) (simp add: package_ok_def py_package_ok_def)
  let ?t = "(fold py_handle ms t)\<lparr>recvDeque := rev rest\<rparr>"
  have p: "parse_deque t = Some ?t" by (rule parse_deque_ok [OF assms(4) sf]) (use assms(7) same_acceptable in blast)
  obtain c' h' es' q where r: "parse_loop command c h = Some (c', h')" "client_ok h' c' k cs es'"
      "c' = c\<lparr>recv_fifo := q, command_status := fold handle_status ms (command_status c)\<rparr>" "fifo_contents q = rest"
      "msgs es' = msgs es @ concat (map received ms)"
    using parse_loop_ok [OF assms(1,3,6,7)] assms(2) by blast
  have "length (data_messages ms) \<le> length ms" by (simp add: data_messages_def)
  then have "recvDataQueue ?t = recvDataQueue t @ data_messages ms"
    using fold_messages [OF assms(4), of ms] assms(8) by (simp add: const_simps)
  moreover have "read_flag f (command_status c') = 1 \<longleftrightarrow> commandResponse ?t ! i = 1"
    if "i < backIndexMax" "command_flag (word_of_nat i) = Some f" "answers i ms \<noteq> []" for i f
    using fold_answered [OF that(2,1,3)] fold_answers [OF assms(4) that(1), of ms] that(3) r(3) by simp
  ultimately show ?thesis using r p same_messages [of ms] by fastforce
qed

theorem clients_agree_witness:
  "\<exists>c h c' h' t'. fifo_contents (recv_fifo c) = [0, 0, 0, 2, 129, 1, 0, 0, 0, 2, 3, 104, 0, 0] \<and>
     parse_loop (replicate COMMAND_SIZE 0) c h = Some (c', h') \<and>
     parse_deque ((clientRecvThread_init 4)\<lparr>recvDeque := rev [0, 0, 0, 2, 129, 1, 0, 0, 0, 2, 3, 104, 0, 0]\<rparr>) = Some t' \<and>
     fifo_contents (recv_fifo c') = rev (recvDeque t') \<and> (register_flag (command_status c') = 1 \<longleftrightarrow> commandResponse t' ! 1 = 1)"
proof -
  let ?bs = "[0, 0, 0, 2, 129, 1, 0, 0, 0, 2, 3, 104, 0, 0] :: bytes" and ?ms = "[[129, 1], [3, 104]] :: bytes list"
  let ?t = "(clientRecvThread_init 4)\<lparr>recvDeque := rev ?bs\<rparr>"
  obtain s where s: "client_start sim_os 2 1 s" "sys_ok 2 1 s" by (rule ex_client)
  obtain c where c: "client_ok (heap (cmod s)) c 0 [] []" "fifo_contents (recv_fifo c) = []" by (rule client_start_client [OF s(1)])
  have mem: "\<forall>k. \<not> oom (heap (cmod s)) k" using s(2) by (auto simp: sys_ok_def at_work_def)
  have fok: "fifo_ok (recv_fifo c)" using c(1) by (simp add: client_ok_def)
  have "fifo_length (recv_fifo c) = 0" using c(2) fok length_fifo_contents [of "recv_fifo c"] by (simp add: fifo_ok_def)
  then have "int (length ?bs) + fifo_length (recv_fifo c) \<le> int NET_READ_DATA_LENGTH" by (simp add: NET_READ_DATA_LENGTH_def)
  from fifo_push_ok [OF fok this] obtain q where q: "fifo_ok q" "fifo_contents q = ?bs" using c(2) by auto
  have ok: "client_ok (heap (cmod s)) (c\<lparr>recv_fifo := q\<rparr>) 0 [] []" using c(1) q(1) by (simp add: client_ok_def)
  have f: "split_frames package_ok (fifo_contents (recv_fifo (c\<lparr>recv_fifo := q\<rparr>))) = (?ms, [0, 0], False)"
    using q(2) ex_stream by simp
  have t: "thread_ok ?t" "length (recvDataQueue ?t) + length ?ms \<le> 4096"
    using thread_ok_init by (simp_all add: thread_ok_def clientRecvThread_init_def)
  have a: "\<forall>m\<in>set ?ms. acceptable m" by (simp add: acceptable_def)
  have i: "1 < backIndexMax \<and> command_flag (word_of_nat 1) = Some Register \<and> answers 1 ?ms \<noteq> []"
    by (simp add: const_simps command_flag_def answers_def response_index_def)
  have e: "length (replicate COMMAND_SIZE (0 :: byte)) = COMMAND_SIZE" "rev (recvDeque ?t) = fifo_contents (recv_fifo (c\<lparr>recv_fifo := q\<rparr>))"
    using q(2) by simp_all
  obtain c' h' t' where r: "parse_loop (replicate COMMAND_SIZE 0) (c\<lparr>recv_fifo := q\<rparr>) (heap (cmod s)) = Some (c', h')" "parse_deque ?t = Some t'"
      "fifo_contents (recv_fifo c') = [0, 0]" "rev (recvDeque t') = [0, 0]"
      "\<forall>i f. i < backIndexMax \<and> command_flag (word_of_nat i) = Some f \<and> answers i ?ms \<noteq> [] \<longrightarrow>
         (read_flag f (command_status c') = 1 \<longleftrightarrow> commandResponse t' ! i = 1)"
    using clients_agree [OF ok mem e(1) t(1) e(2) f a t(2)] by blast
  have "read_flag Register (command_status c') = 1 \<longleftrightarrow> commandResponse t' ! 1 = 1" using r(5) i by blast
  then show ?thesis using q(2) r(1-4)
    by (intro exI [of _ "c\<lparr>recv_fifo := q\<rparr>"] exI [of _ "heap (cmod s)"] exI [of _ c'] exI [of _ h'] exI [of _ t']) simp
qed

section \<open>A command from client to server and back\<close>

lemma reply_flag: "command_flag (code cmd) = Some flag \<Longrightarrow> callback_flag (code cmd OR CALL_BACK_MASK) = Some flag"
  by (cases cmd) (auto simp: command_flag_def callback_flag_def CALL_BACK_MASK_def const_simps)

lemma reply_index: "response_index (code cmd OR CALL_BACK_MASK) = Some (unat (code cmd))" "unat (code cmd) < backIndexMax"
  by (cases cmd; simp add: response_index_def CALL_BACK_MASK_def const_simps)+

text \<open>What each client makes of a reply of the server.\<close>

lemma client_reads_reply:
  assumes "sys_ok p f s" "recv_law api" "clients (cmod s) p = Some c" "need_to_restart_flag c = 0" "fifo_contents (recv_fifo c) = []"
    and "os_recv api (socket_fd c) 4096 (os (cmod s)) = (6, reply cmd r, e, o2)" "command_flag (code cmd) = Some flag"
  shows "\<exists>b w. recv_step api p (rbuf s) (cmod s) = Some (b, w) \<and> flag_at w p flag = (if r = EXEC_SUCCESS then 1 else 0)"
proof -
  let ?m = "[code cmd OR CALL_BACK_MASK, status r]"
  have f: "split_frames package_ok (fifo_contents (recv_fifo c) @ reply cmd r) = ([?m], [], False)"
    using split_frames_concat [of "[?m]" package_ok "[]"] assms(5) by (simp add: reply_def split_frames_short package_ok_def)
  obtain d k cs es where a: "client_at p f (cmod s) d" "client_ok (heap (cmod s)) d k cs es" using assms(1) by (rule sys_okE)
  have "waiting (heap (cmod s)) c (msgs es)" using a client_at_find [OF a(1)] assms(3) by (auto simp: waiting_def)
  moreover have "\<forall>m\<in>set [?m]. acceptable m" by (simp add: acceptable_def)
  ultimately obtain b w c' where "recv_step api p (rbuf s) (cmod s) = Some (b, w)" "clients w p = Some c'"
      "command_status c' = fold handle_status [?m] (command_status c)"
    using receive_stream [OF assms(1-4,6) _ f] by force
  then show ?thesis using reply_flag [OF assms(7)] by (cases r) (auto simp: flag_at_def handle_status_def)
qed

lemma python_reads_reply:
  assumes "thread_ok t" "\<not> recv_stop t" "recvDeque t = []" "py_sock_recv api (recv_sock t) 1024 w = (Received (reply cmd r), w')"
  shows "\<exists>t'. recv_run_step api t w = Some (t', w') \<and> commandResponse t' ! unat (code cmd) = status r"
proof -
  let ?m = "[code cmd OR CALL_BACK_MASK, status r]"
  have f: "split_frames py_package_ok (rev (recvDeque t) @ reply cmd r) = ([?m], [], False)"
    using split_frames_concat [of "[?m]" py_package_ok "[]"] assms(3) by (simp add: reply_def split_frames_short py_package_ok_def)
  have "\<forall>m\<in>set [?m]. py_acceptable m" by (simp add: py_acceptable_def)
  from recv_run_step_ok [OF assms(1,2,4) f this] show ?thesis
    using fold_answers [OF assms(1) reply_index(2), of "[?m]" cmd] by (simp add: answers_def reply_index)
qed

text \<open>
  C5. A command makes the round trip: the bytes the C client gives its socket for a command, which are those
  the Python client would send, arrive at the server as that command; the server does what the
  publish/subscribe specification says and writes one reply to the connection; and a client that reads
  the reply reports success exactly if the specification's status is success, the C client by the verdict
  on its flag, the Python client by its table of answers.
\<close>

theorem command_round_trip:
  assumes "send_law napi wire" "shutdown_law napi wire" "srv_ok live sv" "conn \<in> live" "buf_ok buf" "buf_contents buf = []"
    and "recv_law api" "sys_ok p f s" "ready p s len data" "clients (cmod s) p = Some c"
    and "send_command_fifo_empty (send_fifo c)" "need_to_restart_flag c = 0" "cmd \<noteq> SEND_DATA" "command_flag (code cmd) = Some flag"
  shows "\<exists>w b w' buf' sv' r. post_command f (code cmd) data (int len) (cmod s) = Some (Inr (p, flag), w) \<and>
    send_step api p (sbuf s) w = Some (b, w') \<and>
    os w' = snd (os_send api (socket_fd c) (frame (code cmd # take len data)) (os (cmod s))) \<and>
    onSegment napi conn now (frame (code cmd # take len data)) (buf, sv) = Some (buf', sv') \<and>
    (r, pubsub_of sv') = spec_command (connected napi (net sv)) cmd conn (take len data) (pubsub_of sv) \<and>
    wire (net sv') conn = wire (net sv) conn @ reply cmd r \<and>
    (\<forall>s2 c2 e o2. sys_ok p f s2 \<and> clients (cmod s2) p = Some c2 \<and> need_to_restart_flag c2 = 0 \<and> fifo_contents (recv_fifo c2) = [] \<and>
       os_recv api (socket_fd c2) 4096 (os (cmod s2)) = (6, reply cmd r, e, o2) \<longrightarrow>
       (\<exists>b2 w2. recv_step api p (rbuf s2) (cmod s2) = Some (b2, w2) \<and>
          (verdict (flag_at w2 p flag) = STUPID_P2P_NO_ERROR \<longleftrightarrow> r = EXEC_SUCCESS))) \<and>
    (\<forall>t o1 o2. thread_ok t \<and> \<not> recv_stop t \<and> recvDeque t = [] \<and> py_sock_recv papi (recv_sock t) 1024 o1 = (Received (reply cmd r), o2) \<longrightarrow>
       (\<exists>t2. recv_run_step papi t o1 = Some (t2, o2) \<and> (commandResponse t2 ! unat (code cmd) = successResponse \<longleftrightarrow> r = EXEC_SUCCESS)))"
proof -
  let ?m = "code cmd # take len data"
  let ?r = "fst (spec_command (connected napi (net sv)) cmd conn (take len data) (pubsub_of sv))"
  have m: "length ?m \<le> 65536" "message0 ?m = code cmd" "tl ?m = take len data" using assms(9) by (auto simp: ready_def message0_def)
  obtain w b w' where w: "post_command f (code cmd) data (int len) (cmod s) = Some (Inr (p, flag), w)" "send_step api p (sbuf s) w = Some (b, w')"
      "os w' = snd (os_send api (socket_fd c) (frame ?m) (os (cmod s)))"
    using post_and_send [OF assms(8,9,14,10-12), of api] by blast
  obtain sv' where sv': "onMessage napi sv conn ?m now = Some sv'"
      "pubsub_of sv' = snd (spec_command (connected napi (net sv)) cmd conn (take len data) (pubsub_of sv))"
      "wire (net sv') = (wire (net sv))(conn := wire (net sv) conn @ reply cmd ?r)"
    using onMessage_command [OF assms(3,4,1,2) m(1,2) assms(13), of now] m(3) by auto
  have sf: "split_frames codec_ok (buf_contents buf @ frame ?m) = ([?m], [], False)"
    using split_frames_frame [of ?m codec_ok "[]"] m(1) assms(6) by (simp add: split_frames_short codec_ok_def)
  obtain buf' where "onSegment napi conn now (frame ?m) (buf, sv) = map_option (\<lambda>s'. (buf', s')) (deliver (onMessage napi) conn now [?m] sv)"
    unfolding onSegment_def by (rule on_segment_refines [OF assms(5) sf]) auto
  then have seg: "onSegment napi conn now (frame ?m) (buf, sv) = Some (buf', sv')" using sv'(1) by simp
  have c2: "\<exists>b2 w2. recv_step api p (rbuf s2) (cmod s2) = Some (b2, w2) \<and> (verdict (flag_at w2 p flag) = STUPID_P2P_NO_ERROR \<longleftrightarrow> ?r = EXEC_SUCCESS)"
    if "sys_ok p f s2" "clients (cmod s2) p = Some c2" "need_to_restart_flag c2 = 0" "fifo_contents (recv_fifo c2) = []"
      "os_recv api (socket_fd c2) 4096 (os (cmod s2)) = (6, reply cmd ?r, e, o2)" for s2 c2 e o2
    using client_reads_reply [OF that(1) assms(7) that(2-5) assms(14)] by (force simp: verdict_def)
  have t2: "\<exists>t2. recv_run_step papi t o1 = Some (t2, o2) \<and> (commandResponse t2 ! unat (code cmd) = successResponse \<longleftrightarrow> ?r = EXEC_SUCCESS)"
    if "thread_ok t" "\<not> recv_stop t" "recvDeque t = []" "py_sock_recv papi (recv_sock t) 1024 o1 = (Received (reply cmd ?r), o2)" for t o1 o2
    using python_reads_reply [OF that] by (cases ?r) (auto simp: const_simps)
  have "(?r, pubsub_of sv') = spec_command (connected napi (net sv)) cmd conn (take len data) (pubsub_of sv)"
    "wire (net sv') conn = wire (net sv) conn @ reply cmd ?r" using sv'(2,3) by simp_all
  then show ?thesis using w seg c2 t2 by blast
qed

theorem command_round_trip_witness:
  "\<exists>(s :: sim_os_state client_sys) w b w' buf' sv'. post_command 1 (code SUBSCRIBE_DEVICE) [65] (int 1) (cmod s) = Some (Inr (2, Subscribe), w) \<and>
     send_step sim_os 2 (sbuf s) w = Some (b, w') \<and>
     onSegment sim_api 3 (Timestamp 0) (frame [2, 65]) (ex_buf, ex_srv) = Some (buf', sv') \<and>
     sim_wire (net sv') 3 = sim_wire (net ex_srv) 3 @ reply SUBSCRIBE_DEVICE EXEC_SUCCESS"
proof -
  obtain s where s: "client_start sim_os 2 1 s" "sys_ok 2 1 s" "ready 2 s 1 [65]" by (rule ex_ready)
  obtain c where c: "clients (cmod s) 2 = Some c" "need_to_restart_flag c = 0" "send_command_fifo_empty (send_fifo c)"
    by (rule client_start_client [OF s(1)])
  have f: "SUBSCRIBE_DEVICE \<noteq> SEND_DATA" "command_flag (code SUBSCRIBE_DEVICE) = Some Subscribe" by (simp_all add: command_flag_def const_simps)
  have r: "fst (spec_command x SUBSCRIBE_DEVICE 3 (take 1 [65]) (pubsub_of ex_srv)) = EXEC_SUCCESS" for x
  proof -
    have "connections ex_srv [65] = Some 1" by (simp add: ex_srv_def)
    moreover have "ident (pubsub_of ex_srv) 3 \<noteq> Some [65]" by (simp add: ex_srv_pubsub(2) delete_id_def)
    ultimately show ?thesis by (simp add: spec_subscribe_def)
  qed
  have l: "3 \<in> {1, 2, 3 :: conn}" by simp
  have "take 1 [65 :: byte] = [65]" "code SUBSCRIBE_DEVICE # [65] = [2, 65]" by simp_all
  with command_round_trip [OF sim_laws(1,2) ex_srv_ok l ex_buf(1,2) sim_os_laws(1) s(2,3) c(1,3,2) f, of "Timestamp 0" sim_py] r
  show ?thesis by (metis fst_conv)
qed

section \<open>A text from window to window\<close>

lemma server_relays_segment:
  assumes "send_law api wire" "srv_ok live sv" "connContext sv conn = Some info" "\<forall>r\<in>set (sendToList info). connected api (net sv) r"
    and "buf_ok buf" "buf_contents buf = []" "length bs < 65536"
  shows "\<exists>buf' sv'. onSegment api conn now (frame (3 # bs)) (buf, sv) = Some (buf', sv') \<and>
    (\<forall>r. wire (net sv') r = wire (net sv) r @ (if r \<in> set (sendToList info) then frame (3 # bs) else []) @
                            (if r = conn then reply SEND_DATA EXEC_SUCCESS else []))"
proof -
  have m: "message0 (3 # bs) = code SEND_DATA" "length (3 # bs) \<le> 65536" using assms(7) by (simp_all add: message0_def)
  obtain n where n: "onMessage api sv conn (3 # bs) now = Some (sv\<lparr>net := n\<rparr>)"
      "\<forall>r. wire n r = wire (net sv) r @ (if r \<in> set (sendToList info) then frame (3 # bs) else []) @
         (if r = conn then reply SEND_DATA EXEC_SUCCESS else [])"
    using onMessage_relays [OF assms(1-3) m assms(4)] by blast
  have sf: "split_frames codec_ok (buf_contents buf @ frame (3 # bs)) = ([3 # bs], [], False)"
    using split_frames_frame [of "3 # bs" codec_ok "[]"] m(2) assms(6) by (simp add: split_frames_short codec_ok_def)
  obtain buf' where "onSegment api conn now (frame (3 # bs)) (buf, sv) =
      map_option (\<lambda>s'. (buf', s')) (deliver (onMessage api) conn now [3 # bs] sv)"
    unfolding onSegment_def by (rule on_segment_refines [OF assms(5) sf]) auto
  then show ?thesis using n by simp
qed

text \<open>
  C4. A text typed into one window appears in the windows of all recipients: for a text whose UTF-8 form
  has fewer than 65536 bytes the send button gives the socket one data package and returns after at most
  302 sleeps with the text shown as sent; the server that receives this package, with all recipients
  connected, appends exactly it to the stream of every other recipient; and whatever the segmentation, the
  pass of a receiving client that completes the package, followed by a pass of the window's thread, shows
  the same text as received.
\<close>

theorem text_end_to_end:
  assumes "startFlag u = 1" "ui_client u = Some c" "py_started c" "runningFlag c = 1" "needToRestartFlag c = 0" "sock c = Some k"
    and "env_ok env" "s \<noteq> []" "utf8 s = Some bs" "length bs < 65536"
    and "py_sock_send papi k (frame (3 # bs)) (pyos c) = (Some n, w)"
    and "send_law napi wire" "srv_ok live sv" "connContext sv conn = Some info" "\<forall>r\<in>set (sendToList info). connected napi (net sv) r"
    and "buf_ok buf" "buf_contents buf = []"
  shows "\<exists>u' c1 j buf' sv'. buttonSendDataCliecked papi env s u = Some u' \<and> textBrowser u' = textBrowser u @ [Sent_text s] \<and>
    pyos c1 = w \<and> j \<le> 302 \<and> ui_client u' = Some (run_env env j c1) \<and>
    onSegment napi conn now (frame (3 # bs)) (buf, sv) = Some (buf', sv') \<and>
    (\<forall>r\<in>set (sendToList info) - {conn}. wire (net sv') r = wire (net sv) r @ frame (3 # bs)) \<and>
    (\<forall>u2 c2 t seg w2. ui_recvThread u2 = Some Thread_running \<and> py_started c2 \<and> runningFlag c2 = 1 \<and> recvThread c2 = Some t \<and>
       \<not> recv_stop t \<and> recvDataQueue t = [] \<and> rev (recvDeque t) @ seg = frame (3 # bs) \<and>
       py_sock_recv rapi (recv_sock t) 1024 (pyos c2) = (Received seg, w2) \<longrightarrow>
       (\<exists>t' u2'. recv_run_step rapi t (pyos c2) = Some (t', w2) \<and>
          ui_recv_step (u2\<lparr>ui_client := Some (c2\<lparr>recvThread := Some t', pyos := w2\<rparr>)\<rparr>) = Some u2' \<and>
          textBrowser u2' = textBrowser u2 @ [Received_text s]))"
proof -
  have l: "length bs < 2 ^ 32 - 1" "length bs < 2 ^ 31 - 1" using assms(10) by simp_all
  obtain u' c1 j where u': "buttonSendDataCliecked papi env s u = Some u'" "textBrowser u' = textBrowser u @ [Sent_text s]"
      "pyos c1 = w" "j \<le> 302" "ui_client u' = Some (run_env env j c1)"
    using send_slot [OF assms(1-9) l(1) assms(11)] by blast
  obtain buf' sv' where sv': "onSegment napi conn now (frame (3 # bs)) (buf, sv) = Some (buf', sv')"
      "\<forall>r. wire (net sv') r = wire (net sv) r @ (if r \<in> set (sendToList info) then frame (3 # bs) else []) @
         (if r = conn then reply SEND_DATA EXEC_SUCCESS else [])"
    using server_relays_segment [OF assms(12-17,10)] by blast
  have w: "\<forall>r\<in>set (sendToList info) - {conn}. wire (net sv') r = wire (net sv) r @ frame (3 # bs)" using sv'(2) by simp
  have sh: "\<exists>t' u2'. recv_run_step rapi t (pyos c2) = Some (t', w2) \<and>
      ui_recv_step (u2\<lparr>ui_client := Some (c2\<lparr>recvThread := Some t', pyos := w2\<rparr>)\<rparr>) = Some u2' \<and>
      textBrowser u2' = textBrowser u2 @ [Received_text s]"
    if "ui_recvThread u2 = Some Thread_running" "py_started c2" "runningFlag c2 = 1" "recvThread c2 = Some t" "\<not> recv_stop t"
      "recvDataQueue t = []" "rev (recvDeque t) @ seg = frame (3 # bs)"
      "py_sock_recv rapi (recv_sock t) 1024 (pyos c2) = (Received seg, w2)" for u2 c2 t seg w2
    using window_shows [OF that(1-6) utf8_decode_encode [OF assms(9)] l(2) that(7,8)] by blast
  show ?thesis using u' sv'(1) w sh by blast
qed

theorem text_end_to_end_witness:
  "let u = buttonConnectionClicked sim_py [49] [56, 48] (client_window_init \<lparr>py_out = [], py_in = [], py_refused = 0\<rparr>) in
     \<exists>u' buf' sv'. buttonSendDataCliecked sim_py (\<lambda>_ c. c) [233] u = Some u' \<and> textBrowser u' = [Sent_text [233]] \<and>
       map_option (\<lambda>c. py_out (pyos c)) (ui_client u') = Some (frame [3, 0xc3, 0xa9]) \<and>
       onSegment sim_api 1 (Timestamp 0) (frame [3, 0xc3, 0xa9]) (ex_buf, ex_srv) = Some (buf', sv') \<and>
       sim_wire (net sv') 2 = sim_wire (net ex_srv) 2 @ frame [3, 0xc3, 0xa9]"
proof -
  let ?w = "\<lparr>py_out = [], py_in = [], py_refused = 0\<rparr>"
  let ?u = "buttonConnectionClicked sim_py [49] [56, 48] (client_window_init ?w)"
  obtain c where u: "startFlag ?u = 1" "ui_client ?u = Some c" "py_started c" "runningFlag c = 1" "needToRestartFlag c = 0"
      "sock c = Some 4" "pyos c = ?w" "textBrowser ?u = []" by (rule ex_window)
  have e: "env_ok (\<lambda>_ (c :: sim_py_state stupidP2PClient). c)" "[233] \<noteq> ([] :: nat list)" "utf8 [233] = Some [0xc3, 0xa9]"
    "length ([0xc3, 0xa9] :: bytes) < 65536" by (simp_all add: env_ok_def utf8_char_def byte_of_nat_def)
  have s: "py_sock_send sim_py 4 (frame [3, 0xc3, 0xa9]) (pyos c) = (Some 7, \<lparr>py_out = frame [3, 0xc3, 0xa9], py_in = [], py_refused = 0\<rparr>)"
    by (simp add: sim_py_def u(7))
  have i: "connContext ex_srv 1 = Some (ex_info [65] 0 [] [2])" "\<forall>r\<in>set (sendToList (ex_info [65] 0 [] [2])). connected sim_api (net ex_srv) r"
    "2 \<in> set (sendToList (ex_info [65] 0 [] [2])) - {1}" by (simp_all add: ex_info_def ex_srv_def sim_connected ex_net_def)
  have r: "run_env (\<lambda>_ c. c) n c = c" for n and c :: "sim_py_state stupidP2PClient" by (induction n) simp_all
  obtain u' c1 buf' sv' where x: "buttonSendDataCliecked sim_py (\<lambda>_ c. c) [233] ?u = Some u'" "textBrowser u' = textBrowser ?u @ [Sent_text [233]]"
      "pyos c1 = \<lparr>py_out = frame [3, 0xc3, 0xa9], py_in = [], py_refused = 0\<rparr>" "ui_client u' = Some c1"
      "onSegment sim_api 1 (Timestamp 0) (frame [3, 0xc3, 0xa9]) (ex_buf, ex_srv) = Some (buf', sv')"
      "\<forall>r\<in>set (sendToList (ex_info [65] 0 [] [2])) - {1}. sim_wire (net sv') r = sim_wire (net ex_srv) r @ frame [3, 0xc3, 0xa9]"
    using text_end_to_end [OF u(1-6) e s sim_laws(1) ex_srv_ok i(1,2) ex_buf(1,2), where now = "Timestamp 0" and rapi = sim_py] unfolding r by blast
  have "sim_wire (net sv') 2 = sim_wire (net ex_srv) 2 @ frame [3, 0xc3, 0xa9]" using x(6) i(3) by blast
  then show ?thesis unfolding Let_def using x(1-5) u(8) by simp
qed

section \<open>The programs read the port alike\<close>

lemma digits_as_text:
  assumes "\<forall>d\<in>set ds. c_isdigit d"
  shows "\<forall>d\<in>set (map unat ds). py_isdigit d" "foldl (\<lambda>n d. 10 * n + (int d - 48)) 0 (map unat ds) = digits_value ds"
proof -
  have "py_isdigit (unat d)" if "c_isdigit d" for d using that by (simp add: c_isdigit_def py_isdigit_def word_le_nat_alt)
  then show "\<forall>d\<in>set (map unat ds). py_isdigit d" using assms by simp
  show "foldl (\<lambda>n d. 10 * n + (int d - 48)) 0 (map unat ds) = digits_value ds" by (simp add: digits_value_def foldl_map)
qed

text \<open>
  The three programs read a port number alike: a non-empty string of digits with a value below 65536, given to the
  server as its argument, to the C test program with \<^verbatim>\<open>-p\<close> and to the Python window as text, is that number for
  all of them; without an argument the server has no defined behaviour.
\<close>

theorem port_read_alike:
  assumes "ds \<noteq> []" "\<forall>d\<in>set ds. c_isdigit d" "digits_value ds < 65536"
  shows "(\<exists>port s. server_main [ds] n = Some (port, s) \<and> uint port = digits_value ds \<and> s = p2pServer_new 300 n) \<and>
    parse_options (c_getopt demo_options [[45, 112], ds]) g = Some (Inr (g\<lparr>server_port := digits_value ds\<rparr>)) \<and>
    py_int (map unat ds) = Some (digits_value ds) \<and> server_main [] n = None"
proof -
  have v: "digits_value ds < 2 ^ 31" "0 \<le> digits_value ds" using assms(3) digits_value_nonneg [OF assms(2)] by simp_all
  note a = c_atoi_digits [OF assms(2) v(1)]
  have "py_int (map unat ds) = Some (digits_value ds)"
    using py_int_digits [of "map unat ds"] digits_as_text [OF assms(2)] assms(1) by simp
  moreover have "c_getopt demo_options [[45, 112], ds] = [(112, ds)]" by (simp add: is_option_def demo_options_def)
  ultimately show ?thesis using a v(2) assms(3) by (simp add: server_main_def uint_word_of_int)
qed

theorem port_read_alike_witness:
  "(\<exists>port s. server_main [[56, 48, 56, 48]] () = Some (port, s) \<and> uint port = 8080 \<and> s = p2pServer_new 300 ()) \<and>
   py_int [56, 48, 56, 48] = Some 8080"
proof -
  let ?ds = "[56, 48, 56, 48] :: bytes"
  have d: "?ds \<noteq> []" "\<forall>d\<in>set ?ds. c_isdigit d" "digits_value ?ds < 65536" "digits_value ?ds = 8080" "map unat ?ds = [56, 48, 56, 48]"
    by (simp_all add: c_isdigit_def digits_value_def)
  show ?thesis using port_read_alike [OF d(1-3), of "()"] unfolding d(4,5) by blast
qed

end
